(* ===== verification/Prelude.thy ===== *)
theory Prelude
  imports Main "HOL-Library.Word" "HOL-Library.Sublist"
begin

text \<open>
  What every component shares: the machine integers of the C sources as words, characters as
  the integers the sources compare them with, the collections of facts that carry the proofs,
  and the lemmas on bits, lists and maps that more than one component needs.
\<close>

unbundle bit_operations_syntax

section \<open>Machine integers and characters\<close>

type_synonym byte = "8 word"
type_synonym u32 = "32 word"
type_synonym u64 = "64 word"

text \<open>The code of an ASCII character, as the C sources write it in a character constant.\<close>

definition ascii :: "char \<Rightarrow> int" where
  "ascii c = of_char c"

text \<open>The bytes of a C string constant.\<close>

definition bytes_of :: "string \<Rightarrow> byte list" where
  "bytes_of s = map of_char s"

text \<open>The bytes of a C string, up to its first NUL: what \<open>strlen\<close> counts.\<close>

definition c_str :: "byte list \<Rightarrow> byte list" where
  "c_str s = takeWhile (\<lambda>b. b \<noteq> 0) s"

named_theorems source_simps "definitions of a component that its proofs unfold"
named_theorems wordarith "bridges from words to arithmetic on natural numbers"

lemma c_str_no_nul [simp]: "0 \<notin> set s \<Longrightarrow> c_str s = s"
  by (auto simp: c_str_def takeWhile_eq_all_conv)

lemma c_str_Cons: "c_str (b # s) = (if b = 0 then [] else b # c_str s)"
  by (simp add: c_str_def)

lemma c_str_Nil [simp]: "c_str [] = []"
  by (simp add: c_str_def)

lemma length_bytes_of [simp]: "length (bytes_of s) = length s"
  by (simp add: bytes_of_def)

section \<open>Words\<close>

lemma unat_lt_byte [simp]: "unat (b :: byte) < 256"
  using unsigned_less [of b] by simp

lemma byte_eq_iff: "(a :: byte) = b \<longleftrightarrow> unat a = unat b"
  by (simp add: word_unat_eq_iff)

text \<open>Masks and shifts on words read as remainders and quotients.\<close>

lemma unat_and_mask [wordarith]: "unat (w AND mask n :: 'a :: len word) = unat w mod 2 ^ n"
  by (simp only: take_bit_eq_mask [symmetric] unsigned_take_bit_eq) (simp only: take_bit_eq_mod)

lemma unat_drop_bit [wordarith]: "unat (drop_bit n w :: 'a :: len word) = unat w div 2 ^ n"
  by (simp only: unsigned_drop_bit_eq) (simp add: drop_bit_eq_div take_bit_nat_eq_self)

section \<open>Lists\<close>

lemma take_drop_nth: "i < length xs \<Longrightarrow> drop i xs = xs ! i # drop (Suc i) xs"
  by (simp add: Cons_nth_drop_Suc)

end
