(* ===== verification/Text.thy ===== *)
theory Text
  imports Prelude
begin

text \<open>
  \<open>src/text.c\<close>: the growable byte buffer. The record holds the bytes written so far (without
  the terminating NUL) and the capacity of the allocation. An allocation that fails ends the
  process, so every operation returns. Byte counts are natural numbers: no buffer of the
  compiler comes near the range of \<open>size_t\<close>.

  The interface \<open>byte_sink\<close> is what a client relies on: a byte put into the buffer is the last
  byte of its contents. The buffer of \<open>text.c\<close> provides it.
\<close>

section \<open>The buffer\<close>

record text_buf =
  data :: "byte list"
  capacity :: nat

definition text_empty :: text_buf where
  "text_empty = \<lparr>data = [], capacity = 0\<rparr>"

text \<open>The loop of \<open>reserve\<close>: double until the capacity reaches what is needed.\<close>

function grow_capacity :: "nat \<Rightarrow> nat \<Rightarrow> nat" where
  "grow_capacity cap needed =
     (if 0 < cap \<and> cap < needed then grow_capacity (cap * 2) needed else cap)"
  by pat_completeness auto
termination
  by (relation "measure (\<lambda>(cap, needed). needed - cap)") auto

declare grow_capacity.simps [simp del]

definition reserve :: "text_buf \<Rightarrow> nat \<Rightarrow> text_buf" where
  "reserve t extra =
     (let needed = length (data t) + extra + 1;
          cap = (if capacity t = 0 then 64 else capacity t)
      in if needed \<le> capacity t then t
         else t\<lparr>capacity := grow_capacity cap needed\<rparr>)"

definition text_append_bytes :: "text_buf \<Rightarrow> byte list \<Rightarrow> text_buf" where
  "text_append_bytes t bs =
     (let t = reserve t (length bs) in t\<lparr>data := data t @ bs\<rparr>)"

text \<open>\<open>text_append\<close> takes a C string, so it stops at the first NUL.\<close>

definition text_append :: "text_buf \<Rightarrow> byte list \<Rightarrow> text_buf" where
  "text_append t s =
     (let n = length (c_str s); t = reserve t n in t\<lparr>data := data t @ take n s\<rparr>)"

definition text_free :: "text_buf \<Rightarrow> text_buf" where
  "text_free t = \<lparr>data = [], capacity = 0\<rparr>"

section \<open>Lemmas\<close>

text \<open>The room the buffer promises: its bytes and the NUL that ends them.\<close>

definition text_ok :: "text_buf \<Rightarrow> bool" where
  "text_ok t \<longleftrightarrow> (if capacity t = 0 then data t = [] else length (data t) < capacity t)"

lemma grow_capacity_ge: "0 < cap \<Longrightarrow> needed \<le> grow_capacity cap needed"
proof (induction cap needed rule: grow_capacity.induct)
  case (1 cap needed)
  then show ?case
    by (cases "cap < needed") (simp_all add: grow_capacity.simps [of cap needed])
qed

lemma data_reserve [simp]: "data (reserve t n) = data t"
  by (simp add: reserve_def Let_def)

lemma reserve_room: "text_ok t \<Longrightarrow> length (data t) + n < capacity (reserve t n)"
proof -
  have "length (data t) + n + 1 \<le> grow_capacity (if capacity t = 0 then 64 else capacity t)
      (length (data t) + n + 1)"
    by (rule grow_capacity_ge) simp
  then show ?thesis by (auto simp: reserve_def Let_def)
qed

lemma data_text_empty [simp]: "data text_empty = []"
  by (simp add: text_empty_def)

lemma text_ok_empty [simp]: "text_ok text_empty"
  by (simp add: text_ok_def text_empty_def)

lemma data_text_append_bytes [simp]: "data (text_append_bytes t bs) = data t @ bs"
  by (simp add: text_append_bytes_def Let_def)

lemma take_length_c_str [simp]: "take (length (c_str s)) s = c_str s"
  by (metis c_str_def takeWhile_eq_take)

lemma data_text_append [simp]: "data (text_append t s) = data t @ c_str s"
  by (simp add: text_append_def Let_def)

lemma text_ok_append_bytes [simp]: "text_ok t \<Longrightarrow> text_ok (text_append_bytes t bs)"
  by (drule reserve_room [of t "length bs"]) (simp add: text_append_bytes_def text_ok_def Let_def)

lemma text_ok_append [simp]: "text_ok t \<Longrightarrow> text_ok (text_append t s)"
  by (drule reserve_room [of t "length (c_str s)"]) (simp add: text_append_def text_ok_def Let_def)

section \<open>The interface of a byte buffer\<close>

locale byte_sink =
  fixes contents :: "'t \<Rightarrow> byte list"
    and put :: "'t \<Rightarrow> byte \<Rightarrow> 't"
    and valid :: "'t \<Rightarrow> bool"
  assumes contents_put [simp]: "contents (put t b) = contents t @ [b]"
    and valid_put [simp]: "valid t \<Longrightarrow> valid (put t b)"
begin

lemma contents_put_all: "contents (foldl put t bs) = contents t @ bs"
  by (induction bs arbitrary: t) simp_all

lemma valid_put_all: "valid t \<Longrightarrow> valid (foldl put t bs)"
  by (induction bs arbitrary: t) simp_all

end

text \<open>
  \<open>append_byte\<close> of \<open>src/lexer.c\<close> puts one byte into a \<open>struct text\<close>. A NUL goes in as a
  placeholder that is overwritten, because \<open>text_append\<close> stops at a NUL.
\<close>

definition append_byte :: "text_buf \<Rightarrow> byte \<Rightarrow> text_buf" where
  "append_byte t b =
     (if b = 0
      then let t = text_append t (bytes_of ''?'') in t\<lparr>data := (data t)[length (data t) - 1 := 0]\<rparr>
      else text_append t [b, 0])"

lemma data_append_byte [simp]: "data (append_byte t b) = data t @ [b]"
proof (cases "b = 0")
  case True
  have "c_str (bytes_of ''?'') = bytes_of ''?''"
    by (simp add: bytes_of_def)
  with True show ?thesis
    by (simp add: append_byte_def bytes_of_def Let_def list_update_append)
next
  case False
  then show ?thesis by (simp add: append_byte_def c_str_Cons)
qed

lemma text_ok_append_byte [simp]: "text_ok t \<Longrightarrow> text_ok (append_byte t b)"
proof -
  assume ok: "text_ok t"
  then have "text_ok (text_append t (bytes_of ''?''))" by simp
  then have "text_ok ((text_append t (bytes_of ''?''))\<lparr>data :=
      (data (text_append t (bytes_of ''?'')))[length (data (text_append t (bytes_of ''?''))) - 1 := 0]\<rparr>)"
    unfolding text_ok_def by (auto split: if_splits)
  with ok show ?thesis by (simp add: append_byte_def Let_def)
qed

interpretation sink: byte_sink data append_byte text_ok
  by unfold_locales simp_all

end
