(* ===== verification/Utf8.thy ===== *)
theory Utf8
  imports Text
begin

text \<open>
  The UTF-8 codec of \<open>src/lexer.c\<close>: \<open>append_utf8\<close> encodes a code point, \<open>utf8_length\<close> decodes
  one sequence and refuses overlong forms, surrogates and values above 10FFFF. A code point is a
  32-bit word and a byte an 8-bit word, with the masks and shifts of the source.

  The lemmas read the masks as arithmetic, and show that the two functions are inverse to each
  other on the Unicode scalar values. The locale \<open>prefix_code\<close> is the interface the lexer uses:
  a decoder that finds its own encodings, from which the decoding of a whole file follows.
\<close>

section \<open>The codec\<close>

definition append_utf8 :: "text_buf \<Rightarrow> u32 \<Rightarrow> text_buf" where
  "append_utf8 t cp =
     (if cp < 0x80 then append_byte t (ucast cp)
      else if cp < 0x800 then
        append_byte (append_byte t (ucast (0xC0 OR drop_bit 6 cp)))
          (ucast (0x80 OR (cp AND 0x3F)))
      else if cp < 0x10000 then
        append_byte (append_byte (append_byte t
          (ucast (0xE0 OR drop_bit 12 cp)))
          (ucast (0x80 OR (drop_bit 6 cp AND 0x3F))))
          (ucast (0x80 OR (cp AND 0x3F)))
      else
        append_byte (append_byte (append_byte (append_byte t
          (ucast (0xF0 OR drop_bit 18 cp)))
          (ucast (0x80 OR (drop_bit 12 cp AND 0x3F))))
          (ucast (0x80 OR (drop_bit 6 cp AND 0x3F))))
          (ucast (0x80 OR (cp AND 0x3F))))"

text \<open>The loop over the continuation bytes. \<open>None\<close> is the early \<open>return 0\<close>.\<close>

definition shift_in :: "u32 \<Rightarrow> byte \<Rightarrow> u32" where
  "shift_in cp b = (push_bit 6 cp OR ucast (b AND 0x3F))"

fun utf8_tail :: "byte list \<Rightarrow> u32 \<Rightarrow> u32 option" where
  "utf8_tail [] cp = Some cp"
| "utf8_tail (b # bs) cp =
     (if b AND 0xC0 \<noteq> 0x80 then None
      else utf8_tail bs (shift_in cp b))"

text \<open>
  The bytes from \<open>s\<close> to the end of the source. \<open>None\<close> is the result 0, \<open>Some (n, cp)\<close> the length
  of the sequence and the code point it stores. No caller passes an empty list.
\<close>

definition utf8_length :: "byte list \<Rightarrow> (nat \<times> u32) option" where
  "utf8_length s =
     (case s of
        [] \<Rightarrow> None
      | s0 # rest \<Rightarrow>
          if s0 < 0x80 then Some (1, ucast s0)
          else
            (case (if s0 AND 0xE0 = 0xC0 then Some (2, 0x80, ucast (s0 AND 0x1F))
                   else if s0 AND 0xF0 = 0xE0 then Some (3, 0x800, ucast (s0 AND 0x0F))
                   else if s0 AND 0xF8 = 0xF0 then Some (4, 0x10000, ucast (s0 AND 0x07))
                   else None) of
               None \<Rightarrow> None
             | Some (n, least, cp0) \<Rightarrow>
                 if n > length s then None
                 else
                   (case utf8_tail (take (n - 1) rest) cp0 of
                      None \<Rightarrow> None
                    | Some cp \<Rightarrow>
                        if cp < least \<or> cp > 0x10FFFF \<or> (cp \<ge> 0xD800 \<and> cp \<le> 0xDFFF)
                        then None
                        else Some (n, cp))))"

section \<open>Scalar values and the arithmetic of the encoding\<close>

text \<open>A Unicode scalar value: a code point that is not a surrogate.\<close>

definition scalar :: "u32 \<Rightarrow> bool" where
  "scalar cp \<longleftrightarrow> cp \<le> 0x10FFFF \<and> \<not> (0xD800 \<le> cp \<and> cp \<le> 0xDFFF)"

definition encode :: "u32 \<Rightarrow> byte list" where
  "encode cp = data (append_utf8 text_empty cp)"

text \<open>The bytes of a code point as arithmetic, the form the Unicode standard gives.\<close>

definition encoding :: "nat \<Rightarrow> nat list" where
  "encoding n =
     (if n < 0x80 then [n]
      else if n < 0x800 then [192 + n div 64, 128 + n mod 64]
      else if n < 0x10000 then [224 + n div 4096, 128 + n div 64 mod 64, 128 + n mod 64]
      else [240 + n div 262144, 128 + n div 4096 mod 64, 128 + n div 64 mod 64, 128 + n mod 64])"

lemma data_append_utf8: "data (append_utf8 t cp) = data t @ encode cp"
  by (simp add: append_utf8_def encode_def)

lemma or_shift_nat: "b < 2 ^ k \<Longrightarrow> 2 ^ k * a OR b = 2 ^ k * a + (b :: nat)"
proof -
  assume "b < 2 ^ k"
  then have "take_bit k b = b" by (simp add: take_bit_nat_eq_self)
  then have "bit b i \<Longrightarrow> i < k" for i
    by (metis bit_take_bit_iff)
  then have "push_bit k a AND b = 0"
    by (intro bit_eqI) (force simp: bit_simps)
  then have "push_bit k a + b = push_bit k a OR b" by (rule disjunctive_add_eq_or)
  then show ?thesis by (simp add: push_bit_eq_mult mult.commute)
qed

text \<open>The masks of the source on one byte, as arithmetic.\<close>

lemma byte_high_bits:
  fixes b :: byte
  shows "b AND 0xC0 = 0x80 \<longleftrightarrow> unat b div 64 = 2"
    and "b AND 0xE0 = 0xC0 \<longleftrightarrow> unat b div 32 = 6"
    and "b AND 0xF0 = 0xE0 \<longleftrightarrow> unat b div 16 = 14"
    and "b AND 0xF8 = 0xF0 \<longleftrightarrow> unat b div 8 = 30"
proof -
  have high: "c AND NOT (mask n) = push_bit n (drop_bit n c)" for n and c :: byte
    by (rule bit_eqI) (auto simp: bit_simps)
  have undo: "drop_bit n (push_bit n (drop_bit n c)) = drop_bit n c" for n and c :: byte
    by (rule bit_eqI) (auto simp: bit_simps dest: bit_imp_le_length)
  have inj: "push_bit n (drop_bit n b) = push_bit n (drop_bit n c) \<longleftrightarrow> drop_bit n b = drop_bit n c" for n c
    by (metis undo)
  have eq: "b AND NOT (mask n) = c AND NOT (mask n) \<longleftrightarrow> unat b div 2 ^ n = unat c div 2 ^ n" for n c
    by (metis high inj unat_drop_bit word_unat_eq_iff)
  have masks: "NOT (mask 6) = (0xC0 :: byte)" "NOT (mask 5) = (0xE0 :: byte)"
    "NOT (mask 4) = (0xF0 :: byte)" "NOT (mask 3) = (0xF8 :: byte)"
    by (simp_all add: mask_eq_decr_exp)
  show "b AND 0xC0 = 0x80 \<longleftrightarrow> unat b div 64 = 2"
    using eq [of 6 "0x80"] by (simp add: masks)
  show "b AND 0xE0 = 0xC0 \<longleftrightarrow> unat b div 32 = 6"
    using eq [of 5 "0xC0"] by (simp add: masks)
  show "b AND 0xF0 = 0xE0 \<longleftrightarrow> unat b div 16 = 14"
    using eq [of 4 "0xE0"] by (simp add: masks)
  show "b AND 0xF8 = 0xF0 \<longleftrightarrow> unat b div 8 = 30"
    using eq [of 3 "0xF0"] by (simp add: masks)
qed

lemma unat_low_bits:
  fixes w :: "'a :: len word"
  shows "unat (w AND 0x3F) = unat w mod 64"
    and "unat (w AND 0x1F) = unat w mod 32"
    and "unat (w AND 0x0F) = unat w mod 16"
    and "unat (w AND 0x07) = unat w mod 8"
  using unat_and_mask [of w 6] unat_and_mask [of w 5] unat_and_mask [of w 4] unat_and_mask [of w 3]
  by (simp_all add: mask_eq_decr_exp)

lemma unat_ucast_small:
  "unat (w :: 'a :: len word) < 2 ^ LENGTH('b) \<Longrightarrow> unat (ucast w :: 'b :: len word) = unat w"
  by (simp add: unsigned_ucast_eq take_bit_nat_eq_self)

lemma unat_ucast_byte [simp]: "unat (ucast (b :: byte) :: u32) = unat b"
  by (rule unat_ucast_small) (rule order_less_trans [OF unat_lt_byte], simp)

text \<open>One step of the loop over the continuation bytes, and the three lengths it runs for.\<close>

lemma unat_tail_step:
  assumes "unat cp < 2 ^ 20"
  shows "unat (shift_in cp b) = 64 * unat cp + unat b mod 64"
proof -
  have "unat (push_bit 6 cp :: u32) = 2 ^ 6 * unat cp"
    using assms
    by (simp only: unsigned_push_bit_eq) (simp add: push_bit_eq_mult take_bit_nat_eq_self)
  then have "unat (shift_in cp b) = (2 ^ 6 * unat cp OR unat b mod 64)"
    by (simp only: shift_in_def unsigned_or_eq unat_ucast_byte unat_low_bits)
  also have "\<dots> = 2 ^ 6 * unat cp + unat b mod 64"
    by (rule or_shift_nat) simp
  finally show ?thesis by simp
qed

lemma utf8_tail_Cons:
  "utf8_tail (b # bs) cp =
     (if unat b div 64 = 2 then utf8_tail bs (shift_in cp b) else None)"
  by (simp add: byte_high_bits)

lemma u32_eq_iff: "(a :: u32) = b \<longleftrightarrow> unat a = unat b"
  by (simp add: word_unat_eq_iff)

lemma utf8_tail1:
  assumes "unat cp < 2 ^ 6"
  shows "utf8_tail [b1] cp = Some cp' \<longleftrightarrow>
     unat b1 div 64 = 2 \<and> unat cp' = 64 * unat cp + unat b1 mod 64"
  using assms by (auto simp del: utf8_tail.simps(2) simp: utf8_tail_Cons unat_tail_step u32_eq_iff)

lemma utf8_tail2:
  assumes "unat cp < 2 ^ 6"
  shows "utf8_tail [b1, b2] cp = Some cp' \<longleftrightarrow>
     unat b1 div 64 = 2 \<and> unat b2 div 64 = 2 \<and>
     unat cp' = 64 * (64 * unat cp + unat b1 mod 64) + unat b2 mod 64"
proof -
  have "unat (shift_in cp b1) = 64 * unat cp + unat b1 mod 64"
    using assms by (intro unat_tail_step) simp
  moreover from this have "unat (shift_in cp b1) < 2 ^ 20"
    using assms by simp
  ultimately show ?thesis
    by (auto simp del: utf8_tail.simps(2) simp: utf8_tail_Cons unat_tail_step u32_eq_iff)
qed

lemma utf8_tail3:
  assumes "unat cp < 2 ^ 6"
  shows "utf8_tail [b1, b2, b3] cp = Some cp' \<longleftrightarrow>
     unat b1 div 64 = 2 \<and> unat b2 div 64 = 2 \<and> unat b3 div 64 = 2 \<and>
     unat cp' = 64 * (64 * (64 * unat cp + unat b1 mod 64) + unat b2 mod 64) + unat b3 mod 64"
proof -
  let ?c = "shift_in cp b1"
  let ?d = "shift_in ?c b2"
  have c: "unat ?c = 64 * unat cp + unat b1 mod 64"
    using assms by (intro unat_tail_step) simp
  then have c_lt: "unat ?c < 2 ^ 13" using assms by simp
  then have d: "unat ?d = 64 * unat ?c + unat b2 mod 64"
    by (intro unat_tail_step) simp
  then have "unat ?d < 2 ^ 20" using c_lt by simp
  then have "unat (shift_in ?d b3) = 64 * unat ?d + unat b3 mod 64"
    by (rule unat_tail_step)
  with c d show ?thesis
    by (auto simp del: utf8_tail.simps(2) simp: utf8_tail_Cons u32_eq_iff)
qed

section \<open>The encoder computes the encoding\<close>

lemma unat_lead_or:
  fixes x :: u32
  shows "unat x < 64 \<Longrightarrow> unat (0x80 OR x) = 128 + unat x"
    and "unat x < 64 \<Longrightarrow> unat (0xC0 OR x) = 192 + unat x"
    and "unat x < 32 \<Longrightarrow> unat (0xE0 OR x) = 224 + unat x"
    and "unat x < 16 \<Longrightarrow> unat (0xF0 OR x) = 240 + unat x"
  using or_shift_nat [of "unat x" 6 2] or_shift_nat [of "unat x" 6 3]
    or_shift_nat [of "unat x" 5 7] or_shift_nat [of "unat x" 4 15]
  by (simp_all only: unsigned_or_eq unsigned_numeral) simp_all

lemma unat_byte_of: "unat (w :: u32) < 256 \<Longrightarrow> unat (ucast w :: byte) = unat w"
  by (rule unat_ucast_small) simp

lemma unat_low6: "unat (x AND 0x3F :: u32) < 64"
  by (simp add: unat_low_bits)

lemma unat_cont_byte: "unat (ucast (0x80 OR (x AND 0x3F) :: u32) :: byte) = 128 + unat x mod 64"
proof -
  have "unat (0x80 OR (x AND 0x3F)) = 128 + unat x mod 64"
    by (simp add: unat_lead_or(1) [OF unat_low6] unat_low_bits)
  then show ?thesis by (simp add: unat_byte_of)
qed

lemma map_unat_encode:
  assumes "unat cp < 0x200000"
  shows "map unat (encode cp) = encoding (unat cp)"
proof -
  have drops: "unat (drop_bit 6 cp) = unat cp div 64" "unat (drop_bit 12 cp) = unat cp div 4096"
    "unat (drop_bit 18 cp) = unat cp div 262144"
    by (simp_all only: unat_drop_bit) simp_all
  have lead2: "unat (ucast (0xC0 OR drop_bit 6 cp) :: byte) = 192 + unat cp div 64"
    if "unat cp < 0x800"
  proof -
    have "unat (0xC0 OR drop_bit 6 cp) = 192 + unat cp div 64"
      using that drops unat_lead_or(2) [of "drop_bit 6 cp"] by simp
    with that show ?thesis by (simp add: unat_byte_of)
  qed
  have lead3: "unat (ucast (0xE0 OR drop_bit 12 cp) :: byte) = 224 + unat cp div 4096"
    if "unat cp < 0x10000"
  proof -
    have "unat (0xE0 OR drop_bit 12 cp) = 224 + unat cp div 4096"
      using that drops unat_lead_or(3) [of "drop_bit 12 cp"] by simp
    with that show ?thesis by (simp add: unat_byte_of)
  qed
  have lead4: "unat (ucast (0xF0 OR drop_bit 18 cp) :: byte) = 240 + unat cp div 262144"
  proof -
    have "unat (0xF0 OR drop_bit 18 cp) = 240 + unat cp div 262144"
      using assms drops unat_lead_or(4) [of "drop_bit 18 cp"] by simp
    with assms show ?thesis by (simp add: unat_byte_of)
  qed
  show ?thesis
    unfolding encode_def append_utf8_def encoding_def
    by (simp add: word_less_nat_alt lead2 lead3 lead4 unat_cont_byte drops unat_byte_of
        del: drop_bit_eq_div)
qed

lemma scalar_lt: "scalar cp \<Longrightarrow> unat cp \<le> 0x10FFFF"
  by (simp add: scalar_def word_le_nat_alt)

lemma map_unat_encode_scalar: "scalar cp \<Longrightarrow> map unat (encode cp) = encoding (unat cp)"
  by (rule map_unat_encode) (use scalar_lt [of cp] in simp)

lemma length_encode: "scalar cp \<Longrightarrow> length (encode cp) = length (encoding (unat cp))"
  by (simp flip: map_unat_encode_scalar)

section \<open>The decoder on each length\<close>

lemma scalar_unat:
  "scalar cp \<longleftrightarrow> unat cp \<le> 0x10FFFF \<and> \<not> (0xD800 \<le> unat cp \<and> unat cp \<le> 0xDFFF)"
  by (simp add: scalar_def word_le_nat_alt)

lemma utf8_length1:
  "unat b < 0x80 \<Longrightarrow> utf8_length (b # s) = Some (1, ucast b)"
  by (simp add: utf8_length_def word_less_nat_alt)

lemma utf8_range_check:
  "(cp < least \<or> cp > 0x10FFFF \<or> (cp \<ge> 0xD800 \<and> cp \<le> 0xDFFF)) \<longleftrightarrow>
     \<not> (unat (least :: u32) \<le> unat cp \<and> scalar cp)"
  by (auto simp: scalar_def word_le_nat_alt word_less_nat_alt)

text \<open>Everything after the first byte, for a sequence of \<open>n'\<close> bytes.\<close>

lemma utf8_after_lead:
  "(case utf8_tail bs c of None \<Rightarrow> None
    | Some cp \<Rightarrow> if cp < least \<or> cp > 0x10FFFF \<or> (cp \<ge> 0xD800 \<and> cp \<le> 0xDFFF) then None
                else Some (n', cp)) = Some (n, cp) \<longleftrightarrow>
   utf8_tail bs c = Some cp \<and> n = n' \<and> unat least \<le> unat cp \<and> scalar cp"
  unfolding utf8_range_check by (auto split: option.splits)

lemma utf8_length2:
  assumes "unat b0 div 32 = 6"
  shows "utf8_length (b0 # b1 # s) = Some (n, cp) \<longleftrightarrow>
     n = 2 \<and> unat b1 div 64 = 2 \<and> unat cp = 64 * (unat b0 mod 32) + unat b1 mod 64 \<and>
     0x80 \<le> unat cp"
proof -
  have "\<not> b0 < 0x80" using assms by (auto simp: word_less_nat_alt)
  then have "utf8_length (b0 # b1 # s) = Some (n, cp) \<longleftrightarrow>
      utf8_tail [b1] (ucast (b0 AND 0x1F)) = Some cp \<and> n = 2 \<and> 0x80 \<le> unat cp \<and> scalar cp"
    using assms by (simp add: utf8_length_def byte_high_bits utf8_after_lead del: utf8_tail.simps)
  moreover have "utf8_tail [b1] (ucast (b0 AND 0x1F)) = Some cp \<longleftrightarrow>
      unat b1 div 64 = 2 \<and> unat cp = 64 * (unat b0 mod 32) + unat b1 mod 64"
    by (subst utf8_tail1) (simp_all add: unat_low_bits order_less_trans [OF mod_less_divisor])
  moreover have "scalar cp" if "unat cp = 64 * (unat b0 mod 32) + unat b1 mod 64"
    using that by (auto simp: scalar_unat)
  ultimately show ?thesis by blast
qed

lemma utf8_length3:
  assumes "unat b0 div 16 = 14"
  shows "utf8_length (b0 # b1 # b2 # s) = Some (n, cp) \<longleftrightarrow>
     n = 3 \<and> unat b1 div 64 = 2 \<and> unat b2 div 64 = 2 \<and>
     unat cp = 64 * (64 * (unat b0 mod 16) + unat b1 mod 64) + unat b2 mod 64 \<and>
     0x800 \<le> unat cp \<and> scalar cp"
proof -
  have "\<not> b0 < 0x80" "unat b0 div 32 \<noteq> 6" using assms by (auto simp: word_less_nat_alt)
  then have "utf8_length (b0 # b1 # b2 # s) = Some (n, cp) \<longleftrightarrow>
      utf8_tail [b1, b2] (ucast (b0 AND 0x0F)) = Some cp \<and> n = 3 \<and> 0x800 \<le> unat cp \<and> scalar cp"
    using assms by (simp add: utf8_length_def byte_high_bits utf8_after_lead del: utf8_tail.simps)
  moreover have "utf8_tail [b1, b2] (ucast (b0 AND 0x0F)) = Some cp \<longleftrightarrow>
      unat b1 div 64 = 2 \<and> unat b2 div 64 = 2 \<and>
      unat cp = 64 * (64 * (unat b0 mod 16) + unat b1 mod 64) + unat b2 mod 64"
    by (subst utf8_tail2) (simp_all add: unat_low_bits order_less_trans [OF mod_less_divisor])
  ultimately show ?thesis by blast
qed

lemma utf8_length4:
  assumes "unat b0 div 8 = 30"
  shows "utf8_length (b0 # b1 # b2 # b3 # s) = Some (n, cp) \<longleftrightarrow>
     n = 4 \<and> unat b1 div 64 = 2 \<and> unat b2 div 64 = 2 \<and> unat b3 div 64 = 2 \<and>
     unat cp = 64 * (64 * (64 * (unat b0 mod 8) + unat b1 mod 64) + unat b2 mod 64)
       + unat b3 mod 64 \<and>
     0x10000 \<le> unat cp \<and> scalar cp"
proof -
  have "\<not> b0 < 0x80" "unat b0 div 32 \<noteq> 6" "unat b0 div 16 \<noteq> 14"
    using assms by (auto simp: word_less_nat_alt)
  then have "utf8_length (b0 # b1 # b2 # b3 # s) = Some (n, cp) \<longleftrightarrow>
      utf8_tail [b1, b2, b3] (ucast (b0 AND 0x07)) = Some cp \<and> n = 4 \<and>
      0x10000 \<le> unat cp \<and> scalar cp"
    using assms by (simp add: utf8_length_def byte_high_bits utf8_after_lead del: utf8_tail.simps)
  moreover have "utf8_tail [b1, b2, b3] (ucast (b0 AND 0x07)) = Some cp \<longleftrightarrow>
      unat b1 div 64 = 2 \<and> unat b2 div 64 = 2 \<and> unat b3 div 64 = 2 \<and>
      unat cp = 64 * (64 * (64 * (unat b0 mod 8) + unat b1 mod 64) + unat b2 mod 64)
        + unat b3 mod 64"
    by (subst utf8_tail3) (simp_all add: unat_low_bits order_less_trans [OF mod_less_divisor])
  ultimately show ?thesis by blast
qed

text \<open>Every successful decoding has one of the four shapes.\<close>

lemma utf8_length_shape:
  assumes "utf8_length (b # s) = Some (n, cp)"
  shows "unat b < 0x80 \<or> (unat b div 32 = 6 \<and> s \<noteq> []) \<or>
    (unat b div 16 = 14 \<and> 2 \<le> length s) \<or> (unat b div 8 = 30 \<and> 3 \<le> length s)"
proof (cases "b < 0x80")
  case True
  then show ?thesis by (simp add: word_less_nat_alt)
next
  case False
  with assms show ?thesis
    by (auto simp: utf8_length_def byte_high_bits simp del: utf8_tail.simps
        split: if_splits option.splits)
qed

lemma length_ge_cases:
  "s \<noteq> [] \<Longrightarrow> \<exists>x r. s = x # r"
  "2 \<le> length s \<Longrightarrow> \<exists>x y r. s = x # y # r"
  "3 \<le> length s \<Longrightarrow> \<exists>x y z r. s = x # y # z # r"
  by (auto simp: Suc_le_length_iff eval_nat_numeral neq_Nil_conv)

section \<open>The two functions are inverse to each other\<close>

lemma map_unat_inject: "map unat (xs :: byte list) = map unat ys \<longleftrightarrow> xs = ys"
  by (rule inj_map_eq_map) (auto intro: injI simp: word_unat_eq_iff)

lemma encode_length_pos: "scalar cp \<Longrightarrow> encode cp \<noteq> []"
  by (auto dest!: length_encode simp: encoding_def split: if_splits)

lemma two_digits: "x < k \<Longrightarrow> (k * a + x) div k = a \<and> (k * a + x) mod k = (x :: nat)"
  by simp

lemma cont_byte_digits [simp]:
  "(128 + x mod 64) div 64 = (2 :: nat)" "(128 + x mod 64) mod 64 = x mod (64 :: nat)"
  using two_digits [of "x mod 64" 64 2] by simp_all

lemma lead_byte_digits:
  "n < 0x800 \<Longrightarrow> (192 + n div 64) div 32 = (6 :: nat) \<and> (192 + n div 64) mod 32 = n div 64"
  "n < 0x10000 \<Longrightarrow> (224 + n div 4096) div 16 = (14 :: nat) \<and> (224 + n div 4096) mod 16 = n div 4096"
  "n \<le> 0x10FFFF \<Longrightarrow> (240 + n div 262144) div 8 = (30 :: nat) \<and> (240 + n div 262144) mod 8 = n div 262144"
  using two_digits [of "n div 64" 32 6] two_digits [of "n div 4096" 16 14]
    two_digits [of "n div 262144" 8 30]
  by (simp_all add: div_less_iff_less_mult)

lemma digits64:
  fixes n :: nat
  shows "64 * (n div 64) + n mod 64 = n"
    and "64 * (64 * (n div 4096) + n div 64 mod 64) + n mod 64 = n"
    and "64 * (64 * (64 * (n div 262144) + n div 4096 mod 64) + n div 64 mod 64) + n mod 64 = n"
proof -
  have d: "n div 4096 = n div 64 div 64" "n div 262144 = n div 64 div 64 div 64"
    by (simp_all flip: div_mult2_eq)
  show "64 * (n div 64) + n mod 64 = n" by simp
  show "64 * (64 * (n div 4096) + n div 64 mod 64) + n mod 64 = n"
    unfolding d by simp
  show "64 * (64 * (64 * (n div 262144) + n div 4096 mod 64) + n div 64 mod 64) + n mod 64 = n"
    unfolding d by simp
qed

lemma three_digits_bound:
  assumes "x < 16" "y < 64" "z < (64 :: nat)"
  shows "64 * (64 * x + y) + z < 0x10000"
proof -
  have "64 * x + y < 1024" using assms by simp
  with assms show ?thesis by simp
qed

lemma last_digit:
  "z < 64 \<Longrightarrow> (64 * x + z) div 64 = (x :: nat)" "z < 64 \<Longrightarrow> (64 * x + z) mod 64 = (z :: nat)"
  using two_digits by blast+

lemma place_digits:
  fixes y z w :: nat
  assumes "y < 64" "z < 64"
  shows "(64 * (64 * x + y) + z) div 4096 = x" "(64 * (64 * x + y) + z) div 64 mod 64 = y"
    and "w < 64 \<Longrightarrow> (64 * (64 * (64 * x + w) + y) + z) div 262144 = x"
    and "w < 64 \<Longrightarrow> (64 * (64 * (64 * x + w) + y) + z) div 4096 mod 64 = w"
proof -
  have d: "n div 4096 = n div 64 div 64" "n div 262144 = n div 64 div 64 div 64" for n :: nat
    by (simp_all flip: div_mult2_eq)
  note peel = two_digits [OF assms(1), THEN conjunct1] two_digits [OF assms(1), THEN conjunct2]
    two_digits [OF assms(2), THEN conjunct1] two_digits [OF assms(2), THEN conjunct2]
  show "(64 * (64 * x + y) + z) div 4096 = x" "(64 * (64 * x + y) + z) div 64 mod 64 = y"
    by (simp_all only: d peel)
  assume w: "w < 64"
  note peel_w = two_digits [OF w, THEN conjunct1] two_digits [OF w, THEN conjunct2]
  show "(64 * (64 * (64 * x + w) + y) + z) div 262144 = x"
    "(64 * (64 * (64 * x + w) + y) + z) div 4096 mod 64 = w"
    by (simp_all only: d peel peel_w)
qed

lemma digit_back:
  "b div 64 = 2 \<Longrightarrow> b = 128 + b mod 64" "b div 32 = 6 \<Longrightarrow> b = 192 + b mod 32"
  "b div 16 = 14 \<Longrightarrow> b = 224 + b mod 16" "b div 8 = 30 \<Longrightarrow> b = 240 + b mod (8 :: nat)"
  using mult_div_mod_eq [of 64 b] mult_div_mod_eq [of 32 b] mult_div_mod_eq [of 16 b]
    mult_div_mod_eq [of 8 b] by simp_all

lemma utf8_length_encode:
  assumes "scalar cp"
  shows "utf8_length (encode cp @ rest) = Some (length (encode cp), cp)"
proof -
  let ?n = "unat cp"
  have enc: "map unat (encode cp) = encoding ?n" by (rule map_unat_encode_scalar [OF assms])
  have len: "length (encode cp) = length (encoding ?n)" by (rule length_encode [OF assms])
  have le: "?n \<le> 0x10FFFF" by (rule scalar_lt [OF assms])
  consider "?n < 0x80" | "0x80 \<le> ?n" "?n < 0x800" | "0x800 \<le> ?n" "?n < 0x10000" | "0x10000 \<le> ?n"
    by linarith
  then show ?thesis
  proof cases
    case 1
    then obtain b where "encode cp = [b]" "unat b = ?n"
      using enc by (auto simp: encoding_def)
    moreover from this 1 have "ucast b = cp" by (simp add: u32_eq_iff)
    ultimately show ?thesis using 1 by (simp add: utf8_length1)
  next
    case 2
    then obtain b0 b1 where "encode cp = [b0, b1]" "unat b0 = 192 + ?n div 64" "unat b1 = 128 + ?n mod 64"
      using enc by (auto simp: encoding_def)
    with 2 show ?thesis using lead_byte_digits(1) [of ?n] by (simp add: utf8_length2 digits64)
  next
    case 3
    then obtain b0 b1 b2 where "encode cp = [b0, b1, b2]" "unat b0 = 224 + ?n div 4096"
      "unat b1 = 128 + ?n div 64 mod 64" "unat b2 = 128 + ?n mod 64"
      using enc by (auto simp: encoding_def)
    with 3 assms show ?thesis
      using lead_byte_digits(2) [of ?n] by (simp add: utf8_length3 digits64(2) [simplified])
  next
    case 4
    then obtain b0 b1 b2 b3 where "encode cp = [b0, b1, b2, b3]" "unat b0 = 240 + ?n div 262144"
      "unat b1 = 128 + ?n div 4096 mod 64" "unat b2 = 128 + ?n div 64 mod 64" "unat b3 = 128 + ?n mod 64"
      using enc by (auto simp: encoding_def)
    with 4 assms le show ?thesis
      using lead_byte_digits(3) [of ?n] by (simp add: utf8_length4 digits64(3) [simplified])
  qed
qed

text \<open>What the decoder accepts is the encoding of the code point it stores.\<close>

lemma utf8_length_sound:
  assumes "utf8_length s = Some (n, cp)"
  shows "scalar cp \<and> s = encode cp @ drop n s \<and> n = length (encode cp)"
proof -
  obtain b t where s: "s = b # t" using assms by (cases s) (auto simp: utf8_length_def)
  have main: ?thesis if "scalar cp" "map unat (take n s) = encoding (unat cp)" "n \<le> length s"
  proof -
    have "take n s = encode cp"
      using that map_unat_encode_scalar [OF that(1)] by (simp flip: map_unat_inject)
    with that show ?thesis by (metis append_take_drop_id length_take min.absorb2)
  qed
  consider "unat b < 0x80" | "unat b div 32 = 6" "t \<noteq> []" | "unat b div 16 = 14" "2 \<le> length t"
    | "unat b div 8 = 30" "3 \<le> length t"
    using utf8_length_shape [OF assms [unfolded s]] by blast
  then show ?thesis
  proof cases
    case 1
    then have "n = 1" "cp = ucast b" using assms s by (simp_all add: utf8_length1)
    with 1 s show ?thesis by (intro main) (simp_all add: scalar_unat encoding_def)
  next
    case 2
    then obtain b1 r where t: "t = b1 # r" using length_ge_cases(1) by blast
    from assms 2(1) have dec: "n = 2" "unat b1 div 64 = 2" "0x80 \<le> unat cp"
      and v: "unat cp = 64 * (unat b mod 32) + unat b1 mod 64"
      unfolding s t by (auto simp only: utf8_length2)
    have "unat cp < 0x800"
      unfolding v using mod_less_divisor [of 32 "unat b"] mod_less_divisor [of 64 "unat b1"] by linarith
    with dec have "encoding (unat cp) = [192 + unat cp div 64, 128 + unat cp mod 64]" "scalar cp"
      by (simp_all add: encoding_def scalar_unat)
    moreover have "unat cp div 64 = unat b mod 32" "unat cp mod 64 = unat b1 mod 64"
      unfolding v by (simp_all only: last_digit place_digits mod_less_divisor zero_less_numeral)
    ultimately show ?thesis unfolding s t
      using digit_back(1) [OF dec(2)] digit_back(2) [OF 2(1)] dec(1) by (intro main [unfolded s t]) simp_all
  next
    case 3
    then obtain b1 b2 r where t: "t = b1 # b2 # r" using length_ge_cases(2) by blast
    from assms 3(1) have dec: "n = 3" "unat b1 div 64 = 2" "unat b2 div 64 = 2" "0x800 \<le> unat cp" "scalar cp"
      and v: "unat cp = 64 * (64 * (unat b mod 16) + unat b1 mod 64) + unat b2 mod 64"
      unfolding s t by (auto simp only: utf8_length3)
    have "unat cp < 0x10000"
      unfolding v by (rule three_digits_bound) simp_all
    with dec have "encoding (unat cp) = [224 + unat cp div 4096, 128 + unat cp div 64 mod 64, 128 + unat cp mod 64]"
      by (simp add: encoding_def)
    moreover have "unat cp div 4096 = unat b mod 16" "unat cp div 64 mod 64 = unat b1 mod 64"
      "unat cp mod 64 = unat b2 mod 64"
      unfolding v by (simp_all only: last_digit place_digits mod_less_divisor zero_less_numeral)
    ultimately show ?thesis unfolding s t
      using digit_back(1) [OF dec(2)] digit_back(1) [OF dec(3)] digit_back(3) [OF 3(1)] dec(1,5)
      by (intro main [unfolded s t]) simp_all
  next
    case 4
    then obtain b1 b2 b3 r where t: "t = b1 # b2 # b3 # r" using length_ge_cases(3) by blast
    from assms 4(1) have dec: "n = 4" "unat b1 div 64 = 2" "unat b2 div 64 = 2" "unat b3 div 64 = 2"
      "0x10000 \<le> unat cp" "scalar cp"
      and v: "unat cp = 64 * (64 * (64 * (unat b mod 8) + unat b1 mod 64) + unat b2 mod 64) + unat b3 mod 64"
      unfolding s t by (auto simp only: utf8_length4)
    from dec have "encoding (unat cp) = [240 + unat cp div 262144, 128 + unat cp div 4096 mod 64,
        128 + unat cp div 64 mod 64, 128 + unat cp mod 64]"
      by (simp add: encoding_def)
    moreover have "unat cp div 262144 = unat b mod 8" "unat cp div 4096 mod 64 = unat b1 mod 64"
      "unat cp div 64 mod 64 = unat b2 mod 64" "unat cp mod 64 = unat b3 mod 64"
      unfolding v by (simp_all only: last_digit place_digits mod_less_divisor zero_less_numeral)
    ultimately show ?thesis unfolding s t
      using digit_back(1) [OF dec(2)] digit_back(1) [OF dec(3)] digit_back(1) [OF dec(4)]
        digit_back(4) [OF 4(1)] dec(1,6) by (intro main [unfolded s t]) simp_all
  qed
qed

section \<open>The codec\<close>

text \<open>
  C22. What \<open>append_utf8\<close> writes for a Unicode scalar value, \<open>utf8_length\<close> reads back, with its
  length, whatever bytes follow.
\<close>

theorem utf8_read_written:
  assumes "scalar cp"
  shows "utf8_length (data (append_utf8 t cp) @ rest) =
           (if data t = [] then Some (length (encode cp), cp) else utf8_length (data t @ encode cp @ rest))"
  using utf8_length_encode [OF assms, of rest] by (simp add: data_append_utf8)

theorem utf8_read_written_witness:
  "utf8_length (data (append_utf8 text_empty 0x20AC) @ [0x41]) = Some (3, 0x20AC)"
proof -
  have "scalar 0x20AC" "length (encode 0x20AC) = 3" by code_simp+
  then show ?thesis using utf8_read_written [of "0x20AC" text_empty "[0x41]"] by simp
qed

text \<open>
  C23. \<open>utf8_length\<close> accepts only what RFC 3629 allows: when it gives a length and a code point,
  the code point is a scalar value and the bytes are its encoding, so overlong forms,
  surrogates and values above 10FFFF are refused.
\<close>

theorem utf8_read_sound:
  assumes "utf8_length s = Some (n, cp)"
  shows "scalar cp \<and> take n s = encode cp \<and> n = length (encode cp) \<and> 0 < n \<and> n \<le> 4"
proof -
  have s: "scalar cp" "s = encode cp @ drop n s" "n = length (encode cp)"
    using utf8_length_sound [OF assms] by auto
  have "length (encoding (unat cp)) \<le> 4" by (simp add: encoding_def)
  then have "n \<le> 4" using s by (simp add: length_encode)
  moreover have "take n s = encode cp" using s by (metis append_eq_conv_conj)
  ultimately show ?thesis using s encode_length_pos [of cp] by simp
qed

theorem utf8_read_sound_witness: "scalar 0xE9 \<and> take 2 [0xC3, 0xA9, 0x27] = encode 0xE9"
proof -
  have "utf8_length [0xC3, 0xA9, 0x27] = Some (2, 0xE9)" by code_simp
  then show ?thesis using utf8_read_sound [of "[0xC3, 0xA9, 0x27]" 2 "0xE9"] by simp
qed

end
