(* ===== verification/Tokens.thy ===== *)
theory Tokens
  imports Utf8
begin

text \<open>
  The tokens of \<open>src/lexer.h\<close> and the tables of \<open>src/lexer.c\<close>: the token kinds, the spelling of
  every keyword and symbol, keyword lookup (\<open>word_kind\<close>) and the names of the kinds in messages
  and dumps. Symbol matching reads the same table in theory \<open>Lexer\<close>.

  A C enum is an integer, and the tables are indexed by it, so a kind is its number in the
  order of the header. The names of the header are abbreviations for the numbers.
\<close>

section \<open>Kinds\<close>

datatype token_kind = Kind nat

abbreviation "TOKEN_EOF \<equiv> Kind 0"
abbreviation "TOKEN_ERROR \<equiv> Kind 1"
abbreviation "TOKEN_IDENT \<equiv> Kind 2"
abbreviation "TOKEN_INT \<equiv> Kind 3"
abbreviation "TOKEN_FLOAT \<equiv> Kind 4"
abbreviation "TOKEN_CHAR \<equiv> Kind 5"
abbreviation "TOKEN_STRING \<equiv> Kind 6"
abbreviation "TOKEN_BYTES \<equiv> Kind 7"
abbreviation "TOKEN_DOC \<equiv> Kind 8"
abbreviation "TOKEN_MODULE_DOC \<equiv> Kind 9"
abbreviation "TOKEN_NOTE \<equiv> Kind 10"
abbreviation "TOKEN_MODULE_NOTE \<equiv> Kind 11"
abbreviation "TOKEN_AS \<equiv> Kind 12"
abbreviation "TOKEN_BREAK \<equiv> Kind 13"
abbreviation "TOKEN_CONST \<equiv> Kind 14"
abbreviation "TOKEN_CONTINUE \<equiv> Kind 15"
abbreviation "TOKEN_DO \<equiv> Kind 16"
abbreviation "TOKEN_ELSE \<equiv> Kind 17"
abbreviation "TOKEN_EXPORT \<equiv> Kind 18"
abbreviation "TOKEN_EXTERN \<equiv> Kind 19"
abbreviation "TOKEN_FN \<equiv> Kind 20"
abbreviation "TOKEN_IF \<equiv> Kind 21"
abbreviation "TOKEN_IMPORT \<equiv> Kind 22"
abbreviation "TOKEN_LET \<equiv> Kind 23"
abbreviation "TOKEN_PUB \<equiv> Kind 24"
abbreviation "TOKEN_RETURN \<equiv> Kind 25"
abbreviation "TOKEN_STRUCT \<equiv> Kind 26"
abbreviation "TOKEN_WHILE \<equiv> Kind 27"
abbreviation "TOKEN_UNION \<equiv> Kind 28"
abbreviation "TOKEN_TRUE \<equiv> Kind 29"
abbreviation "TOKEN_FALSE \<equiv> Kind 30"
abbreviation "TOKEN_NULL \<equiv> Kind 31"
abbreviation "TOKEN_ALLOC \<equiv> Kind 32"
abbreviation "TOKEN_FREE \<equiv> Kind 33"
abbreviation "TOKEN_SIZE_OF \<equiv> Kind 34"
abbreviation "TOKEN_BOOL_TYPE \<equiv> Kind 35"
abbreviation "TOKEN_BYTE_TYPE \<equiv> Kind 36"
abbreviation "TOKEN_CHAR_TYPE \<equiv> Kind 37"
abbreviation "TOKEN_F32 \<equiv> Kind 38"
abbreviation "TOKEN_F64 \<equiv> Kind 39"
abbreviation "TOKEN_FLOAT_TYPE \<equiv> Kind 40"
abbreviation "TOKEN_I8 \<equiv> Kind 41"
abbreviation "TOKEN_I16 \<equiv> Kind 42"
abbreviation "TOKEN_I32 \<equiv> Kind 43"
abbreviation "TOKEN_I64 \<equiv> Kind 44"
abbreviation "TOKEN_INT_TYPE \<equiv> Kind 45"
abbreviation "TOKEN_STR_TYPE \<equiv> Kind 46"
abbreviation "TOKEN_U8 \<equiv> Kind 47"
abbreviation "TOKEN_U16 \<equiv> Kind 48"
abbreviation "TOKEN_U32 \<equiv> Kind 49"
abbreviation "TOKEN_U64 \<equiv> Kind 50"
abbreviation "TOKEN_UINT_TYPE \<equiv> Kind 51"
abbreviation "TOKEN_C_CHAR \<equiv> Kind 52"
abbreviation "TOKEN_C_DOUBLE \<equiv> Kind 53"
abbreviation "TOKEN_C_FLOAT \<equiv> Kind 54"
abbreviation "TOKEN_C_INT \<equiv> Kind 55"
abbreviation "TOKEN_C_LONGLONG \<equiv> Kind 56"
abbreviation "TOKEN_C_SHORT \<equiv> Kind 57"
abbreviation "TOKEN_C_SIZE_T \<equiv> Kind 58"
abbreviation "TOKEN_C_UCHAR \<equiv> Kind 59"
abbreviation "TOKEN_C_UINT \<equiv> Kind 60"
abbreviation "TOKEN_C_ULONGLONG \<equiv> Kind 61"
abbreviation "TOKEN_C_USHORT \<equiv> Kind 62"
abbreviation "TOKEN_C_LONG \<equiv> Kind 63"
abbreviation "TOKEN_C_ULONG \<equiv> Kind 64"
abbreviation "TOKEN_C_WCHAR \<equiv> Kind 65"
abbreviation "TOKEN_WORKER \<equiv> Kind 66"
abbreviation "TOKEN_PARALLEL \<equiv> Kind 67"
abbreviation "TOKEN_SELF \<equiv> Kind 68"
abbreviation "TOKEN_ABSTRACT \<equiv> Kind 69"
abbreviation "TOKEN_CONCRETE \<equiv> Kind 70"
abbreviation "TOKEN_ENUM \<equiv> Kind 71"
abbreviation "TOKEN_USE \<equiv> Kind 72"
abbreviation "TOKEN_INHERITS \<equiv> Kind 73"
abbreviation "TOKEN_CLASS \<equiv> Kind 74"
abbreviation "TOKEN_SUPER \<equiv> Kind 75"
abbreviation "TOKEN_IS \<equiv> Kind 76"
abbreviation "TOKEN_DUP \<equiv> Kind 77"
abbreviation "TOKEN_DELETE \<equiv> Kind 78"
abbreviation "TOKEN_DESTROY \<equiv> Kind 79"
abbreviation "TOKEN_STATIC \<equiv> Kind 80"
abbreviation "TOKEN_ASSERT \<equiv> Kind 81"
abbreviation "TOKEN_SWITCH \<equiv> Kind 82"
abbreviation "TOKEN_FOR \<equiv> Kind 83"
abbreviation "TOKEN_DEFER \<equiv> Kind 84"
abbreviation "TOKEN_IMPLEMENTS \<equiv> Kind 85"
abbreviation "TOKEN_SINGLETON \<equiv> Kind 86"
abbreviation "TOKEN_INTERNAL \<equiv> Kind 87"
abbreviation "TOKEN_PROTECTED \<equiv> Kind 88"
abbreviation "TOKEN_CATCH \<equiv> Kind 89"
abbreviation "TOKEN_TRY \<equiv> Kind 90"
abbreviation "TOKEN_YIELD \<equiv> Kind 91"
abbreviation "TOKEN_RESERVED \<equiv> Kind 92"
abbreviation "TOKEN_LPAREN \<equiv> Kind 93"
abbreviation "TOKEN_RPAREN \<equiv> Kind 94"
abbreviation "TOKEN_LBRACE \<equiv> Kind 95"
abbreviation "TOKEN_RBRACE \<equiv> Kind 96"
abbreviation "TOKEN_LBRACKET \<equiv> Kind 97"
abbreviation "TOKEN_RBRACKET \<equiv> Kind 98"
abbreviation "TOKEN_COMMA \<equiv> Kind 99"
abbreviation "TOKEN_SEMICOLON \<equiv> Kind 100"
abbreviation "TOKEN_COLON \<equiv> Kind 101"
abbreviation "TOKEN_COLON_COLON \<equiv> Kind 102"
abbreviation "TOKEN_DOT \<equiv> Kind 103"
abbreviation "TOKEN_DOT_DOT \<equiv> Kind 104"
abbreviation "TOKEN_ELLIPSIS \<equiv> Kind 105"
abbreviation "TOKEN_ARROW \<equiv> Kind 106"
abbreviation "TOKEN_FAT_ARROW \<equiv> Kind 107"
abbreviation "TOKEN_PLUS \<equiv> Kind 108"
abbreviation "TOKEN_MINUS \<equiv> Kind 109"
abbreviation "TOKEN_STAR \<equiv> Kind 110"
abbreviation "TOKEN_SLASH \<equiv> Kind 111"
abbreviation "TOKEN_PERCENT \<equiv> Kind 112"
abbreviation "TOKEN_AMP \<equiv> Kind 113"
abbreviation "TOKEN_PIPE \<equiv> Kind 114"
abbreviation "TOKEN_CARET \<equiv> Kind 115"
abbreviation "TOKEN_TILDE \<equiv> Kind 116"
abbreviation "TOKEN_BANG \<equiv> Kind 117"
abbreviation "TOKEN_SHL \<equiv> Kind 118"
abbreviation "TOKEN_SHR \<equiv> Kind 119"
abbreviation "TOKEN_AND_AND \<equiv> Kind 120"
abbreviation "TOKEN_OR_OR \<equiv> Kind 121"
abbreviation "TOKEN_EQ \<equiv> Kind 122"
abbreviation "TOKEN_NE \<equiv> Kind 123"
abbreviation "TOKEN_LT \<equiv> Kind 124"
abbreviation "TOKEN_LE \<equiv> Kind 125"
abbreviation "TOKEN_GT \<equiv> Kind 126"
abbreviation "TOKEN_GE \<equiv> Kind 127"
abbreviation "TOKEN_ASSIGN \<equiv> Kind 128"
abbreviation "TOKEN_PLUS_ASSIGN \<equiv> Kind 129"
abbreviation "TOKEN_MINUS_ASSIGN \<equiv> Kind 130"
abbreviation "TOKEN_STAR_ASSIGN \<equiv> Kind 131"
abbreviation "TOKEN_SLASH_ASSIGN \<equiv> Kind 132"
abbreviation "TOKEN_PERCENT_ASSIGN \<equiv> Kind 133"
abbreviation "TOKEN_AMP_ASSIGN \<equiv> Kind 134"
abbreviation "TOKEN_PIPE_ASSIGN \<equiv> Kind 135"
abbreviation "TOKEN_CARET_ASSIGN \<equiv> Kind 136"
abbreviation "TOKEN_SHL_ASSIGN \<equiv> Kind 137"
abbreviation "TOKEN_SHR_ASSIGN \<equiv> Kind 138"
abbreviation "TOKEN_QUESTION \<equiv> Kind 139"
abbreviation "TOKEN_ATOMIC \<equiv> Kind 140"
abbreviation "TOKEN_DISPATCH \<equiv> Kind 141"
abbreviation "TOKEN_JOIN \<equiv> Kind 142"
abbreviation "TOKEN_JOIN_ALL \<equiv> Kind 143"

definition TOKEN_KIND_COUNT :: nat where
  "TOKEN_KIND_COUNT = 144"

datatype category = CAT_OTHER | CAT_KEYWORD | CAT_SYMBOL

text \<open>
  The table of spellings, in the order of the kinds. A kind that the C table does not mention
  has the category \<open>CAT_OTHER\<close>, which every loop over the table skips.
\<close>

definition kinds :: "(token_kind \<times> string \<times> category) list" where
  "kinds =
    [(TOKEN_AS, ''as'', CAT_KEYWORD), (TOKEN_BREAK, ''break'', CAT_KEYWORD)
     , (TOKEN_CONST, ''const'', CAT_KEYWORD), (TOKEN_CONTINUE, ''continue'', CAT_KEYWORD)
     , (TOKEN_DO, ''do'', CAT_KEYWORD), (TOKEN_ELSE, ''else'', CAT_KEYWORD)
     , (TOKEN_EXPORT, ''export'', CAT_KEYWORD), (TOKEN_EXTERN, ''extern'', CAT_KEYWORD)
     , (TOKEN_FN, ''fn'', CAT_KEYWORD), (TOKEN_IF, ''if'', CAT_KEYWORD)
     , (TOKEN_IMPORT, ''import'', CAT_KEYWORD), (TOKEN_LET, ''let'', CAT_KEYWORD)
     , (TOKEN_PUB, ''pub'', CAT_KEYWORD), (TOKEN_RETURN, ''return'', CAT_KEYWORD)
     , (TOKEN_STRUCT, ''struct'', CAT_KEYWORD), (TOKEN_WHILE, ''while'', CAT_KEYWORD)
     , (TOKEN_UNION, ''union'', CAT_KEYWORD), (TOKEN_TRUE, ''true'', CAT_KEYWORD)
     , (TOKEN_FALSE, ''false'', CAT_KEYWORD), (TOKEN_NULL, ''null'', CAT_KEYWORD)
     , (TOKEN_ALLOC, ''alloc'', CAT_KEYWORD), (TOKEN_FREE, ''free'', CAT_KEYWORD)
     , (TOKEN_SIZE_OF, ''size_of'', CAT_KEYWORD), (TOKEN_BOOL_TYPE, ''bool'', CAT_KEYWORD)
     , (TOKEN_BYTE_TYPE, ''byte'', CAT_KEYWORD), (TOKEN_CHAR_TYPE, ''char'', CAT_KEYWORD)
     , (TOKEN_F32, ''f32'', CAT_KEYWORD), (TOKEN_F64, ''f64'', CAT_KEYWORD)
     , (TOKEN_FLOAT_TYPE, ''float'', CAT_KEYWORD), (TOKEN_I8, ''i8'', CAT_KEYWORD)
     , (TOKEN_I16, ''i16'', CAT_KEYWORD), (TOKEN_I32, ''i32'', CAT_KEYWORD)
     , (TOKEN_I64, ''i64'', CAT_KEYWORD), (TOKEN_INT_TYPE, ''int'', CAT_KEYWORD)
     , (TOKEN_STR_TYPE, ''str'', CAT_KEYWORD), (TOKEN_U8, ''u8'', CAT_KEYWORD)
     , (TOKEN_U16, ''u16'', CAT_KEYWORD), (TOKEN_U32, ''u32'', CAT_KEYWORD)
     , (TOKEN_U64, ''u64'', CAT_KEYWORD), (TOKEN_UINT_TYPE, ''uint'', CAT_KEYWORD)
     , (TOKEN_C_CHAR, ''c_char'', CAT_KEYWORD), (TOKEN_C_DOUBLE, ''c_double'', CAT_KEYWORD)
     , (TOKEN_C_FLOAT, ''c_float'', CAT_KEYWORD), (TOKEN_C_INT, ''c_int'', CAT_KEYWORD)
     , (TOKEN_C_LONGLONG, ''c_longlong'', CAT_KEYWORD)
     , (TOKEN_C_SHORT, ''c_short'', CAT_KEYWORD), (TOKEN_C_SIZE_T, ''c_size_t'', CAT_KEYWORD)
     , (TOKEN_C_UCHAR, ''c_uchar'', CAT_KEYWORD), (TOKEN_C_UINT, ''c_uint'', CAT_KEYWORD)
     , (TOKEN_C_ULONGLONG, ''c_ulonglong'', CAT_KEYWORD)
     , (TOKEN_C_USHORT, ''c_ushort'', CAT_KEYWORD), (TOKEN_C_LONG, ''c_long'', CAT_KEYWORD)
     , (TOKEN_C_ULONG, ''c_ulong'', CAT_KEYWORD), (TOKEN_C_WCHAR, ''c_wchar'', CAT_KEYWORD)
     , (TOKEN_WORKER, ''worker'', CAT_KEYWORD), (TOKEN_PARALLEL, ''parallel'', CAT_KEYWORD)
     , (TOKEN_SELF, ''self'', CAT_KEYWORD), (TOKEN_ABSTRACT, ''abstract'', CAT_KEYWORD)
     , (TOKEN_CONCRETE, ''concrete'', CAT_KEYWORD), (TOKEN_ENUM, ''enum'', CAT_KEYWORD)
     , (TOKEN_USE, ''use'', CAT_KEYWORD), (TOKEN_INHERITS, ''inherits'', CAT_KEYWORD)
     , (TOKEN_CLASS, ''class'', CAT_KEYWORD), (TOKEN_SUPER, ''super'', CAT_KEYWORD)
     , (TOKEN_IS, ''is'', CAT_KEYWORD), (TOKEN_DUP, ''dup'', CAT_KEYWORD)
     , (TOKEN_DELETE, ''delete'', CAT_KEYWORD), (TOKEN_DESTROY, ''destroy'', CAT_KEYWORD)
     , (TOKEN_STATIC, ''static'', CAT_KEYWORD), (TOKEN_ASSERT, ''assert'', CAT_KEYWORD)
     , (TOKEN_SWITCH, ''switch'', CAT_KEYWORD), (TOKEN_FOR, ''for'', CAT_KEYWORD)
     , (TOKEN_DEFER, ''defer'', CAT_KEYWORD), (TOKEN_IMPLEMENTS, ''implements'', CAT_KEYWORD)
     , (TOKEN_SINGLETON, ''singleton'', CAT_KEYWORD)
     , (TOKEN_INTERNAL, ''internal'', CAT_KEYWORD)
     , (TOKEN_PROTECTED, ''protected'', CAT_KEYWORD), (TOKEN_CATCH, ''catch'', CAT_KEYWORD)
     , (TOKEN_TRY, ''try'', CAT_KEYWORD), (TOKEN_YIELD, ''yield'', CAT_KEYWORD)
     , (TOKEN_LPAREN, ''('', CAT_SYMBOL), (TOKEN_RPAREN, '')'', CAT_SYMBOL)
     , (TOKEN_LBRACE, ''{'', CAT_SYMBOL), (TOKEN_RBRACE, ''}'', CAT_SYMBOL)
     , (TOKEN_LBRACKET, ''['', CAT_SYMBOL), (TOKEN_RBRACKET, '']'', CAT_SYMBOL)
     , (TOKEN_COMMA, '','', CAT_SYMBOL), (TOKEN_SEMICOLON, '';'', CAT_SYMBOL)
     , (TOKEN_COLON, '':'', CAT_SYMBOL), (TOKEN_COLON_COLON, ''::'', CAT_SYMBOL)
     , (TOKEN_DOT, ''.'', CAT_SYMBOL), (TOKEN_DOT_DOT, ''..'', CAT_SYMBOL)
     , (TOKEN_ELLIPSIS, ''...'', CAT_SYMBOL), (TOKEN_ARROW, ''->'', CAT_SYMBOL)
     , (TOKEN_FAT_ARROW, ''=>'', CAT_SYMBOL), (TOKEN_PLUS, ''+'', CAT_SYMBOL)
     , (TOKEN_MINUS, ''-'', CAT_SYMBOL), (TOKEN_STAR, ''*'', CAT_SYMBOL)
     , (TOKEN_SLASH, ''/'', CAT_SYMBOL), (TOKEN_PERCENT, ''%'', CAT_SYMBOL)
     , (TOKEN_AMP, ''&'', CAT_SYMBOL), (TOKEN_PIPE, ''|'', CAT_SYMBOL)
     , (TOKEN_CARET, ''^'', CAT_SYMBOL), (TOKEN_TILDE, ''~'', CAT_SYMBOL)
     , (TOKEN_BANG, ''!'', CAT_SYMBOL), (TOKEN_SHL, ''<<'', CAT_SYMBOL)
     , (TOKEN_SHR, ''>>'', CAT_SYMBOL), (TOKEN_AND_AND, ''&&'', CAT_SYMBOL)
     , (TOKEN_OR_OR, ''||'', CAT_SYMBOL), (TOKEN_EQ, ''=='', CAT_SYMBOL)
     , (TOKEN_NE, ''!='', CAT_SYMBOL), (TOKEN_LT, ''<'', CAT_SYMBOL)
     , (TOKEN_LE, ''<='', CAT_SYMBOL), (TOKEN_GT, ''>'', CAT_SYMBOL)
     , (TOKEN_GE, ''>='', CAT_SYMBOL), (TOKEN_ASSIGN, ''='', CAT_SYMBOL)
     , (TOKEN_PLUS_ASSIGN, ''+='', CAT_SYMBOL), (TOKEN_MINUS_ASSIGN, ''-='', CAT_SYMBOL)
     , (TOKEN_STAR_ASSIGN, ''*='', CAT_SYMBOL), (TOKEN_SLASH_ASSIGN, ''/='', CAT_SYMBOL)
     , (TOKEN_PERCENT_ASSIGN, ''%='', CAT_SYMBOL), (TOKEN_AMP_ASSIGN, ''&='', CAT_SYMBOL)
     , (TOKEN_PIPE_ASSIGN, ''|='', CAT_SYMBOL), (TOKEN_CARET_ASSIGN, ''^='', CAT_SYMBOL)
     , (TOKEN_SHL_ASSIGN, ''<<='', CAT_SYMBOL), (TOKEN_SHR_ASSIGN, ''>>='', CAT_SYMBOL)
     , (TOKEN_QUESTION, ''?'', CAT_SYMBOL), (TOKEN_ATOMIC, ''atomic'', CAT_KEYWORD)
     , (TOKEN_DISPATCH, ''dispatch'', CAT_KEYWORD), (TOKEN_JOIN, ''join'', CAT_KEYWORD)
     , (TOKEN_JOIN_ALL, ''join_all'', CAT_KEYWORD)]"

text \<open>The words chapter 2 of the book reserves for threads and does not use yet.\<close>

definition reserved :: "string list" where
  "reserved = [''chan'', ''recv'', ''select'', ''send'', ''sync'', ''thread'']"

definition category_of :: "token_kind \<Rightarrow> category" where
  "category_of k = (case map_of kinds k of None \<Rightarrow> CAT_OTHER | Some (_, c) \<Rightarrow> c)"

definition spelling :: "token_kind \<Rightarrow> string option" where
  "spelling k = map_option fst (map_of kinds k)"

section \<open>Words\<close>

text \<open>
  \<open>word_kind\<close> takes the first keyword with the spelling \<open>w\<close>. Comparing the lengths and then the
  bytes is equality, because no spelling holds a NUL.
\<close>

definition word_kind :: "byte list \<Rightarrow> token_kind" where
  "word_kind w =
     (case List.find (\<lambda>(k, s, c). c = CAT_KEYWORD \<and> bytes_of s = w) kinds of
        Some (k, _) \<Rightarrow> k
      | None \<Rightarrow> if w \<in> set (map bytes_of reserved) then TOKEN_RESERVED else TOKEN_IDENT)"

definition lexer_is_keyword :: "byte list \<Rightarrow> bool" where
  "lexer_is_keyword w \<longleftrightarrow> word_kind w \<noteq> TOKEN_IDENT"

section \<open>Names of the kinds\<close>

text \<open>
  The name of a kind without a fixed name is its spelling in backquotes, cut to the 15 bytes
  that the buffer of the C function holds. The function fills the buffer once per kind, which
  does not change what it returns.
\<close>

definition token_kind_name :: "token_kind \<Rightarrow> string" where
  "token_kind_name k =
     (if k = TOKEN_EOF then ''end of file''
      else if k = TOKEN_ERROR then ''invalid token''
      else if k = TOKEN_IDENT then ''identifier''
      else if k = TOKEN_INT then ''integer literal''
      else if k = TOKEN_FLOAT then ''float literal''
      else if k = TOKEN_CHAR then ''character literal''
      else if k = TOKEN_STRING then ''string literal''
      else if k = TOKEN_BYTES then ''byte string literal''
      else if k = TOKEN_RESERVED then ''reserved word''
      else if k = TOKEN_DOC \<or> k = TOKEN_MODULE_DOC then ''doc comment''
      else if k = TOKEN_NOTE \<or> k = TOKEN_MODULE_NOTE then ''developer note''
      else take 15 (CHR 0x60 # (case spelling k of Some s \<Rightarrow> s | None \<Rightarrow> []) @ [CHR 0x60]))"

definition token_category :: "token_kind \<Rightarrow> string" where
  "token_category k =
     (if k = TOKEN_IDENT then ''ident''
      else if k = TOKEN_INT then ''int_lit''
      else if k = TOKEN_FLOAT then ''float_lit''
      else if k = TOKEN_CHAR then ''char_lit''
      else if k = TOKEN_STRING \<or> k = TOKEN_BYTES then ''string_lit''
      else if k = TOKEN_RESERVED then ''keyword''
      else if k = TOKEN_DOC \<or> k = TOKEN_MODULE_DOC \<or> k = TOKEN_NOTE \<or> k = TOKEN_MODULE_NOTE then ''doc''
      else if k = TOKEN_EOF then ''eof''
      else if k = TOKEN_ERROR then ''error''
      else if category_of k = CAT_KEYWORD then ''keyword'' else ''symbol'')"

end
