(* ===== verification/Lexer.thy ===== *)
theory Lexer
  imports Tokens
begin

text \<open>
  \<open>src/lexer.c\<close>: the lexer. The record \<open>lexer\<close> is the C struct: the source bytes, the position
  with its line and column, the diagnostics and tokens written so far and the flag \<open>ok\<close>. Every
  function of the source is one definition that takes the state and returns it. The loops over
  the source are recursive functions whose measure is the number of bytes left. The loop of
  \<open>lex\<close> itself is a \<^theory_text>\<open>partial_function\<close>, because it does not return on every source.

  A read past the end of the source has no meaning in C. \<open>advance\<close> reads the byte at the
  position, and the field \<open>fault\<close>, which the C struct does not have, records whether it was ever
  called at the end. Lines and columns are natural numbers, because no source is long enough to
  overflow an \<open>int\<close>.
\<close>

section \<open>State\<close>

record diagnostic =
  d_line :: nat
  d_column :: nat
  warning :: bool
  message :: "byte list"

datatype token_value = NoValue | Integer u64 | Character u32 | TextValue "byte list"

record token =
  kind :: token_kind
  t_line :: nat
  t_column :: nat
  offset :: nat
  t_length :: nat
  t_value :: token_value

record lexer =
  src :: "byte list"
  pos :: nat
  line :: nat
  column :: nat
  diags :: "diagnostic list"
  out :: "token list"
  ok :: bool
  fault :: bool

datatype literal_mode = MODE_CHAR | MODE_STR | MODE_BYTES

text \<open>The byte \<open>ahead\<close> of the position as an \<open>int\<close>, or -1 at the end.\<close>

definition at :: "lexer \<Rightarrow> nat \<Rightarrow> int" where
  "at lx ahead =
     (let i = pos lx + ahead in if i < length (src lx) then uint (src lx ! i) else -1)"

definition advance :: "lexer \<Rightarrow> lexer" where
  "advance lx =
     (if pos lx < length (src lx) then
        if src lx ! pos lx = 10
        then lx\<lparr>line := line lx + 1, column := 1, pos := pos lx + 1\<rparr>
        else lx\<lparr>column := column lx + 1, pos := pos lx + 1\<rparr>
      else lx\<lparr>fault := True\<rparr>)"

fun advance_n :: "nat \<Rightarrow> lexer \<Rightarrow> lexer" where
  "advance_n 0 lx = lx"
| "advance_n (Suc n) lx = advance_n n (advance lx)"

text \<open>
  \<open>while (cond) advance(lx);\<close> for a condition that is false at the end of the source, which every
  condition of the source is.
\<close>

function advance_while :: "(lexer \<Rightarrow> bool) \<Rightarrow> lexer \<Rightarrow> lexer" where
  "advance_while P lx =
     (if pos lx < length (src lx) \<and> P lx then advance_while P (advance lx) else lx)"
  by pat_completeness auto
termination
  by (relation "measure (\<lambda>(P, lx). length (src lx) - pos lx)") (auto simp: advance_def)

declare advance_while.simps [simp del]

section \<open>Classes of characters\<close>

definition is_digit :: "int \<Rightarrow> bool" where
  "is_digit c \<longleftrightarrow> c \<ge> ascii CHR ''0'' \<and> c \<le> ascii CHR ''9''"

definition is_hex :: "int \<Rightarrow> bool" where
  "is_hex c \<longleftrightarrow> is_digit c \<or> (c \<ge> ascii CHR ''a'' \<and> c \<le> ascii CHR ''f'') \<or>
     (c \<ge> ascii CHR ''A'' \<and> c \<le> ascii CHR ''F'')"

definition hex_value :: "int \<Rightarrow> int" where
  "hex_value c = (if is_digit c then c - ascii CHR ''0'' else (c OR 0x20) - ascii CHR ''a'' + 10)"

definition is_ident_start :: "int \<Rightarrow> bool" where
  "is_ident_start c \<longleftrightarrow> (c \<ge> ascii CHR ''a'' \<and> c \<le> ascii CHR ''z'') \<or>
     (c \<ge> ascii CHR ''A'' \<and> c \<le> ascii CHR ''Z'') \<or> c = ascii CHR ''_''"

definition is_ident_char :: "int \<Rightarrow> bool" where
  "is_ident_char c \<longleftrightarrow> is_ident_start c \<or> is_digit c"

definition is_blank :: "int \<Rightarrow> bool" where
  "is_blank c \<longleftrightarrow> c = ascii CHR '' '' \<or> c = 9 \<or> c = 13"

section \<open>Diagnostics and tokens\<close>

text \<open>\<open>message\<close> is a buffer of 160 bytes, so \<open>vsnprintf\<close> keeps 159.\<close>

definition error_at :: "lexer \<Rightarrow> nat \<Rightarrow> nat \<Rightarrow> byte list \<Rightarrow> lexer" where
  "error_at lx l c msg =
     lx\<lparr>diags := diags lx @ [\<lparr>d_line = l, d_column = c, warning = False, message = take 159 (c_str msg)\<rparr>],
        ok := False\<rparr>"

text \<open>The C function returns the new token and its caller stores the value, here the last argument.\<close>

definition push :: "lexer \<Rightarrow> token_kind \<Rightarrow> nat \<Rightarrow> nat \<Rightarrow> nat \<Rightarrow> token_value \<Rightarrow> lexer" where
  "push lx k start l c v =
     lx\<lparr>out := out lx @ [\<lparr>kind = k, t_line = l, t_column = c, offset = start,
                          t_length = pos lx - start, t_value = v\<rparr>]\<rparr>"

definition keep :: "text_buf \<Rightarrow> token_value" where
  "keep bytes = TextValue (data bytes)"

section \<open>Validation\<close>

text \<open>
  The loop of \<open>validate\<close> over the bytes left: the line and column of the first byte that starts
  no valid sequence, or \<open>None\<close>.
\<close>

function validate_from :: "byte list \<Rightarrow> nat \<Rightarrow> nat \<Rightarrow> (nat \<times> nat) option" where
  "validate_from s l c =
     (if s = [] then None
      else
        (case utf8_length s of
           None \<Rightarrow> Some (l, c)
         | Some (n, cp) \<Rightarrow>
             if cp = 10 then validate_from (drop n s) (l + 1) 1
             else validate_from (drop n s) l (c + n)))"
  by pat_completeness auto
termination
  by (relation "measure (\<lambda>(s, l, c). length s)")
    (auto dest!: utf8_length_sound simp: encode_length_pos)

declare validate_from.simps [simp del]

definition validate :: "lexer \<Rightarrow> bool \<times> lexer" where
  "validate lx =
     (case validate_from (drop (pos lx) (src lx)) 1 1 of
        None \<Rightarrow> (True, lx)
      | Some (l, c) \<Rightarrow> (False, error_at lx l c (bytes_of ''invalid UTF-8'')))"

section \<open>Comments\<close>

text \<open>The doc marker \<open>ahead\<close> of the position and the length it stores.\<close>

definition doc_marker :: "lexer \<Rightarrow> nat \<Rightarrow> token_kind \<times> nat" where
  "doc_marker lx ahead =
     (let block = at lx (ahead + 1) = ascii CHR ''*'';
          c = at lx (ahead + 2);
          d = at lx (ahead + 3)
      in if at lx ahead \<noteq> ascii CHR ''/'' \<or> (at lx (ahead + 1) \<noteq> ascii CHR ''/'' \<and> \<not> block)
         then (TOKEN_EOF, 3)
         else if c = ascii CHR ''#'' \<and> d = ascii CHR ''!'' then (TOKEN_MODULE_NOTE, 4)
         else if c = ascii CHR ''#'' then (TOKEN_NOTE, 3)
         else if c = ascii CHR ''!'' then (TOKEN_MODULE_DOC, 3)
         else if \<not> block \<and> c = ascii CHR ''/'' \<and> d \<noteq> ascii CHR ''/'' then (TOKEN_DOC, 3)
         else if block \<and> c = ascii CHR ''*'' \<and> d \<noteq> ascii CHR ''*'' \<and> d \<noteq> ascii CHR ''/'' then (TOKEN_DOC, 3)
         else (TOKEN_EOF, 3))"

text \<open>The lines of a text: both loops of \<open>push_doc\<close> visit them in order.\<close>

function doc_lines :: "byte list \<Rightarrow> byte list list" where
  "doc_lines s =
     (case dropWhile (\<lambda>b. b \<noteq> 10) s of
        [] \<Rightarrow> [s]
      | _ # rest \<Rightarrow> takeWhile (\<lambda>b. b \<noteq> 10) s # doc_lines rest)"
  by pat_completeness auto
termination
  by (relation "measure length")
    (auto, metis impossible_Cons le_less_linear length_dropWhile_le order.trans)

declare doc_lines.simps [simp del]

definition lead_of :: "byte list \<Rightarrow> nat" where
  "lead_of l = length (takeWhile (\<lambda>b. is_blank (uint b)) l)"

definition SIZE_MAX :: nat where
  "SIZE_MAX = 2 ^ 64 - 1"

text \<open>The first loop: the smallest indentation of a line that is not blank.\<close>

definition common_lead :: "byte list list \<Rightarrow> nat" where
  "common_lead ls =
     foldl (\<lambda>common l. let lead = lead_of l
                        in if lead < length l \<and> lead < common then lead else common) SIZE_MAX ls"

text \<open>The second loop. The flag says whether a line came before.\<close>

fun push_lines :: "nat \<Rightarrow> bool \<Rightarrow> byte list list \<Rightarrow> text_buf \<Rightarrow> text_buf" where
  "push_lines common again [] t = t"
| "push_lines common again (l # ls) t =
     (let t = (if again then text_append t [10, 0] else t);
          t = (if lead_of l < length l then text_append_bytes t (drop common l) else t)
      in push_lines common True ls t)"

definition push_doc :: "lexer \<Rightarrow> token_kind \<Rightarrow> nat \<Rightarrow> nat \<Rightarrow> nat \<Rightarrow> text_buf \<Rightarrow> lexer" where
  "push_doc lx k start l c raw =
     (let ls = doc_lines (data raw)
      in push lx k start l c (keep (push_lines (common_lead ls) False ls text_empty)))"

text \<open>The source from an offset to the position, without the carriage return of a CRLF line end.\<close>

definition take_line :: "lexer \<Rightarrow> nat \<Rightarrow> text_buf \<Rightarrow> text_buf" where
  "take_line lx from_pos raw =
     (let n = pos lx - from_pos;
          n = (if n > 0 \<and> src lx ! (pos lx - 1) = 13 then n - 1 else n)
      in text_append_bytes raw (take n (drop from_pos (src lx))))"

section \<open>Doc comments\<close>

text \<open>
  What holds of the state after the position has moved: the source is the same and the position
  has not gone back. The recursive definitions below need it for their termination, so it is
  proved here for the functions they call.
\<close>

definition moved :: "lexer \<Rightarrow> lexer \<Rightarrow> bool" where
  "moved lx lx' \<longleftrightarrow> src lx' = src lx \<and> pos lx \<le> pos lx'"

lemma moved_refl [simp]: "moved lx lx"
  by (simp add: moved_def)

lemma moved_trans [trans]: "moved a b \<Longrightarrow> moved b c \<Longrightarrow> moved a c"
  by (simp add: moved_def)

lemma moved_advance [simp]: "moved lx (advance lx)"
  by (simp add: moved_def advance_def)

lemma moved_advance_n [simp]: "moved lx (advance_n n lx)"
proof (induction n arbitrary: lx)
  case (Suc n)
  have "moved lx (advance lx)" by simp
  also have "moved \<dots> (advance_n n (advance lx))" by (rule Suc)
  finally show ?case by simp
qed simp

lemma moved_advance_while [simp]: "moved lx (advance_while P lx)"
proof (induction P lx rule: advance_while.induct)
  case (1 P lx)
  show ?case
  proof (cases "pos lx < length (src lx) \<and> P lx")
    case True
    have "moved lx (advance lx)" by simp
    also have "moved \<dots> (advance_while P (advance lx))" using 1 True by blast
    finally show ?thesis using True by (subst advance_while.simps) simp
  next
    case False
    then show ?thesis by (auto simp: advance_while.simps [of P lx])
  qed
qed

lemma at_ge_0: "at lx i \<ge> 0 \<longleftrightarrow> pos lx + i < length (src lx)"
  by (simp add: at_def Let_def)

lemma at_lt_256 [simp]: "at lx i < 256"
  using uint_lt2p [of "src lx ! (pos lx + i)"] by (simp add: at_def Let_def)

lemma uint_byte_not_end [simp]: "uint (b :: byte) \<noteq> -1"
proof -
  have "0 \<le> uint b" by (rule unsigned_greater_eq)
  then show ?thesis by linarith
qed

lemma at_end: "at lx i = -1 \<longleftrightarrow> length (src lx) \<le> pos lx + i"
  by (auto simp: at_def Let_def)

lemma pos_advance: "pos lx < length (src lx) \<Longrightarrow> pos (advance lx) = Suc (pos lx)"
  by (simp add: advance_def)

lemma src_advance [simp]: "src (advance lx) = src lx"
  using moved_advance [of lx] by (simp add: moved_def)

lemma src_advance_while [simp]: "src (advance_while P lx) = src lx"
  and pos_advance_while [simp]: "pos lx \<le> pos (advance_while P lx)"
  using moved_advance_while [of lx P] by (simp_all add: moved_def)

lemma less_left: "a \<le> b \<Longrightarrow> b < n \<Longrightarrow> n - Suc b < n - (a :: nat)"
  by arith

lemma pos_advance_n: "pos lx + n \<le> length (src lx) \<Longrightarrow> pos (advance_n n lx) = pos lx + n"
proof (induction n arbitrary: lx)
  case (Suc n)
  then have "pos (advance lx) = Suc (pos lx)" "src (advance lx) = src lx"
    by (simp_all add: advance_def)
  with Suc.IH [of "advance lx"] Suc.prems show ?case by simp
qed simp

lemma src_advance_n [simp]: "src (advance_n n lx) = src lx"
  using moved_advance_n [of lx n] by (simp add: moved_def)

text \<open>The length of the run of spaces and tabs from the byte \<open>next\<close> of the position.\<close>

function skip_spaces :: "lexer \<Rightarrow> nat \<Rightarrow> nat" where
  "skip_spaces lx n =
     (if at lx n = ascii CHR '' '' \<or> at lx n = 9 then skip_spaces lx (Suc n) else n)"
  by pat_completeness auto
termination
  by (relation "measure (\<lambda>(lx, n). length (src lx) - (pos lx + n))")
    (auto simp: at_def Let_def ascii_def split: if_splits)

declare skip_spaces.simps [simp del]

lemma skip_spaces_ge: "n \<le> skip_spaces lx n"
proof (induction lx n rule: skip_spaces.induct)
  case (1 lx n)
  then show ?case
    by (cases "at lx n = ascii CHR '' '' \<or> at lx n = 9")
      (subst skip_spaces.simps, fastforce simp: Suc_leD, subst skip_spaces.simps, simp)
qed

text \<open>
  The loop of \<open>line_doc\<close>, which starts at a marker of \<open>marker\<close> bytes and takes a line per round.
  It goes on when the next line starts with the same marker. The round that follows starts past
  the newline, which bounds the number of rounds.
\<close>

definition next_marker :: "lexer \<Rightarrow> token_kind \<Rightarrow> (nat \<times> nat) option" where
  "next_marker lx k =
     (let n = skip_spaces lx 1; (k', len) = doc_marker lx n
      in if at lx (n + 1) \<noteq> ascii CHR ''/'' \<or> k' \<noteq> k then None else Some (n, len))"

definition at_line_end :: "lexer \<Rightarrow> bool" where
  "at_line_end lx \<longleftrightarrow> at lx 0 = -1 \<or> at lx 0 = 10"

definition line_text :: "nat \<Rightarrow> lexer \<Rightarrow> text_buf \<Rightarrow> lexer \<times> text_buf" where
  "line_text marker lx raw =
     (let lx = advance_n marker lx; from_pos = pos lx;
          lx = advance_while (\<lambda>lx. \<not> at_line_end lx) lx
      in (lx, take_line lx from_pos raw))"

lemma moved_line_text: "line_text marker lx raw = (lx', raw') \<Longrightarrow> moved lx lx'"
  unfolding line_text_def Let_def using moved_trans [OF moved_advance_n moved_advance_while] by blast

lemma at_0_byte: "at lx 0 = 10 \<Longrightarrow> pos lx < length (src lx)"
  by (simp add: at_def Let_def split: if_splits)

lemma line_doc_progress:
  assumes t: "(lx1, raw1) = line_text marker lx raw" and nl: "at lx1 0 = 10"
    and m: "next_marker lx1 k = Some (n, len)"
  shows "length (src lx1) - pos (advance_n n lx1) < length (src lx) - pos lx"
proof -
  have mv: "moved lx lx1" using t by (intro moved_line_text [of marker lx raw lx1 raw1]) simp
  have lt: "pos lx1 < length (src lx1)" using nl by (rule at_0_byte)
  from m have "n = skip_spaces lx1 1"
    by (auto simp: next_marker_def Let_def split: prod.splits if_splits)
  then have "1 \<le> n" using skip_spaces_ge [of 1 lx1] by simp
  then obtain n' where n': "n = Suc n'" by (cases n) auto
  have "moved (advance lx1) (advance_n n lx1)" by (simp add: n')
  then have "Suc (pos lx1) \<le> pos (advance_n n lx1)" using lt by (simp add: moved_def pos_advance)
  with mv lt show ?thesis by (auto simp: moved_def)
qed

function line_doc_loop :: "token_kind \<Rightarrow> nat \<Rightarrow> lexer \<Rightarrow> text_buf \<Rightarrow> lexer \<times> text_buf" where
  "line_doc_loop k marker lx raw =
     (case line_text marker lx raw of
        (lx1, raw1) \<Rightarrow>
          if at lx1 0 \<noteq> 10 then (lx1, raw1)
          else
            (case next_marker lx1 k of
               None \<Rightarrow> (lx1, raw1)
             | Some (n, len) \<Rightarrow>
                 line_doc_loop k len (advance_n n lx1) (text_append raw1 [10, 0])))"
  by pat_completeness auto
termination
  by (relation "measure (\<lambda>(k, marker, lx, raw). length (src lx) - pos lx)")
    (auto intro: line_doc_progress)

declare line_doc_loop.simps [simp del]

definition line_doc :: "lexer \<Rightarrow> token_kind \<Rightarrow> nat \<Rightarrow> lexer" where
  "line_doc lx k marker =
     (case line_doc_loop k marker lx text_empty of
        (lx1, raw) \<Rightarrow> push_doc lx1 k (pos lx) (line lx) (column lx) raw)"

text \<open>\<open>skip_block\<close>: past the end of a block comment, or \<open>False\<close> at the end of the source.\<close>

definition at_close :: "lexer \<Rightarrow> bool" where
  "at_close lx \<longleftrightarrow> at lx 0 = ascii CHR ''*'' \<and> at lx 1 = ascii CHR ''/''"

definition skip_block :: "lexer \<Rightarrow> nat \<Rightarrow> bool \<times> lexer" where
  "skip_block lx skip =
     (let lx = advance_while (\<lambda>lx. \<not> at_close lx) (advance_n skip lx)
      in if at_close lx then (True, advance (advance lx)) else (False, lx))"

text \<open>
  \<open>block_doc\<close> first looks for the closer on the line of the opener: the bytes before it, or
  \<open>None\<close> when the line ends first.
\<close>

function find_close :: "lexer \<Rightarrow> nat \<Rightarrow> nat option" where
  "find_close lx i =
     (if at lx i = -1 \<or> at lx i = 10 then None
      else if at lx i = ascii CHR ''*'' \<and> at lx (i + 1) = ascii CHR ''/'' then Some i
      else find_close lx (i + 1))"
  by pat_completeness auto
termination
  by (relation "measure (\<lambda>(lx, i). length (src lx) - (pos lx + i))") (auto simp: at_end)

declare find_close.simps [simp del]

text \<open>The trim of the blanks before the closer.\<close>

fun trim_blanks :: "lexer \<Rightarrow> nat \<Rightarrow> nat" where
  "trim_blanks lx 0 = 0"
| "trim_blanks lx (Suc i) = (if is_blank (at lx i) then trim_blanks lx i else Suc i)"

definition at_block_line_end :: "lexer \<Rightarrow> bool" where
  "at_block_line_end lx \<longleftrightarrow> at_line_end lx \<or> at_close lx"

text \<open>
  The lines of a block doc of several lines. \<open>first\<close> is \<open>i == 0\<close>. The result is the text, or
  \<open>None\<close> after an error.
\<close>

function block_lines :: "nat \<Rightarrow> nat \<Rightarrow> bool \<Rightarrow> lexer \<Rightarrow> text_buf \<Rightarrow> lexer \<times> text_buf option" where
  "block_lines l c first lx raw =
     (let from_pos = pos lx;
          text_line = line lx;
          lx1 = advance_while (\<lambda>lx. \<not> at_block_line_end lx) lx;
          blank = list_all (\<lambda>b. is_blank (uint b)) (take (pos lx1 - from_pos) (drop from_pos (src lx1)))
      in if at lx1 0 = -1 then (error_at lx1 l c (bytes_of ''unterminated block comment''), None)
         else if at lx1 0 = ascii CHR ''*'' then
           let lx2 = advance (advance lx1)
           in if \<not> blank
              then (error_at lx2 text_line 1 (bytes_of ''doc comment text ends on the line before `*/`''), None)
              else (lx2, Some raw)
         else
           let raw = (if \<not> first then text_append raw [10, 0] else raw)
           in block_lines l c False (advance lx1) (take_line lx1 from_pos raw))"
  by pat_completeness auto
termination
  by (relation "measure (\<lambda>(l, c, first, lx, raw). length (src lx) - pos lx)")
    (auto simp: at_end pos_advance intro!: less_left)

declare block_lines.simps [simp del]

definition block_doc :: "lexer \<Rightarrow> token_kind \<Rightarrow> nat \<Rightarrow> lexer" where
  "block_doc lx k marker =
     (let start = pos lx; l = line lx; c = column lx;
          lx = advance_while (\<lambda>lx. is_blank (at lx 0)) (advance_n marker lx)
      in case find_close lx 0 of
           Some i \<Rightarrow>
             let from_pos = pos lx;
                 i = trim_blanks lx i;
                 lx = advance_n i lx;
                 raw = text_append_bytes text_empty (take i (drop from_pos (src lx)));
                 lx = snd (skip_block lx 0)
             in push_doc lx k start l c raw
         | None \<Rightarrow>
             if at lx 0 \<noteq> 10 then
               let msg = bytes_of ''doc comment text starts on the line after `''
                         @ take marker (drop start (src lx)) @ bytes_of ''`'';
                   (closed, lx) = skip_block lx 0
               in error_at lx l c (if closed then take 63 msg else bytes_of ''unterminated block comment'')
             else
               (case block_lines l c True (advance lx) text_empty of
                  (lx, None) \<Rightarrow> lx
                | (lx, Some raw) \<Rightarrow> push_doc lx k start l c raw))"

section \<open>Trivia and words\<close>

lemma advance_while_progress:
  "P lx \<Longrightarrow> pos lx < length (src lx) \<Longrightarrow> Suc (pos lx) \<le> pos (advance_while P lx)"
  using moved_advance_while [of "advance lx" P]
  by (subst advance_while.simps) (simp add: moved_def pos_advance)

lemma skip_block_closed:
  assumes "skip_block lx n = (True, lx')"
  shows "src lx' = src lx \<and> pos lx < length (src lx) \<and> Suc (pos lx) \<le> pos lx'"
proof -
  let ?a = "advance_while (\<lambda>lx. \<not> at_close lx) (advance_n n lx)"
  have lx': "lx' = advance (advance ?a)" and cl: "at_close ?a"
    using assms by (auto simp: skip_block_def Let_def split: if_splits)
  have mv: "moved lx ?a" by (rule moved_trans [OF moved_advance_n moved_advance_while])
  from cl have "pos ?a < length (src ?a)"
    using at_ge_0 [of ?a 0] by (simp add: at_close_def ascii_def)
  moreover have "moved (advance ?a) lx'" by (simp add: lx')
  ultimately show ?thesis using mv by (simp add: moved_def pos_advance)
qed

function skip_trivia :: "lexer \<Rightarrow> lexer" where
  "skip_trivia lx =
     (let c = at lx 0
      in if c = ascii CHR '' '' \<or> c = 9 \<or> c = 13 \<or> c = 10 then skip_trivia (advance lx)
         else if c \<noteq> ascii CHR ''/'' \<or> fst (doc_marker lx 0) \<noteq> TOKEN_EOF then lx
         else if at lx 1 = ascii CHR ''/'' then
           skip_trivia (advance_while (\<lambda>lx. \<not> at_line_end lx) lx)
         else if at lx 1 = ascii CHR ''*'' then
           (case skip_block lx 2 of
              (True, lx') \<Rightarrow> skip_trivia lx'
            | (False, lx') \<Rightarrow>
                error_at lx' (line lx) (column lx) (bytes_of ''unterminated block comment''))
         else lx)"
  by pat_completeness auto

lemma ascii_ge_0: "0 \<le> ascii c"
proof -
  have "(of_char c :: int) = of_nat (of_char c)" by (rule of_nat_of_char [symmetric])
  then show ?thesis by (simp add: ascii_def)
qed

lemma at_code_byte: "at lx 0 = ascii c \<Longrightarrow> pos lx < length (src lx)"
  using at_ge_0 [of lx 0] ascii_ge_0 [of c] by simp

lemma not_line_end_slash: "at lx 0 = ascii CHR ''/'' \<Longrightarrow> \<not> at_line_end lx"
  by (simp add: at_line_end_def ascii_def)

termination skip_trivia
proof (relation "measure (\<lambda>lx. length (src lx) - pos lx)", goal_cases)
  case 1
  show ?case by simp
next
  case (2 lx c)
  then have "pos lx < length (src lx)" using at_ge_0 [of lx 0] by (auto simp: ascii_def)
  then show ?case by (simp add: pos_advance)
next
  case (3 lx c)
  then have "at lx 0 = ascii CHR ''/''" by simp
  then show ?case
    using advance_while_progress [of "\<lambda>lx. \<not> at_line_end lx", OF not_line_end_slash]
      at_code_byte by fastforce
next
  case (4 lx c b lx')
  then have "skip_block lx 2 = (True, lx')" by simp
  then show ?case using skip_block_closed [of lx 2 lx'] by auto
qed

declare skip_trivia.simps [simp del]

text \<open>The bytes of the source between two offsets.\<close>

definition slice :: "lexer \<Rightarrow> nat \<Rightarrow> byte list" where
  "slice lx start = take (pos lx - start) (drop start (src lx))"

definition identifier_token :: "lexer \<Rightarrow> nat \<Rightarrow> nat \<Rightarrow> nat \<Rightarrow> lexer" where
  "identifier_token lx start l c =
     (let lx = advance_while (\<lambda>lx. is_ident_char (at lx 0)) lx
      in push lx (word_kind (slice lx start)) start l c NoValue)"

section \<open>Numbers\<close>

text \<open>Digits of a run with \<open>_\<close> only between two digits. \<open>False\<close> on a misplaced \<open>_\<close>.\<close>

definition valid_digit :: "bool \<Rightarrow> int \<Rightarrow> bool" where
  "valid_digit hex c \<longleftrightarrow> (if hex then is_hex c else is_digit c)"

function digit_run :: "bool \<Rightarrow> lexer \<Rightarrow> text_buf \<Rightarrow> bool \<times> lexer \<times> text_buf" where
  "digit_run hex lx digits =
     (if valid_digit hex (at lx 0) \<or> at lx 0 = ascii CHR ''_'' then
        if at lx 0 = ascii CHR ''_'' then
          if \<not> valid_digit hex (at lx 1) then (False, lx, digits)
          else digit_run hex (advance lx) digits
        else digit_run hex (advance lx) (text_append digits [word_of_int (at lx 0), 0])
      else (True, lx, digits))"
  by pat_completeness auto

lemma valid_digit_byte: "valid_digit hex (at lx 0) \<Longrightarrow> pos lx < length (src lx)"
  using at_ge_0 [of lx 0]
  by (auto simp: valid_digit_def is_hex_def is_digit_def ascii_def split: if_splits)

termination digit_run
  by (relation "measure (\<lambda>(hex, lx, digits). length (src lx) - pos lx)")
    (auto simp: pos_advance dest: valid_digit_byte at_code_byte)

declare digit_run.simps [simp del]

definition number_error :: "lexer \<Rightarrow> nat \<Rightarrow> nat \<Rightarrow> nat \<Rightarrow> string \<Rightarrow> lexer" where
  "number_error lx start l c msg =
     (let lx = error_at lx l c (bytes_of msg);
          lx = advance_while (\<lambda>lx. is_ident_char (at lx 0) \<or>
                 (at lx 0 = ascii CHR ''.'' \<and> is_digit (at lx 1))) lx
      in push lx TOKEN_ERROR start l c NoValue)"

text \<open>The value of the digits in a base, \<open>None\<close> when it does not fit 64 bits.\<close>

fun int_value :: "u64 \<Rightarrow> byte list \<Rightarrow> u64 \<Rightarrow> u64 option" where
  "int_value base [] value = Some value"
| "int_value base (b # bs) value =
     (let digit = word_of_int (hex_value (uint b))
      in if value > (- 1 - digit) div base then None
         else int_value base bs (value * base + digit))"

text \<open>The part of \<open>number\<close> after the integer digits, when a point and a digit follow.\<close>

definition number_float :: "lexer \<Rightarrow> text_buf \<Rightarrow> nat \<Rightarrow> nat \<Rightarrow> nat \<Rightarrow> lexer" where
  "number_float lx digits start l c =
     (let digits = text_append digits (bytes_of ''.'');
          lx = advance lx
      in case digit_run False lx digits of
        (False, lx, digits) \<Rightarrow> number_error lx start l c ''`_` must stand between two digits''
      | (True, lx, digits) \<Rightarrow>
          let finish = (\<lambda>lx digits.
                if is_ident_char (at lx 0)
                then number_error lx start l c ''invalid character in numeric literal''
                else push lx TOKEN_FLOAT start l c (keep digits))
          in if at lx 0 = ascii CHR ''e'' \<or> at lx 0 = ascii CHR ''E'' then
               let e = word_of_int (at lx 0);
                   lx = advance lx;
                   (exponent, lx) =
                     (if at lx 0 = ascii CHR ''+'' \<or> at lx 0 = ascii CHR ''-''
                      then ([e, word_of_int (at lx 0), 0], advance lx) else ([e, 0, 0], lx));
                   digits = text_append digits exponent
               in if \<not> is_digit (at lx 0)
                  then number_error lx start l c ''expected digits in the exponent''
                  else
                    (case digit_run False lx digits of
                       (False, lx, digits) \<Rightarrow>
                         number_error lx start l c ''`_` must stand between two digits''
                     | (True, lx, digits) \<Rightarrow> finish lx digits)
             else finish lx digits)"

definition number_int :: "lexer \<Rightarrow> bool \<Rightarrow> text_buf \<Rightarrow> nat \<Rightarrow> nat \<Rightarrow> nat \<Rightarrow> lexer" where
  "number_int lx hex digits start l c =
     (if is_ident_char (at lx 0)
      then number_error lx start l c ''invalid character in numeric literal''
      else if \<not> hex \<and> length (data digits) > 1 \<and> data digits ! 0 = 48
      then number_error lx start l c ''a decimal literal other than 0 does not start with 0''
      else
        (case int_value (if hex then 16 else 10) (data digits) 0 of
           None \<Rightarrow> number_error lx start l c ''integer literal is too large''
         | Some value \<Rightarrow> push lx TOKEN_INT start l c (Integer value)))"

definition number :: "lexer \<Rightarrow> nat \<Rightarrow> nat \<Rightarrow> nat \<Rightarrow> lexer" where
  "number lx start l c =
     (let hex = (at lx 0 = ascii CHR ''0'' \<and> at lx 1 = ascii CHR ''x'');
          lx = (if hex then advance (advance lx) else lx)
      in if hex \<and> at lx 0 = ascii CHR ''_''
         then number_error lx start l c ''`_` must stand between two digits''
         else if hex \<and> \<not> is_hex (at lx 0)
         then number_error lx start l c ''expected hexadecimal digits after 0x''
         else
           (case digit_run hex lx text_empty of
              (False, lx, digits) \<Rightarrow>
                number_error lx start l c ''`_` must stand between two digits''
            | (True, lx, digits) \<Rightarrow>
                if \<not> hex \<and> at lx 0 = ascii CHR ''.'' \<and> is_digit (at lx 1)
                then number_float lx digits start l c
                else number_int lx hex digits start l c))"

section \<open>Escapes\<close>

text \<open>
  What \<open>escape\<close> stores: a value and whether it is a raw byte. A message is written by
  \<open>snprintf\<close> into a buffer of 80 bytes.
\<close>

abbreviation backslash :: string where
  "backslash \<equiv> [CHR 0x5C]"

type_synonym escaped = "(u32 \<times> bool) option"

text \<open>The digits \<open>%X\<close> prints.\<close>

fun hex_digits :: "nat \<Rightarrow> string" where
  "hex_digits n =
     (let d = [''0123456789ABCDEF'' ! (n mod 16)]
      in if n < 16 then d else hex_digits (n div 16) @ d)"

declare hex_digits.simps [simp del]

definition escape_hex :: "lexer \<Rightarrow> literal_mode \<Rightarrow> nat \<Rightarrow> nat \<Rightarrow> lexer \<times> escaped" where
  "escape_hex lx mode l c =
     (if \<not> is_hex (at lx 0) \<or> \<not> is_hex (at lx 1)
      then (error_at lx l c (bytes_of (''`'' @ backslash @ ''xHH` needs two hexadecimal digits'')), None)
      else
        let value = word_of_int (hex_value (at lx 0) * 16 + hex_value (at lx 1));
            lx = advance (advance lx)
        in if mode = MODE_BYTES then (lx, Some (value, True))
           else if value > 0x7F
           then (error_at lx l c (bytes_of (''`'' @ backslash @ ''xHH` stops at `'' @ backslash @
                  ''x7F` outside byte strings'')), None)
           else if value = 0 then (error_at lx l c (bytes_of ''NUL is not allowed here''), None)
           else (lx, Some (value, False)))"

text \<open>The loop over the digits, which stops after seven.\<close>

function unicode_digits :: "lexer \<Rightarrow> nat \<Rightarrow> u32 \<Rightarrow> lexer \<times> nat \<times> u32" where
  "unicode_digits lx n cp =
     (if is_hex (at lx 0) \<and> n < 7
      then unicode_digits (advance lx) (n + 1) (cp * 16 + word_of_int (hex_value (at lx 0)))
      else (lx, n, cp))"
  by pat_completeness auto
termination
  by (relation "measure (\<lambda>(lx, n, cp). 7 - n)") auto

declare unicode_digits.simps [simp del]

definition escape_unicode :: "lexer \<Rightarrow> literal_mode \<Rightarrow> nat \<Rightarrow> nat \<Rightarrow> lexer \<times> escaped" where
  "escape_unicode lx mode l c =
     (let bad = (\<lambda>lx. (error_at lx l c (bytes_of (''`'' @ backslash @
                      ''u{}` needs 1 to 6 hexadecimal digits'')), None))
      in if at lx 0 \<noteq> ascii CHR ''{'' then bad lx
         else
           (case unicode_digits (advance lx) 0 0 of
              (lx, n, cp) \<Rightarrow>
                if n = 0 \<or> n > 6 \<or> at lx 0 \<noteq> ascii CHR ''}'' then bad lx
                else
                  let lx = advance lx
                  in if \<not> scalar cp
                     then (error_at lx l c (take 79 (bytes_of
                             (''`'' @ backslash @ ''u{'' @ hex_digits (unat cp) @ ''}` is not a Unicode scalar value''))),
                           None)
                     else if cp = 0 \<and> mode \<noteq> MODE_BYTES
                     then (error_at lx l c (bytes_of ''NUL is not allowed here''), None)
                     else (lx, Some (cp, False))))"

definition escape :: "lexer \<Rightarrow> literal_mode \<Rightarrow> lexer \<times> escaped" where
  "escape lx mode =
     (let l = line lx; col = column lx; c = at lx 1; lx = advance lx
      in if c = -1 then (lx, None)
         else
           let lx = advance lx
           in if c = ascii CHR ''n'' then (lx, Some (10, False))
              else if c = ascii CHR ''r'' then (lx, Some (13, False))
              else if c = ascii CHR ''t'' then (lx, Some (9, False))
              else if c = ascii CHR 0x5C then (lx, Some (0x5C, False))
              else if c = ascii CHR 0x22 then (lx, Some (0x22, False))
              else if c = ascii CHR 0x27 then (lx, Some (0x27, False))
              else if c = ascii CHR ''0'' then
                if mode \<noteq> MODE_BYTES
                then (error_at lx l col (bytes_of ''NUL is not allowed here''), None)
                else (lx, Some (0, True))
              else if c = ascii CHR ''x'' then escape_hex lx mode l col
              else if c = ascii CHR ''u'' then escape_unicode lx mode l col
              else (error_at lx l col (take 79 (bytes_of (''unknown escape `'' @ backslash) @
                      [if c < 0x80 then word_of_int c else of_char CHR ''?''] @ bytes_of ''`'')),
                    None))"

section \<open>Character literals\<close>

text \<open>The scan for the closing quote on the line: its offset, or \<open>None\<close>.\<close>

fun find_quote :: "nat \<Rightarrow> byte list \<Rightarrow> nat option" where
  "find_quote i [] = None"
| "find_quote i (b # bs) =
     (if b = of_char CHR 0x27 then Some i else if b = 10 then None else find_quote (i + 1) bs)"

definition utf8_here :: "lexer \<Rightarrow> nat \<times> u32" where
  "utf8_here lx =
     (case utf8_length (drop (pos lx) (src lx)) of None \<Rightarrow> (0, 0) | Some r \<Rightarrow> r)"

text \<open>The part of \<open>character\<close> after the value. The value is \<open>None\<close> when its escape is invalid.\<close>

definition close_character :: "lexer \<Rightarrow> u32 option \<Rightarrow> nat \<Rightarrow> nat \<Rightarrow> nat \<Rightarrow> lexer" where
  "close_character lx value start l col =
     (if at lx 0 \<noteq> ascii CHR 0x27 then
        (case find_quote (pos lx) (drop (pos lx) (src lx)) of
           Some i \<Rightarrow>
             push (advance_n (i + 1 - pos lx)
                     (error_at lx l col (bytes_of ''a character literal holds one character'')))
               TOKEN_ERROR start l col NoValue
         | None \<Rightarrow>
             push (error_at lx l col (bytes_of ''unterminated character literal''))
               TOKEN_ERROR start l col NoValue)
      else
        (case value of
           None \<Rightarrow> push (advance lx) TOKEN_ERROR start l col NoValue
         | Some cp \<Rightarrow> push (advance lx) TOKEN_CHAR start l col (Character cp)))"

definition character :: "lexer \<Rightarrow> nat \<Rightarrow> nat \<Rightarrow> nat \<Rightarrow> lexer" where
  "character lx start l col =
     (let lx = advance lx; c = at lx 0
      in if c = ascii CHR 0x27
         then push (error_at (advance lx) l col (bytes_of ''empty character literal''))
                TOKEN_ERROR start l col NoValue
         else if c = -1 \<or> c = 10 \<or> c = 13
         then push (error_at lx l col (bytes_of ''unterminated character literal''))
                TOKEN_ERROR start l col NoValue
         else if c = ascii CHR 0x5C then
           (case escape lx MODE_CHAR of
              (lx, v) \<Rightarrow> close_character lx (map_option fst v) start l col)
         else
           (case utf8_here lx of
              (n, cp) \<Rightarrow> close_character (advance_n n lx) (Some cp) start l col))"

section \<open>String literals\<close>

text \<open>How the state moves: what the termination of the loop over a string needs.\<close>

lemma pos_src_error_at [simp]:
  "pos (error_at lx l c m) = pos lx" "src (error_at lx l c m) = src lx"
  by (simp_all add: error_at_def)

lemma moved_error_at [simp]: "moved a (error_at lx l c m) \<longleftrightarrow> moved a lx"
  by (simp add: moved_def)

lemma pos_src_push [simp]:
  "pos (push lx k start l c v) = pos lx" "src (push lx k start l c v) = src lx"
  by (simp_all add: push_def)

lemma moved_push [simp]: "moved a (push lx k start l c v) \<longleftrightarrow> moved a lx"
  by (simp add: moved_def)

lemma moved_advanceI: "moved a lx \<Longrightarrow> moved a (advance lx)"
  by (rule moved_trans [OF _ moved_advance])

lemma moved_advance_nI: "moved a lx \<Longrightarrow> moved a (advance_n n lx)"
  by (rule moved_trans [OF _ moved_advance_n])

lemma moved_advance_whileI: "moved a lx \<Longrightarrow> moved a (advance_while P lx)"
  by (rule moved_trans [OF _ moved_advance_while])

lemmas movedI = moved_advanceI moved_advance_nI moved_advance_whileI

lemma moved_unicode_digits: "moved lx (fst (unicode_digits lx n cp))"
proof (induction lx n cp rule: unicode_digits.induct)
  case (1 lx n cp)
  then show ?case
    by (subst unicode_digits.simps) (auto intro: moved_trans [OF moved_advance])
qed

lemma moved_escape_hex: "moved lx (fst (escape_hex lx mode l c))"
  by (auto simp: escape_hex_def Let_def intro: movedI)

lemma moved_escape_unicode: "moved lx (fst (escape_unicode lx mode l c))"
proof (cases "unicode_digits (advance lx) 0 0")
  case (fields lx1 n cp)
  have "moved lx lx1"
    using moved_trans [OF moved_advance moved_unicode_digits [of "advance lx" 0 0]] fields by simp
  with fields show ?thesis
    by (auto simp: escape_unicode_def Let_def intro: movedI)
qed

lemma moved_escape: "moved (advance lx) (fst (escape lx mode))"
proof -
  have "moved (advance lx) (fst (escape_hex (advance (advance lx)) mode l c))"
    "moved (advance lx) (fst (escape_unicode (advance (advance lx)) mode l c))" for l c
    by (rule moved_trans [OF moved_advance], simp add: moved_escape_hex moved_escape_unicode)+
  then show ?thesis by (auto simp: escape_def Let_def intro: movedI)
qed

text \<open>The \<open>#\<close> characters that follow a quote, counted up to the number that closes the literal.\<close>

fun closing_hashes :: "lexer \<Rightarrow> nat \<Rightarrow> nat \<Rightarrow> nat" where
  "closing_hashes lx 0 i = i"
| "closing_hashes lx (Suc left) i =
     (if at lx (1 + i) = ascii CHR ''#'' then closing_hashes lx left (i + 1) else i)"

text \<open>
  The loop over the content. The first component of the result is \<open>False\<close> when the source ends
  before the literal does, and the last is the flag \<open>valid\<close>.
\<close>

definition put_escaped :: "text_buf \<Rightarrow> u32 \<times> bool \<Rightarrow> text_buf" where
  "put_escaped bytes v =
     (case v of (value, raw_byte) \<Rightarrow>
        if raw_byte then append_byte bytes (ucast value) else append_utf8 bytes value)"

definition no_nul_error :: "lexer \<Rightarrow> lexer" where
  "no_nul_error lx = error_at lx (line lx) (column lx) (bytes_of ''NUL is not allowed here'')"

lemma escape_progress:
  assumes "(lx', v) = escape lx mode" and "at lx 0 \<noteq> -1"
  shows "length (src lx') - pos lx' < length (src lx) - pos lx"
proof -
  have lt: "pos lx < length (src lx)" using assms(2) at_end [of lx 0] by simp
  have "moved (advance lx) lx'" using moved_escape [of lx mode] by (simp flip: assms(1))
  with lt show ?thesis by (auto simp: moved_def pos_advance)
qed

function string_loop ::
  "bool \<Rightarrow> literal_mode \<Rightarrow> nat \<Rightarrow> lexer \<Rightarrow> text_buf \<Rightarrow> bool \<Rightarrow> bool \<times> lexer \<times> text_buf \<times> bool" where
  "string_loop raw mode hashes lx bytes valid =
     (let c = at lx 0
      in if c = -1 then (False, lx, bytes, valid)
         else if c = ascii CHR 0x22 then
           if closing_hashes lx hashes 0 = hashes
           then (True, advance_n hashes (advance lx), bytes, valid)
           else string_loop raw mode hashes (advance lx) (append_byte bytes (of_char CHR 0x22)) valid
         else if c = ascii CHR 0x5C \<and> \<not> raw then
           (case escape lx mode of
              (lx', Some v) \<Rightarrow> string_loop raw mode hashes lx' (put_escaped bytes v) valid
            | (lx', None) \<Rightarrow> string_loop raw mode hashes lx' bytes False)
         else if c = 13 \<and> at lx 1 = 10 then
           string_loop raw mode hashes (advance (advance lx)) (append_byte bytes 10) valid
         else if c = 0 \<and> mode \<noteq> MODE_BYTES then
           string_loop raw mode hashes (advance (no_nul_error lx)) bytes False
         else
           string_loop raw mode hashes (advance lx) (append_byte bytes (word_of_int c)) valid)"
  by pat_completeness auto

termination
proof (relation "measure (\<lambda>(raw, mode, hashes, lx, bytes, valid). length (src lx) - pos lx)", goal_cases)
  case (5 raw mode hashes lx bytes valid c)
  have "moved (advance lx) (advance (advance lx))" by simp
  moreover have "pos lx < length (src lx)" using 5 at_ge_0 [of lx 0] by simp
  ultimately show ?case by (auto simp: moved_def pos_advance)
next
  case (6 raw mode hashes lx bytes valid c)
  then have "pos lx < length (src lx)" using at_ge_0 [of lx 0] by simp
  then show ?case by (simp add: no_nul_error_def advance_def)
qed (auto simp: at_end pos_advance intro: escape_progress)

declare string_loop.simps [simp del]

definition string_token :: "lexer \<Rightarrow> nat \<Rightarrow> nat \<Rightarrow> nat \<Rightarrow> lexer" where
  "string_token lx start l c =
     (let byte_string = (at lx 0 = ascii CHR ''b'');
          lx = (if byte_string then advance lx else lx);
          raw = (at lx 0 = ascii CHR ''r'');
          lx = (if raw then advance lx else lx);
          before = pos lx;
          lx = advance_while (\<lambda>lx. at lx 0 = ascii CHR ''#'') lx;
          hashes = pos lx - before;
          lx = advance lx;
          mode = (if byte_string then MODE_BYTES else MODE_STR)
      in case string_loop raw mode hashes lx text_empty True of
           (False, lx, bytes, valid) \<Rightarrow>
             push (error_at lx l c (bytes_of ''unterminated string literal''))
               TOKEN_ERROR start l c NoValue
         | (True, lx, bytes, valid) \<Rightarrow>
             if valid
             then push lx (if byte_string then TOKEN_BYTES else TOKEN_STRING) start l c (keep bytes)
             else push lx TOKEN_ERROR start l c NoValue)"

text \<open>The offset of the first byte from \<open>i\<close> on that is not \<open>#\<close>.\<close>

function past_hashes :: "lexer \<Rightarrow> nat \<Rightarrow> nat" where
  "past_hashes lx i = (if at lx i = ascii CHR ''#'' then past_hashes lx (i + 1) else i)"
  by pat_completeness auto
termination
  by (relation "measure (\<lambda>(lx, i). length (src lx) - (pos lx + i))")
    (auto simp: at_def Let_def ascii_def split: if_splits)

declare past_hashes.simps [simp del]

definition starts_string :: "lexer \<Rightarrow> bool" where
  "starts_string lx \<longleftrightarrow>
     (let i = (if at lx 0 = ascii CHR ''b'' then 1 else 0);
          i = (if at lx i = ascii CHR ''r'' then i + 1 else i)
      in at lx (past_hashes lx i) = ascii CHR 0x22)"

section \<open>Symbols\<close>

text \<open>
  The loop over the table: the longest spelling that the source continues with. An entry later
  in the table replaces the best one only when it is longer.
\<close>

definition better_symbol ::
  "byte list \<Rightarrow> (token_kind \<times> nat) option \<Rightarrow> token_kind \<times> string \<times> category \<Rightarrow> (token_kind \<times> nat) option" where
  "better_symbol rest best entry =
     (case entry of (k, s, cat) \<Rightarrow>
        if cat \<noteq> CAT_SYMBOL then best
        else
          let n = length s
          in if n > (case best of None \<Rightarrow> 0 | Some (_, m) \<Rightarrow> m) \<and> n \<le> length rest \<and>
                take n rest = bytes_of s
             then Some (k, n) else best)"

definition longest_symbol :: "byte list \<Rightarrow> (token_kind \<times> nat) option" where
  "longest_symbol rest = foldl (better_symbol rest) None kinds"

definition symbol :: "lexer \<Rightarrow> nat \<Rightarrow> nat \<Rightarrow> nat \<Rightarrow> lexer option" where
  "symbol lx start l c =
     (case longest_symbol (drop (pos lx) (src lx)) of
        None \<Rightarrow> None
      | Some (k, n) \<Rightarrow> Some (push (advance_n n lx) k start l c NoValue))"

section \<open>The lexer\<close>

text \<open>A character that starts no token.\<close>

definition unexpected :: "lexer \<Rightarrow> int \<Rightarrow> nat \<Rightarrow> nat \<Rightarrow> nat \<Rightarrow> lexer" where
  "unexpected lx ch start l c =
     (let n = fst (utf8_here lx);
          lx = error_at lx l c
                 (if ch \<ge> 0x80 then bytes_of ''unexpected character outside a literal''
                  else take 39 (bytes_of ''unexpected character `'' @ [word_of_int ch] @ bytes_of ''`''))
      in push (advance_n n lx) TOKEN_ERROR start l c NoValue)"

text \<open>
  The body of the loop of \<open>lex\<close>. The flag of the result says whether the loop goes on: it does
  not after the token for the end of the file.
\<close>

definition lex_step :: "lexer \<Rightarrow> bool \<times> lexer" where
  "lex_step lx =
     (let lx = skip_trivia lx; start = pos lx; l = line lx; col = column lx; c = at lx 0
      in if c = -1 then (False, push lx TOKEN_EOF start l col NoValue)
         else
           (case doc_marker lx 0 of
              (doc, marker) \<Rightarrow>
                (True,
                 if doc \<noteq> TOKEN_EOF \<and> at lx 1 = ascii CHR ''/'' then line_doc lx doc marker
                 else if doc \<noteq> TOKEN_EOF then block_doc lx doc marker
                 else if (c = ascii CHR ''r'' \<or> c = ascii CHR ''b'' \<or> c = ascii CHR ''#'' \<or>
                          c = ascii CHR 0x22) \<and> starts_string lx
                 then string_token lx start l col
                 else if is_ident_start c then identifier_token lx start l col
                 else if is_digit c then number lx start l col
                 else if c = ascii CHR 0x27 then character lx start l col
                 else
                   (case symbol lx start l col of
                      Some lx' \<Rightarrow> lx'
                    | None \<Rightarrow> unexpected lx c start l col))))"

partial_function (option) lex_loop :: "lexer \<Rightarrow> lexer option" where
  "lex_loop lx =
     (case lex_step lx of (continues, lx') \<Rightarrow> if continues then lex_loop lx' else Some lx')"

declare lex_loop.simps [code]

text \<open>\<open>lex\<close> returns its flag. The result here is the final state, whose field \<open>ok\<close> is that flag.\<close>

definition lex_start :: "byte list \<Rightarrow> lexer" where
  "lex_start source =
     \<lparr>src = source, pos = (if take 3 source = [0xEF, 0xBB, 0xBF] then 3 else 0), line = 1,
      column = 1, diags = [], out = [], ok = True, fault = False\<rparr>"

definition lex :: "byte list \<Rightarrow> lexer option" where
  "lex source =
     (case validate (lex_start source) of
        (False, lx) \<Rightarrow> Some (push lx TOKEN_EOF (pos lx) 1 1 NoValue)
      | (True, lx) \<Rightarrow> lex_loop lx)"

end
