(* ===== verification/LexerRun.thy ===== *)
theory LexerRun
  imports Lexer
begin

text \<open>
  What the functions of the lexer do to its state, as a step relation. \<open>run a b\<close> says that \<open>b\<close>
  comes from \<open>a\<close> by reading bytes that the source holds and by reporting errors, and
  \<open>token_of a b\<close> that at most one token, which starts at the position of \<open>a\<close>, is pushed after
  such a run. Every function of the lexer is such a run, so a property of the whole lexer is an
  induction over its rules.
\<close>

section \<open>Runs\<close>

inductive run :: "lexer \<Rightarrow> lexer \<Rightarrow> bool" where
  run_refl: "run a a"
| run_advance: "run a b \<Longrightarrow> pos b < length (src b) \<Longrightarrow> run a (advance b)"
| run_error: "run a b \<Longrightarrow> run a (error_at b l c m)"

inductive_cases run_elim: "run a b"

declare run_refl [simp, intro]

definition token_of :: "lexer \<Rightarrow> lexer \<Rightarrow> bool" where
  "token_of a b \<longleftrightarrow> (\<exists>m. run a m \<and>
     (b = m \<or> (\<exists>k v. b = push m k (pos a) (line a) (column a) v)))"

lemma token_of_run: "run a b \<Longrightarrow> token_of a b"
  by (auto simp: token_of_def)

lemma token_of_push [simp]:
  "run a m \<Longrightarrow> token_of a (push m k (pos a) (line a) (column a) v)"
  by (auto simp: token_of_def)

lemma run_trans: "run b c \<Longrightarrow> run a b \<Longrightarrow> run a c"
  by (induction rule: run.induct) (auto intro: run.intros)

lemma run_error_iff [simp]: "run a b \<Longrightarrow> run a (error_at b l c m)"
  by (rule run_error)

lemma src_run: "run a b \<Longrightarrow> src b = src a"
  by (induction rule: run.induct) auto

lemma run_moved: "run a b \<Longrightarrow> moved a b"
  by (induction rule: run.induct) (auto intro: movedI)

lemma run_within: "run a b \<Longrightarrow> pos a \<le> length (src a) \<Longrightarrow> pos b \<le> length (src a)"
  by (induction rule: run.induct) (auto simp: pos_advance src_run)

lemma at_advance: "pos lx < length (src lx) \<Longrightarrow> at (advance lx) i = at lx (Suc i)"
  by (simp add: at_def advance_def)

lemma at_error_at [simp]: "at (error_at lx l c m) i = at lx i"
  by (simp add: at_def Let_def)

text \<open>A test that holds of the byte \<open>i\<close> ahead shows that the source goes that far.\<close>

lemma at_within: "at lx i = ascii ch \<Longrightarrow> pos lx + i < length (src lx)"
  using at_ge_0 [of lx i] ascii_ge_0 [of ch] by simp

lemma at_within_class:
  "is_hex (at lx i) \<Longrightarrow> pos lx + i < length (src lx)"
  "is_digit (at lx i) \<Longrightarrow> pos lx + i < length (src lx)"
  "is_ident_char (at lx i) \<Longrightarrow> pos lx + i < length (src lx)"
  "is_ident_start (at lx i) \<Longrightarrow> pos lx + i < length (src lx)"
  "is_blank (at lx i) \<Longrightarrow> pos lx + i < length (src lx)"
  "valid_digit h (at lx i) \<Longrightarrow> pos lx + i < length (src lx)"
  using at_ge_0 [of lx i]
  by (auto simp: is_hex_def is_digit_def is_ident_char_def is_ident_start_def is_blank_def
      valid_digit_def ascii_def split: if_splits)

lemma at_within_num:
  "at lx i = 9 \<Longrightarrow> pos lx + i < length (src lx)"
  "at lx i = 10 \<Longrightarrow> pos lx + i < length (src lx)"
  "at lx i = 13 \<Longrightarrow> pos lx + i < length (src lx)"
  "at lx i \<noteq> -1 \<Longrightarrow> pos lx + i < length (src lx)"
  using at_ge_0 [of lx i] at_end [of lx i] by auto

lemmas within = at_within at_within_class at_within_num
lemmas within0 = within [where i = 0, simplified]

lemma run_advance_n:
  "run a b \<Longrightarrow> pos b + n \<le> length (src b) \<Longrightarrow> run a (advance_n n b)"
proof (induction n arbitrary: b)
  case (Suc n)
  then have "run a (advance b)" by (intro run_advance) auto
  then show ?case using Suc by (simp add: pos_advance)
qed simp

lemma run_advance_while: "run a b \<Longrightarrow> run a (advance_while P b)"
proof (induction P b rule: advance_while.induct)
  case (1 P lx)
  then show ?case
    by (cases "pos lx < length (src lx) \<and> P lx")
      (auto simp: advance_while.simps [of P lx] intro: run_advance)
qed

lemma run_advance_at: "run a b \<Longrightarrow> at b 0 = ascii ch \<Longrightarrow> run a (advance b)"
  by (rule run_advance) (auto dest: within0)

lemma run_advance_byte: "run a b \<Longrightarrow> at b 0 \<noteq> -1 \<Longrightarrow> run a (advance b)"
  by (rule run_advance) (auto dest: within0)

section \<open>Comments\<close>

lemma doc_marker_within:
  assumes "doc_marker lx n = (k, len)" and "k \<noteq> TOKEN_EOF"
  shows "pos lx + n + len \<le> length (src lx)"
proof -
  have "at lx (n + 2) \<noteq> -1 \<and> (len = 4 \<longrightarrow> at lx (n + 3) \<noteq> -1) \<and> (len = 3 \<or> len = 4)"
    using assms by (auto simp: doc_marker_def Let_def ascii_def split: if_splits)
  then show ?thesis by (auto simp: at_end)
qed

lemma run_line_text:
  assumes "line_text marker lx raw = (lx', raw')" and "pos lx + marker \<le> length (src lx)"
    and "run a lx"
  shows "run a lx'"
  using assms by (auto simp: line_text_def Let_def intro: run_advance_while run_advance_n)

lemma next_marker_within:
  assumes "next_marker lx k = Some (n, len)" and "k \<noteq> TOKEN_EOF"
  shows "pos lx + n + len \<le> length (src lx)"
  using assms doc_marker_within
  by (force simp: next_marker_def Let_def split: prod.splits if_splits)

lemma run_line_doc_loop:
  assumes "line_doc_loop k marker lx raw = (lx', raw')" and "k \<noteq> TOKEN_EOF"
    and "pos lx + marker \<le> length (src lx)" and "run a lx"
  shows "run a lx'"
  using assms
proof (induction k marker lx raw arbitrary: lx' raw' rule: line_doc_loop.induct)
  case (1 k marker lx raw)
  obtain lx1 raw1 where t: "line_text marker lx raw = (lx1, raw1)"
    by (cases "line_text marker lx raw")
  then have r1: "run a lx1" using 1 by (auto intro: run_line_text)
  show ?case
  proof (cases "at lx1 0 = 10")
    case False
    with 1(2) t r1 show ?thesis by (subst (asm) line_doc_loop.simps) simp
  next
    case nl: True
    show ?thesis
    proof (cases "next_marker lx1 k")
      case None
      with 1(2) t nl r1 show ?thesis by (subst (asm) line_doc_loop.simps) simp
    next
      case (Some p)
      obtain n len where p: "p = (n, len)" by (cases p)
      have w: "pos lx1 + n + len \<le> length (src lx1)"
        using Some p 1 by (auto intro: next_marker_within)
      have "line_doc_loop k len (advance_n n lx1) (text_append raw1 [10, 0]) = (lx', raw')"
        using 1(2) t nl Some p by (subst (asm) line_doc_loop.simps) simp
      moreover have "run a (advance_n n lx1)" using r1 w by (intro run_advance_n) auto
      ultimately show ?thesis
        using 1(1) [OF t [symmetric], of "(n, len)" n len lx' raw'] nl Some p 1 w
        by (simp add: pos_advance_n)
    qed
  qed
qed

lemma token_of_push_doc:
  "run a lx \<Longrightarrow> token_of a (push_doc lx k (pos a) (line a) (column a) raw)"
  by (simp add: push_doc_def Let_def)

lemma token_of_line_doc:
  assumes "doc_marker lx 0 = (k, marker)" and "k \<noteq> TOKEN_EOF"
  shows "token_of lx (line_doc lx k marker)"
proof -
  obtain lx1 raw where l: "line_doc_loop k marker lx text_empty = (lx1, raw)"
    by (cases "line_doc_loop k marker lx text_empty")
  have "run lx lx1"
    using run_line_doc_loop [OF l] assms doc_marker_within [of lx 0] by auto
  with l show ?thesis by (simp add: line_doc_def token_of_push_doc)
qed

lemma run_skip_block:
  assumes "skip_block lx n = (b, lx')" and "pos lx + n \<le> length (src lx)" and "run a lx"
  shows "run a lx'"
proof -
  let ?w = "advance_while (\<lambda>lx. \<not> at_close lx) (advance_n n lx)"
  have r: "run a ?w" using assms(2,3) by (intro run_advance_while run_advance_n)
  show ?thesis
  proof (cases "at_close ?w")
    case True
    then have "at ?w 0 = ascii CHR ''*''" "at ?w 1 = ascii CHR ''/''"
      by (auto simp: at_close_def)
    then have "pos ?w + 1 < length (src ?w)" by (auto dest: within)
    then have "run a (advance (advance ?w))"
      using r by (intro run_advance) (auto simp: pos_advance)
    with True assms(1) show ?thesis by (auto simp: skip_block_def Let_def)
  next
    case False
    with r assms(1) show ?thesis by (auto simp: skip_block_def Let_def)
  qed
qed

lemma find_close_within: "find_close lx i = Some j \<Longrightarrow> i \<le> j \<and> pos lx + j + 1 < length (src lx)"
proof (induction lx i rule: find_close.induct)
  case (1 lx i)
  then show ?case
    by (subst (asm) (2) find_close.simps) (fastforce dest: within split: if_splits)
qed

lemma trim_blanks_le: "trim_blanks lx i \<le> i"
  by (induction i) auto


lemma advance_while_stops:
  "\<not> (pos (advance_while P lx) < length (src lx) \<and> P (advance_while P lx))"
proof (induction P lx rule: advance_while.induct)
  case (1 P lx)
  then show ?case
    by (cases "pos lx < length (src lx) \<and> P lx") (auto simp: advance_while.simps [of P lx])
qed

lemma run_close: "run a b \<Longrightarrow> at_close b \<Longrightarrow> run a (advance (advance b))"
  using at_within [of b 1 "CHR ''/''"]
  by (intro run_advance) (auto simp: at_close_def pos_advance)

lemma run_block_lines:
  assumes "block_lines l c first lx raw = (lx', r)" and "run a lx"
  shows "run a lx'"
  using assms
proof (induction l c first lx raw arbitrary: lx' r rule: block_lines.induct)
  case (1 l c first lx raw)
  let ?w = "advance_while (\<lambda>lx. \<not> at_block_line_end lx) lx"
  have w: "run a ?w" using 1 by (intro run_advance_while)
  have stop: "at ?w 0 \<noteq> -1 \<Longrightarrow> at_block_line_end ?w"
    using advance_while_stops [of "\<lambda>lx. \<not> at_block_line_end lx" lx] at_end [of ?w 0] by auto
  consider (e) "at ?w 0 = -1" | (close) "at ?w 0 = ascii CHR ''*''" "at ?w 0 \<noteq> -1"
    | (again) "at ?w 0 \<noteq> -1" "at ?w 0 \<noteq> ascii CHR ''*''"
    by blast
  then show ?case
  proof cases
    case e
    with 1(2) w show ?thesis by (subst (asm) block_lines.simps) (auto simp: Let_def)
  next
    case close
    with stop have "at_close ?w"
      by (auto simp: at_block_line_end_def at_line_end_def ascii_def)
    then have "run a (advance (advance ?w))" using w by (rule run_close [rotated])
    with 1(2) close show ?thesis
      by (subst (asm) block_lines.simps) (auto simp: Let_def split: if_splits)
  next
    case again
    have "run a (advance ?w)" using w again by (intro run_advance_byte)
    moreover have "block_lines l c False (advance ?w)
        (take_line ?w (pos lx) (if \<not> first then text_append raw [10, 0] else raw)) = (lx', r)"
      using 1(2) again by (subst (asm) block_lines.simps) (simp add: Let_def)
    ultimately show ?thesis
      using 1(1) [OF refl refl refl refl _ _ refl] again by (simp cong: if_cong)
  qed
qed

lemma token_of_block_doc:
  assumes "doc_marker lx 0 = (k, marker)" and "k \<noteq> TOKEN_EOF"
  shows "token_of lx (block_doc lx k marker)"
proof -
  let ?w = "advance_while (\<lambda>lx. is_blank (at lx 0)) (advance_n marker lx)"
  have w: "run lx ?w"
    using doc_marker_within [OF assms] by (intro run_advance_while run_advance_n) auto
  show ?thesis
  proof (cases "find_close ?w 0")
    case (Some i)
    let ?i = "trim_blanks ?w i"
    obtain b lx2 where sb: "skip_block (advance_n ?i ?w) 0 = (b, lx2)"
      by (cases "skip_block (advance_n ?i ?w) 0")
    have "pos ?w + ?i \<le> length (src ?w)"
      using find_close_within [OF Some] trim_blanks_le [of ?w i] by simp
    then have "run lx (advance_n ?i ?w)" using w by (intro run_advance_n)
    then have "run lx lx2"
      using run_within [of lx "advance_n ?i ?w"] doc_marker_within [OF assms]
      by (intro run_skip_block [OF sb]) (auto simp: src_run)
    with Some sb show ?thesis by (simp add: block_doc_def Let_def token_of_push_doc)
  next
    case None
    show ?thesis
    proof (cases "at ?w 0 = 10")
      case False
      obtain b lx2 where sb: "skip_block ?w 0 = (b, lx2)" by (cases "skip_block ?w 0")
      have "run lx lx2"
        using w run_within [OF w] doc_marker_within [OF assms]
        by (intro run_skip_block [OF sb]) (auto simp: src_run)
      with None False sb show ?thesis
        by (simp add: block_doc_def Let_def token_of_run split: prod.splits)
    next
      case True
      then have n: "run lx (advance ?w)" using w by (intro run_advance_byte) auto
      obtain lx2 r where bl: "block_lines (line lx) (column lx) True (advance ?w) text_empty = (lx2, r)"
        by (cases "block_lines (line lx) (column lx) True (advance ?w) text_empty")
      then have "run lx lx2" using n by (rule run_block_lines)
      with None True bl show ?thesis
        by (auto simp: block_doc_def Let_def token_of_run token_of_push_doc split: option.splits)
    qed
  qed
qed

lemma run_skip_trivia: "run a lx \<Longrightarrow> run a (skip_trivia lx)"
proof (induction lx rule: skip_trivia.induct)
  case (1 lx)
  consider (blank) "at lx 0 = ascii CHR '' '' \<or> at lx 0 = 9 \<or> at lx 0 = 13 \<or> at lx 0 = 10"
    | (stop) "\<not> (at lx 0 = ascii CHR '' '' \<or> at lx 0 = 9 \<or> at lx 0 = 13 \<or> at lx 0 = 10)"
        "at lx 0 \<noteq> ascii CHR ''/'' \<or> fst (doc_marker lx 0) \<noteq> TOKEN_EOF"
    | (line) "at lx 0 = ascii CHR ''/''" "fst (doc_marker lx 0) = TOKEN_EOF"
        "at lx 1 = ascii CHR ''/''"
    | (block) "at lx 0 = ascii CHR ''/''" "fst (doc_marker lx 0) = TOKEN_EOF"
        "at lx 1 = ascii CHR ''*''"
    | (other) "at lx 0 = ascii CHR ''/''" "fst (doc_marker lx 0) = TOKEN_EOF"
        "at lx 1 \<noteq> ascii CHR ''*''" "at lx 1 \<noteq> ascii CHR ''/''"
    by blast
  then show ?case
  proof cases
    case blank
    then have "run a (advance lx)" using 1 by (intro run_advance) (auto dest: within0)
    with blank 1 show ?thesis by (subst skip_trivia.simps) (simp add: Let_def)
  next
    case stop
    with 1 show ?thesis by (subst skip_trivia.simps) (auto simp: Let_def)
  next
    case line
    then show ?thesis
      using 1 by (subst skip_trivia.simps) (auto simp: Let_def ascii_def intro: run_advance_while)
  next
    case block
    obtain b lx2 where sb: "skip_block lx 2 = (b, lx2)" by (cases "skip_block lx 2")
    have "run a lx2"
      using block 1 by (intro run_skip_block [OF sb]) (auto dest: at_within)
    with block 1 sb show ?thesis
      by (subst skip_trivia.simps) (cases b, auto simp: Let_def ascii_def)
  next
    case other
    with 1 show ?thesis by (subst skip_trivia.simps) (auto simp: Let_def ascii_def)
  qed
qed

section \<open>Words and numbers\<close>

lemma run_digit_run: "digit_run hex lx d = (b, lx', d') \<Longrightarrow> run a lx \<Longrightarrow> run a lx'"
proof (induction hex lx d arbitrary: b lx' d' rule: digit_run.induct)
  case (1 hex lx d)
  show ?case
  proof (cases "valid_digit hex (at lx 0) \<or> at lx 0 = ascii CHR ''_''")
    case True
    then have "run a (advance lx)"
      using 1(4) by (intro run_advance) (auto dest: within0)
    then show ?thesis
      using 1 True by (auto simp: digit_run.simps [of hex lx d] split: if_splits)
  next
    case False
    with 1 show ?thesis by (simp add: digit_run.simps [of hex lx d])
  qed
qed

lemma token_of_number_error:
  "run a lx \<Longrightarrow> token_of a (number_error lx (pos a) (line a) (column a) msg)"
  by (simp add: number_error_def Let_def run_advance_while)

lemma token_of_number_int:
  "run a lx \<Longrightarrow> token_of a (number_int lx hex d (pos a) (line a) (column a))"
  by (auto simp: number_int_def token_of_number_error split: option.splits)

lemma token_of_number_float:
  assumes r: "run a lx" and dot: "at lx 0 = ascii CHR ''.''"
  shows "token_of a (number_float lx d (pos a) (line a) (column a))"
proof -
  have r1: "run a (advance lx)" using r dot by (rule run_advance_at)
  obtain b lx2 d2 where d2: "digit_run False (advance lx) (text_append d (bytes_of ''.'')) = (b, lx2, d2)"
    by (cases "digit_run False (advance lx) (text_append d (bytes_of ''.''))")
  have r2: "run a lx2" using d2 r1 by (rule run_digit_run)
  have r3: "run a (advance lx2)"
    if "at lx2 0 = ascii CHR ''e'' \<or> at lx2 0 = ascii CHR ''E''"
    using that r2 by (auto intro: run_advance_at)
  have r4: "run a (advance (advance lx2))"
    if "at lx2 0 = ascii CHR ''e'' \<or> at lx2 0 = ascii CHR ''E''"
      "at (advance lx2) 0 = ascii CHR ''+'' \<or> at (advance lx2) 0 = ascii CHR ''-''"
    using that r3 by (auto intro: run_advance_at)
  let ?finish = "\<lambda>lx digits. if is_ident_char (at lx 0)
      then number_error lx (pos a) (line a) (column a) ''invalid character in numeric literal''
      else push lx TOKEN_FLOAT (pos a) (line a) (column a) (keep digits)"
  have finish: "run a m \<Longrightarrow> token_of a (?finish m digits)" for m digits
    by (simp add: token_of_number_error)
  have exponent: "run a m \<Longrightarrow> token_of a (case digit_run False m e of
       (False, lx, digits) \<Rightarrow> number_error lx (pos a) (line a) (column a)
          ''`_` must stand between two digits''
     | (True, lx, digits) \<Rightarrow> ?finish lx digits)" for m e
    using run_digit_run finish
    by (cases "digit_run False m e") (auto simp: token_of_number_error split: bool.splits)
  show ?thesis
  proof (cases b)
    case False
    with r2 d2 show ?thesis by (simp add: number_float_def token_of_number_error)
  next
    case True
    show ?thesis
    proof (cases "at lx2 0 = ascii CHR ''e'' \<or> at lx2 0 = ascii CHR ''E''")
      case False
      then show ?thesis
        using finish [OF r2] d2 True unfolding number_float_def Let_def by simp
    next
      case e: True
      show ?thesis
      proof (cases "at (advance lx2) 0 = ascii CHR ''+'' \<or> at (advance lx2) 0 = ascii CHR ''-''")
        case True
        then show ?thesis
          using exponent r4 e d2 \<open>b\<close> unfolding number_float_def Let_def
          by (simp add: token_of_number_error)
      next
        case False
        then show ?thesis
          using exponent r3 e d2 \<open>b\<close> unfolding number_float_def Let_def
          by (simp add: token_of_number_error)
      qed
    qed
  qed
qed

lemma token_of_number: "token_of lx (number lx (pos lx) (line lx) (column lx))"
proof -
  let ?hex = "at lx 0 = ascii CHR ''0'' \<and> at lx 1 = ascii CHR ''x''"
  let ?lx = "if ?hex then advance (advance lx) else lx"
  have r: "run lx ?lx"
    by (auto intro!: run_advance dest: within simp: pos_advance)
  obtain b lx2 d2 where d2: "digit_run ?hex ?lx text_empty = (b, lx2, d2)"
    by (cases "digit_run ?hex ?lx text_empty")
  have "run lx lx2" using d2 r by (rule run_digit_run)
  with r show ?thesis
    unfolding number_def Let_def d2 prod.case
    by (auto simp: token_of_number_error token_of_number_int token_of_number_float
        split: bool.splits simp del: if_split)
qed

lemma token_of_identifier: "token_of lx (identifier_token lx (pos lx) (line lx) (column lx))"
  by (simp add: identifier_token_def Let_def run_advance_while)

section \<open>Literals\<close>

lemma run_unicode_digits:
  "unicode_digits lx n cp = (lx', n', cp') \<Longrightarrow> run a lx \<Longrightarrow> run a lx'"
proof (induction lx n cp arbitrary: lx' n' cp' rule: unicode_digits.induct)
  case (1 lx n cp)
  then show ?case
    by (auto simp: unicode_digits.simps [of lx n cp] split: if_splits intro: run_advance
        dest: within0)
qed

lemma run_escape_hex:
  assumes "escape_hex lx mode l c = (lx', v)" and "run a lx"
  shows "run a lx'"
proof -
  have "run a (advance (advance lx))" if "is_hex (at lx 0)" "is_hex (at lx 1)"
    using assms(2) that by (intro run_advance) (auto dest: within simp: pos_advance)
  with assms show ?thesis
    by (auto simp: escape_hex_def Let_def split: if_splits)
qed

lemma run_escape_unicode:
  assumes "escape_unicode lx mode l c = (lx', v)" and "run a lx"
  shows "run a lx'"
proof (cases "at lx 0 = ascii CHR ''{''")
  case True
  obtain lx1 n cp where u: "unicode_digits (advance lx) 0 0 = (lx1, n, cp)"
    by (cases "unicode_digits (advance lx) 0 0")
  have r: "run a lx1"
    using True assms(2) by (intro run_unicode_digits [OF u] run_advance_at)
  have "run a (advance lx1)" if "at lx1 0 = ascii CHR ''}''"
    using r that by (rule run_advance_at)
  with r True u assms(1) show ?thesis
    by (auto simp: escape_unicode_def Let_def split: if_splits)
next
  case False
  with assms show ?thesis by (auto simp: escape_unicode_def Let_def)
qed

lemma run_escape:
  assumes "escape lx mode = (lx', v)" and "run a lx" and "at lx 0 \<noteq> -1"
  shows "run a lx'"
proof -
  have r1: "run a (advance lx)" using assms(2,3) by (rule run_advance_byte)
  show ?thesis
  proof (cases "at lx 1 = -1")
    case True
    with r1 assms(1) show ?thesis by (auto simp: escape_def Let_def)
  next
    case False
    then have r2: "run a (advance (advance lx))"
      using run_advance_byte [OF r1] assms(3) at_end [of lx 0] by (simp add: at_advance)
    show ?thesis
      using assms(1) False r2 run_escape_hex run_escape_unicode
      unfolding escape_def Let_def
      by (auto split: if_splits elim: run_escape_hex run_escape_unicode)
  qed
qed

lemma utf8_length_within: "utf8_length s = Some (n, cp) \<Longrightarrow> 0 < n \<and> n \<le> length s"
proof -
  assume "utf8_length s = Some (n, cp)"
  from utf8_length_sound [OF this]
  have s: "s = encode cp @ drop n s" and n: "n = length (encode cp)" and cp: "scalar cp" by auto
  have "length s = n + length (drop n s)" by (subst s) (simp add: n)
  with n encode_length_pos [of cp] cp show ?thesis by simp
qed

lemma run_utf8_here: "utf8_here lx = (n, cp) \<Longrightarrow> run a lx \<Longrightarrow> run a (advance_n n lx)"
proof (cases "utf8_length (drop (pos lx) (src lx))")
  case (Some r)
  assume "utf8_here lx = (n, cp)" "run a lx"
  with utf8_length_within Some show ?thesis
    by (intro run_advance_n) (fastforce simp: utf8_here_def)+
qed (simp add: utf8_here_def)

lemma find_quote_within: "find_quote i bs = Some j \<Longrightarrow> i \<le> j \<and> j < i + length bs"
  by (induction i bs rule: find_quote.induct) (fastforce split: if_splits)+

lemma token_of_close_character:
  assumes r: "run a lx"
  shows "token_of a (close_character lx v (pos a) (line a) (column a))"
proof -
  have "run a (advance_n (Suc i - pos lx) (error_at lx l c m))"
    if "find_quote (pos lx) (drop (pos lx) (src lx)) = Some i" for i l c m
    using find_quote_within [OF that] r by (intro run_advance_n) auto
  moreover have "run a (advance lx)" if "at lx 0 = ascii CHR 0x27"
    using r that by (rule run_advance_at)
  ultimately show ?thesis using r by (auto simp: close_character_def split: option.splits)
qed

lemma token_of_character:
  assumes "at lx 0 = ascii CHR 0x27"
  shows "token_of lx (character lx (pos lx) (line lx) (column lx))"
proof -
  let ?a = "advance lx"
  have r: "run lx ?a" using assms by (intro run_advance_at) auto
  have quote: "run lx (advance ?a)" if "at ?a 0 = ascii CHR 0x27"
    using r that by (rule run_advance_at)
  obtain b v where esc: "escape ?a MODE_CHAR = (b, v)" by (cases "escape ?a MODE_CHAR")
  have "run lx b" if "at ?a 0 \<noteq> -1" using run_escape [OF esc r that] .
  moreover obtain n cp where utf: "utf8_here ?a = (n, cp)" by (cases "utf8_here ?a")
  moreover have "run lx (advance_n n ?a)" using utf r by (rule run_utf8_here)
  ultimately show ?thesis
    using r quote esc by (simp add: character_def Let_def token_of_close_character)
qed

lemma closing_hashes_all:
  "closing_hashes lx n i = i + n \<Longrightarrow> pos lx + i < length (src lx) \<Longrightarrow>
     pos lx + 1 + i + n \<le> length (src lx)"
proof (induction lx n i rule: closing_hashes.induct)
  case (2 lx n i)
  show ?case
  proof (cases "at lx (1 + i) = ascii CHR ''#''")
    case True
    then have "pos lx + (i + 1) < length (src lx)" using at_within [of lx "1 + i"] by simp
    with 2 True show ?thesis by simp
  next
    case False
    with 2 show ?thesis by simp
  qed
qed simp

lemma string_loop_end:
  "string_loop raw mode hashes lx bytes valid = (b, lx', bytes', valid') \<Longrightarrow> run a lx \<Longrightarrow>
     \<exists>m. run a m \<and>
       (if b then at m 0 = ascii CHR 0x22 \<and> closing_hashes m hashes 0 = hashes \<and>
                  lx' = advance_n hashes (advance m)
        else at m 0 = -1 \<and> lx' = m)"
proof (induction raw mode hashes lx bytes valid arbitrary: b lx' bytes' valid'
    rule: string_loop.induct)
  case (1 raw mode hashes lx bytes valid)
  note IH = 1(1-6)
  note result = 1(7) [unfolded string_loop.simps [of raw mode hashes lx bytes valid] Let_def]
  have r1: "run a (advance lx)" if "at lx 0 \<noteq> -1" using 1(8) that by (rule run_advance_byte)
  consider (eof) "at lx 0 = -1"
    | (quote) "at lx 0 = ascii CHR 0x22" | (escape) "at lx 0 = ascii CHR 0x5C" "\<not> raw"
    | (crlf) "at lx 0 \<noteq> -1" "at lx 0 \<noteq> ascii CHR 0x22" "\<not> (at lx 0 = ascii CHR 0x5C \<and> \<not> raw)"
        "at lx 0 = 13 \<and> at lx 1 = 10"
    | (nul) "at lx 0 \<noteq> -1" "at lx 0 \<noteq> ascii CHR 0x22" "\<not> (at lx 0 = ascii CHR 0x5C \<and> \<not> raw)"
        "\<not> (at lx 0 = 13 \<and> at lx 1 = 10)" "at lx 0 = 0 \<and> mode \<noteq> MODE_BYTES"
    | (other) "at lx 0 \<noteq> -1" "at lx 0 \<noteq> ascii CHR 0x22" "\<not> (at lx 0 = ascii CHR 0x5C \<and> \<not> raw)"
        "\<not> (at lx 0 = 13 \<and> at lx 1 = 10)" "\<not> (at lx 0 = 0 \<and> mode \<noteq> MODE_BYTES)"
    by blast
  then show ?case
  proof cases
    case eof
    with result 1(8) show ?thesis by simp
  next
    case quote
    then have ne: "at lx 0 \<noteq> -1" using ascii_ge_0 [of "CHR 0x22"] by simp
    show ?thesis
    proof (cases "closing_hashes lx hashes 0 = hashes")
      case True
      with result quote ne 1(8) show ?thesis by (intro exI [of _ lx]) auto
    next
      case False
      with result quote ne have "string_loop raw mode hashes (advance lx)
          (append_byte bytes (of_char CHR 0x22)) valid = (b, lx', bytes', valid')" by simp
      from IH(1) [OF refl ne quote False this r1 [OF ne]] show ?thesis .
    qed
  next
    case escape
    have ne: "at lx 0 \<noteq> -1" using escape ascii_ge_0 [of "CHR 0x5C"] by simp
    have nq: "at lx 0 \<noteq> ascii CHR 0x22" using escape by (simp add: ascii_def)
    obtain lx1 v where e: "escape lx mode = (lx1, v)" by (cases "escape lx mode")
    have r: "run a lx1" using e 1(8) ne by (rule run_escape)
    show ?thesis
    proof (cases v)
      case None
      with result escape ne nq e have "string_loop raw mode hashes lx1 bytes False
          = (b, lx', bytes', valid')" by simp
      from IH(2) [OF refl ne nq conjI [OF escape] e [symmetric] None this r] show ?thesis .
    next
      case (Some w)
      with result escape ne nq e have "string_loop raw mode hashes lx1 (put_escaped bytes w) valid
          = (b, lx', bytes', valid')" by simp
      from IH(3) [OF refl ne nq conjI [OF escape] e [symmetric] Some this r] show ?thesis .
    qed
  next
    case crlf
    have "pos lx + 1 < length (src lx)" using crlf at_ge_0 [of lx 1] by simp
    then have r: "run a (advance (advance lx))"
      using run_advance [OF r1 [OF crlf(1)]] by (simp add: pos_advance)
    from crlf result have "string_loop raw mode hashes (advance (advance lx)) (append_byte bytes 10)
        valid = (b, lx', bytes', valid')" by (simp add: ascii_def)
    from IH(4) [OF refl crlf this r] show ?thesis .
  next
    case nul
    have r: "run a (advance (no_nul_error lx))"
      using nul 1(8) by (intro run_advance_byte) (auto simp: no_nul_error_def)
    from nul result have "string_loop raw mode hashes (advance (no_nul_error lx)) bytes False
        = (b, lx', bytes', valid')" by (simp add: ascii_def)
    from IH(5) [OF refl nul this r] show ?thesis .
  next
    case other
    with result have "string_loop raw mode hashes (advance lx) (append_byte bytes (word_of_int (at lx 0)))
        valid = (b, lx', bytes', valid')" by (auto simp: ascii_def split: if_splits)
    from IH(6) [OF refl other this r1 [OF other(1)]] show ?thesis .
  qed
qed

lemma run_string_loop:
  assumes "string_loop raw mode hashes lx bytes valid = (b, lx', bytes', valid')" and "run a lx"
  shows "run a lx'"
proof -
  obtain m where m: "run a m"
      "if b then at m 0 = ascii CHR 0x22 \<and> closing_hashes m hashes 0 = hashes \<and>
                 lx' = advance_n hashes (advance m)
       else at m 0 = -1 \<and> lx' = m"
    using string_loop_end [OF assms] by blast
  show ?thesis
  proof (cases b)
    case True
    then have q: "at m 0 = ascii CHR 0x22" and h: "closing_hashes m hashes 0 = 0 + hashes"
      using m(2) by auto
    have "pos (advance m) + hashes \<le> length (src (advance m))"
      using closing_hashes_all [OF h] at_within [OF q] by (simp add: pos_advance)
    with True m q show ?thesis by (auto intro: run_advance_n run_advance_at)
  next
    case False
    with m show ?thesis by simp
  qed
qed

text \<open>A prefix that \<open>starts_string\<close> accepts is followed by the opening quote.\<close>

lemma past_hashes_shift:
  "(\<And>j. at b j = at lx (i + j)) \<Longrightarrow> past_hashes lx (i + j) = i + past_hashes b j"
proof (induction b j rule: past_hashes.induct)
  case (1 b j)
  then show ?case
    by (cases "at b j = ascii CHR ''#''")
      (simp_all add: past_hashes.simps [of b j] past_hashes.simps [of lx "i + j"])
qed

lemma past_hashes_advance:
  "at (advance_while (\<lambda>lx. at lx 0 = ascii CHR ''#'') b) 0 = at b (past_hashes b 0)"
proof (induction "\<lambda>lx. at lx 0 = ascii CHR ''#''" b rule: advance_while.induct)
  case (1 b)
  show ?case
  proof (cases "at b 0 = ascii CHR ''#''")
    case True
    then have lt: "pos b < length (src b)" using at_within [of b 0] by simp
    then have "past_hashes b (1 + 0) = 1 + past_hashes (advance b) 0"
      by (intro past_hashes_shift) (simp add: at_advance)
    with True lt 1 show ?thesis
      by (simp add: advance_while.simps [of _ b] past_hashes.simps [of b 0] at_advance)
  next
    case False
    then show ?thesis by (simp add: advance_while.simps [of _ b] past_hashes.simps [of b 0])
  qed
qed

lemma token_of_string:
  assumes start: "starts_string lx"
  shows "token_of lx (string_token lx (pos lx) (line lx) (column lx))"
proof -
  let ?b = "if at lx 0 = ascii CHR ''b'' then advance lx else lx"
  let ?r = "if at ?b 0 = ascii CHR ''r'' then advance ?b else ?b"
  let ?h = "advance_while (\<lambda>lx. at lx 0 = ascii CHR ''#'') ?r"
  define i where "i = (if at lx 0 = ascii CHR ''b'' then 1 else 0 :: nat)"
  define j where "j = (if at lx i = ascii CHR ''r'' then i + 1 else i)"
  have b: "run lx ?b" "at ?b n = at lx (i + n)" for n
    using at_within [of lx 0 "CHR ''b''"]
    by (auto simp: i_def at_advance intro: run_advance_at)
  have r: "run lx ?r"
    using b(1) by (auto intro: run_advance_at simp del: if_split split: if_split)
  have rj: "at ?r n = at lx (j + n)" for n
    using b(2) [of 0] b(2) [of "Suc n"] b(2) [of n] at_within [of ?b 0 "CHR ''r''"]
    by (cases "at ?b 0 = ascii CHR ''r''") (simp_all add: j_def at_advance)
  then have "past_hashes lx (j + 0) = j + past_hashes ?r 0" by (rule past_hashes_shift)
  moreover have "at ?h 0 = at lx (j + past_hashes ?r 0)" by (simp only: past_hashes_advance rj)
  moreover have "at lx (past_hashes lx j) = ascii CHR 0x22"
    using start by (simp only: starts_string_def Let_def i_def j_def)
  ultimately have quote: "at ?h 0 = ascii CHR 0x22" by (simp only: add_0_right)
  have q: "run lx (advance ?h)"
    using r quote by (intro run_advance_at [OF run_advance_while])
  have tok: "token_of lx (case string_loop raw mode n (advance ?h) text_empty True of
           (False, m, bytes, valid) \<Rightarrow>
             push (error_at m (line lx) (column lx) msg) TOKEN_ERROR (pos lx) (line lx) (column lx) NoValue
         | (True, m, bytes, valid) \<Rightarrow>
             if valid then push m k (pos lx) (line lx) (column lx) (keep bytes)
             else push m TOKEN_ERROR (pos lx) (line lx) (column lx) NoValue)" for raw mode n msg k
  proof (cases "string_loop raw mode n (advance ?h) text_empty True")
    case (fields closed m bytes valid)
    then have "run lx m" using q by (rule run_string_loop)
    with fields show ?thesis by (cases closed; cases valid) simp_all
  qed
  show ?thesis unfolding string_token_def Let_def by (rule tok)
qed

section \<open>Symbols and the rest\<close>

lemma better_symbol_within:
  assumes "\<And>k n. best = Some (k, n) \<Longrightarrow> n \<le> length rest"
    and "better_symbol rest best e = Some (k, n)"
  shows "n \<le> length rest"
  using assms by (auto simp: better_symbol_def Let_def split: prod.splits if_splits)

lemma longest_symbol_within: "longest_symbol rest = Some (k, n) \<Longrightarrow> n \<le> length rest"
proof -
  have "(\<And>k n. best = Some (k, n) \<Longrightarrow> n \<le> length rest) \<Longrightarrow>
      foldl (better_symbol rest) best es = Some (k, n) \<Longrightarrow> n \<le> length rest" for best es
  proof (induction es arbitrary: best)
    case (Cons e es)
    show ?case
      by (rule Cons.IH [of "better_symbol rest best e"])
        (use Cons.prems better_symbol_within [of best rest e] in \<open>auto\<close>)
  qed simp
  then show "longest_symbol rest = Some (k, n) \<Longrightarrow> n \<le> length rest"
    unfolding longest_symbol_def by blast
qed

lemma token_of_symbol:
  assumes "symbol lx (pos lx) (line lx) (column lx) = Some lx'" and "pos lx \<le> length (src lx)"
  shows "token_of lx lx'"
proof -
  obtain k n where l: "longest_symbol (drop (pos lx) (src lx)) = Some (k, n)"
    and lx': "lx' = push (advance_n n lx) k (pos lx) (line lx) (column lx) NoValue"
    using assms(1) by (auto simp: symbol_def split: option.splits)
  have "pos lx + n \<le> length (src lx)"
    using longest_symbol_within [OF l] assms(2) by simp
  then show ?thesis unfolding lx' by (intro token_of_push run_advance_n) auto
qed

lemma token_of_unexpected: "token_of lx (unexpected lx ch (pos lx) (line lx) (column lx))"
proof -
  obtain n cp where u: "utf8_here lx = (n, cp)" by (cases "utf8_here lx")
  have "run lx (advance_n n (error_at lx l c m))" for l c m
    by (rule run_utf8_here [of _ n cp]) (use u in \<open>simp_all add: utf8_here_def\<close>)
  with u show ?thesis by (simp add: unexpected_def Let_def)
qed

text \<open>
  One turn of the loop of \<open>lex\<close>: a run over the trivia, and then at most one token. The loop
  ends exactly at the end of the source, with the token for it.
\<close>

theorem lex_step_run:
  assumes "lex_step lx = (continues, lx')" and "pos lx \<le> length (src lx)"
  shows "\<exists>m. run lx m \<and> token_of m lx' \<and>
     (continues \<longleftrightarrow> at m 0 \<noteq> -1) \<and>
     (\<not> continues \<longrightarrow> lx' = push m TOKEN_EOF (pos m) (line m) (column m) NoValue)"
proof -
  let ?m = "skip_trivia lx"
  have r: "run lx ?m" by (simp add: run_skip_trivia)
  have w: "pos ?m \<le> length (src ?m)" using run_within [OF r] assms(2) by (simp add: src_run [OF r])
  obtain k marker where d: "doc_marker ?m 0 = (k, marker)" by (cases "doc_marker ?m 0")
  have "token_of ?m lx'"
    using assms(1) d w
    by (auto simp: lex_step_def Let_def token_of_line_doc token_of_block_doc token_of_string
        token_of_identifier token_of_number token_of_character token_of_unexpected
        split: if_splits option.splits dest: token_of_symbol)
  with r assms(1) d show ?thesis
    by (intro exI [of _ ?m]) (auto simp: lex_step_def Let_def split: if_splits)
qed

end
