(* ===== verification/LexerValues.thy ===== *)
theory LexerValues
  imports LexerRun
begin

text \<open>
  What the tokens hold: the kind of a word, the longest symbol, the value of an integer literal
  and the text of a doc comment.
\<close>

section \<open>Words\<close>

lemma keyword_spellings_distinct:
  "distinct (map (\<lambda>(k, s, c). bytes_of s) (filter (\<lambda>(k, s, c). c = CAT_KEYWORD) kinds))"
  by code_simp

lemma symbol_spellings_distinct:
  "distinct (map (\<lambda>(k, s, c). bytes_of s) (filter (\<lambda>(k, s, c). c = CAT_SYMBOL) kinds))"
  by code_simp

lemma reserved_not_keywords:
  "list_all (\<lambda>r. \<not> list_ex (\<lambda>(k, s, c). c = CAT_KEYWORD \<and> s = r) kinds) reserved"
  by code_simp

lemma keyword_kinds: "list_all (\<lambda>(k, s, c). k \<noteq> TOKEN_IDENT \<and> k \<noteq> TOKEN_RESERVED) kinds"
  by code_simp

lemma distinct_map_inj: "distinct (map f xs) \<Longrightarrow> x \<in> set xs \<Longrightarrow> y \<in> set xs \<Longrightarrow> f x = f y \<Longrightarrow> x = y"
  by (metis distinct_map inj_onD)

lemma find_SomeD: "List.find P xs = Some x \<Longrightarrow> x \<in> set xs \<and> P x"
  by (induction xs) (auto split: if_splits)


section \<open>Symbols\<close>

text \<open>Every spelling of a symbol is ASCII and has at least one byte.\<close>

lemma symbols_ascii: "list_all (\<lambda>(k, s, c). c = CAT_SYMBOL \<longrightarrow>
    s \<noteq> [] \<and> list_all (\<lambda>b. unat b < 128) (bytes_of s)) kinds"
  by code_simp

lemma longest_symbol_in_table:
  "longest_symbol rest = Some (k, n) \<Longrightarrow>
     \<exists>s. (k, s, CAT_SYMBOL) \<in> set kinds \<and> length s = n \<and> take n rest = bytes_of s \<and> n \<le> length rest"
proof -
  have "set es \<subseteq> set kinds \<Longrightarrow>
      (\<And>k n. best = Some (k, n) \<Longrightarrow> \<exists>s. (k, s, CAT_SYMBOL) \<in> set kinds \<and> length s = n \<and>
        take n rest = bytes_of s \<and> n \<le> length rest) \<Longrightarrow>
      foldl (better_symbol rest) best es = Some (k, n) \<Longrightarrow>
      \<exists>s. (k, s, CAT_SYMBOL) \<in> set kinds \<and> length s = n \<and> take n rest = bytes_of s \<and> n \<le> length rest"
    for best es
  proof (induction es arbitrary: best)
    case (Cons e es)
    have e: "e \<in> set kinds" "set es \<subseteq> set kinds" using Cons.prems(1) by auto
    show ?case
    proof (rule Cons.IH [OF e(2), of "better_symbol rest best e"])
      fix k n assume "better_symbol rest best e = Some (k, n)"
      then show "\<exists>s. (k, s, CAT_SYMBOL) \<in> set kinds \<and> length s = n \<and>
          take n rest = bytes_of s \<and> n \<le> length rest"
        using Cons.prems(2) e(1)
        by (auto simp: better_symbol_def Let_def split: prod.splits if_splits)
    qed (use Cons.prems(3) in simp)
  qed auto
  from this [of kinds None] show "longest_symbol rest = Some (k, n) \<Longrightarrow> ?thesis"
    by (auto simp: longest_symbol_def)
qed

lemma prefix_take: "prefix p s \<longleftrightarrow> length p \<le> length s \<and> take (length p) s = p"
  by (metis append_eq_conv_conj prefix_def prefix_length_le take_is_prefix)

definition best_length :: "(token_kind \<times> nat) option \<Rightarrow> nat" where
  "best_length best = (case best of None \<Rightarrow> 0 | Some (_, n) \<Rightarrow> n)"

lemma better_symbol_length:
  "best_length best \<le> best_length (better_symbol rest best e)"
  "prefix (bytes_of s) rest \<Longrightarrow> length s \<le> best_length (better_symbol rest best (k, s, CAT_SYMBOL))"
  by (auto simp: better_symbol_def best_length_def Let_def prefix_take split: option.splits prod.splits)

lemma longest_symbol_max:
  "best_length best \<le> best_length (foldl (better_symbol rest) best es) \<and>
     (\<forall>(k, s, c)\<in>set es. c = CAT_SYMBOL \<and> prefix (bytes_of s) rest \<longrightarrow>
        length s \<le> best_length (foldl (better_symbol rest) best es))"
proof (induction es arbitrary: best)
  case (Cons e es)
  have IH: "best_length (better_symbol rest best e) \<le> best_length (foldl (better_symbol rest) best (e # es))"
    using Cons [of "better_symbol rest best e"] by simp
  obtain k s c where e: "e = (k, s, c)" by (cases e)
  have "c = CAT_SYMBOL \<Longrightarrow> prefix (bytes_of s) rest \<Longrightarrow>
      length s \<le> best_length (foldl (better_symbol rest) best (e # es))"
    using better_symbol_length(2) [of s rest best k] IH by (auto simp: e)
  then show ?case
    using Cons [of "better_symbol rest best e"] better_symbol_length(1) [of best rest e] IH
    by (auto simp: e)
qed simp

text \<open>
  C25. A symbol token is the longest spelling of a symbol that the source continues with, and
  the kind is the one of that spelling: maximal munch over the whole table.
\<close>

theorem longest_symbol_iff:
  "longest_symbol rest = Some (k, n) \<longleftrightarrow>
     (\<exists>s. (k, s, CAT_SYMBOL) \<in> set kinds \<and> n = length s \<and> prefix (bytes_of s) rest) \<and>
     list_all (\<lambda>(k', s, c). length s \<le> n)
       (filter (\<lambda>(k', s, c). c = CAT_SYMBOL \<and> prefix (bytes_of s) rest) kinds)"
    (is "?l \<longleftrightarrow> ?r")
proof
  assume l: ?l
  from longest_symbol_in_table [OF l] longest_symbol_max [of None rest kinds] l
  show ?r by (auto simp: longest_symbol_def best_length_def prefix_take list_all_iff)
next
  assume r: ?r
  then obtain s where s: "(k, s, CAT_SYMBOL) \<in> set kinds" "n = length s" "prefix (bytes_of s) rest" by blast
  have "s \<noteq> []" using symbols_ascii s(1) by (auto simp: list_all_iff)
  moreover have "length s \<le> best_length (longest_symbol rest)"
    using longest_symbol_max [of None rest kinds] s by (auto simp: longest_symbol_def)
  ultimately obtain k' n' where l: "longest_symbol rest = Some (k', n')" "n \<le> n'"
    using s(2) by (auto simp: best_length_def split: option.splits)
  from longest_symbol_in_table [OF l(1)] obtain s' where
    s': "(k', s', CAT_SYMBOL) \<in> set kinds" "length s' = n'" "prefix (bytes_of s') rest"
    by (auto simp: prefix_take)
  with r have "n' \<le> n" by (auto simp: list_all_iff)
  with l(2) s s' have "bytes_of s' = bytes_of s" "n' = n" by (auto simp: prefix_take)
  with s(1) s'(1) distinct_map_inj [OF symbol_spellings_distinct, of "(k', s', CAT_SYMBOL)" "(k, s, CAT_SYMBOL)"]
  have "k' = k" by auto
  with l \<open>n' = n\<close> show ?l by simp
qed

section \<open>Integer literals\<close>

text \<open>The number that digits stand for in a base.\<close>

definition number_of_digits :: "nat \<Rightarrow> byte list \<Rightarrow> nat" where
  "number_of_digits base ds = foldl (\<lambda>v d. v * base + nat (hex_value (uint d))) 0 ds"

lemma hex_value_range: "is_hex c \<Longrightarrow> 0 \<le> hex_value c \<and> hex_value c < 16"
proof -
  assume "is_hex c"
  then consider "c \<ge> 48" "c \<le> 57" | "c \<ge> 97" "c \<le> 102" | "c \<ge> 65" "c \<le> 70"
    by (auto simp: is_hex_def is_digit_def ascii_def)
  then show ?thesis
  proof cases
    case 2
    then have "c = 97 \<or> c = 98 \<or> c = 99 \<or> c = 100 \<or> c = 101 \<or> c = 102" by presburger
    then show ?thesis by (auto simp: hex_value_def is_digit_def ascii_def)
  next
    case 3
    then have "c = 65 \<or> c = 66 \<or> c = 67 \<or> c = 68 \<or> c = 69 \<or> c = 70" by presburger
    then show ?thesis by (auto simp: hex_value_def is_digit_def ascii_def)
  qed (simp add: hex_value_def is_digit_def ascii_def)
qed

lemma unat_u64_max: "unat (- 1 - d :: u64) = 2 ^ 64 - 1 - unat d"
proof -
  have "unat (- 1 :: u64) = 2 ^ 64 - 1"
    by (simp add: unsigned_minus_1_eq_mask mask_eq_exp_minus_1)
  moreover have "d \<le> - 1" by simp
  ultimately show ?thesis by (simp add: unat_sub)
qed

lemma int_value_step:
  fixes v :: u64
  assumes "0 < unat base" and "unat (digit :: u64) < unat base"
  shows "v > (- 1 - digit) div base \<longleftrightarrow> unat v * unat base + unat digit \<ge> 2 ^ 64"
    and "unat v * unat base + unat digit < 2 ^ 64 \<Longrightarrow>
      unat (v * base + digit) = unat v * unat base + unat digit"
proof -
  have d: "unat digit < 2 ^ 64" using unsigned_less [of digit] by simp
  have "v > (- 1 - digit) div base \<longleftrightarrow> (2 ^ 64 - 1 - unat digit) div unat base < unat v"
    by (simp add: word_less_nat_alt unat_div unat_u64_max)
  also have "\<dots> \<longleftrightarrow> 2 ^ 64 - 1 - unat digit < unat v * unat base"
    using assms(1) by (simp add: div_less_iff_less_mult)
  also have "\<dots> \<longleftrightarrow> unat v * unat base + unat digit \<ge> 2 ^ 64" using d by linarith
  finally show "v > (- 1 - digit) div base \<longleftrightarrow> unat v * unat base + unat digit \<ge> 2 ^ 64" .
  assume "unat v * unat base + unat digit < 2 ^ 64"
  then show "unat (v * base + digit) = unat v * unat base + unat digit"
    by (simp add: unat_word_ariths)
qed

lemma unat_digit:
  assumes "0 \<le> hex_value c" and "hex_value c < 16"
  shows "unat (word_of_int (hex_value c) :: u64) = nat (hex_value c)"
proof -
  have "hex_value c mod 2 ^ 64 = hex_value c" using assms by (intro mod_pos_pos_trivial) auto
  then show ?thesis using assms by (simp add: unsigned_of_int take_bit_eq_mod)
qed

lemma foldl_digits_ge: "0 < base \<Longrightarrow> v \<le> foldl (\<lambda>v d. v * base + (f d :: nat)) v ds"
proof (induction ds arbitrary: v)
  case (Cons d ds)
  have "v \<le> v * base + f d" using Cons.prems by (simp add: trans_le_add1)
  also have "\<dots> \<le> foldl (\<lambda>v d. v * base + f d) (v * base + f d) ds" using Cons by blast
  finally show ?case by simp
qed simp

lemma int_value_from:
  assumes "0 < base" and "\<forall>d\<in>set ds. 0 \<le> hex_value (uint d) \<and> hex_value (uint d) < int base"
    and "base \<le> 16"
  shows "int_value (of_nat base) ds v =
     (let n = foldl (\<lambda>v d. v * base + nat (hex_value (uint d))) (unat v) ds
      in if n < 2 ^ 64 then Some (of_nat n) else None)"
  using assms(2)
proof (induction ds arbitrary: v)
  case Nil
  have "unat v < 2 ^ 64" using unsigned_less [of v] by simp
  then show ?case by (simp only: int_value.simps foldl.simps Let_def if_True) simp
next
  case (Cons d ds)
  let ?d = "word_of_int (hex_value (uint d)) :: u64"
  let ?f = "foldl (\<lambda>v d. v * base + nat (hex_value (uint d)))"
  have h: "0 \<le> hex_value (uint d)" "hex_value (uint d) < 16" "hex_value (uint d) < int base"
    using Cons.prems assms(3) by auto
  have d: "unat ?d = nat (hex_value (uint d))" using h by (intro unat_digit)
  have b: "unat (of_nat base :: u64) = base"
    using assms(3) by (simp add: unsigned_of_nat take_bit_nat_eq_self)
  note step = int_value_step [of "of_nat base" ?d v]
  have lt: "unat ?d < unat (of_nat base :: u64)" using h d b by simp
  show ?case
  proof (cases "unat v * base + unat ?d < 2 ^ 64")
    case True
    then have "\<not> v > (- 1 - ?d) div of_nat base"
        "unat (v * of_nat base + ?d) = unat v * base + unat ?d"
      using step assms(1) b lt by simp_all
    with Cons d show ?thesis by (simp add: Let_def)
  next
    case False
    have "unat v * base + unat ?d \<le> ?f (unat v * base + nat (hex_value (uint d))) ds"
      using foldl_digits_ge [OF assms(1)] d by simp
    with False have "\<not> ?f (unat v) (d # ds) < 2 ^ 64" by simp
    moreover have "v > (- 1 - ?d) div of_nat base"
      using step(1) assms(1) b lt False by simp
    ultimately show ?thesis by (simp only: int_value.simps Let_def if_True if_False)
  qed
qed

text \<open>
  C27. The loop of \<open>number\<close> computes the value of the digits exactly: the result is the number
  they stand for when it fits 64 bits, and the error for a literal that is too large when it
  does not. The test before each step decides this without overflow.
\<close>

theorem int_value_exact:
  assumes "base = 10 \<and> list_all (\<lambda>d. is_digit (uint d)) ds \<or>
           base = 16 \<and> list_all (\<lambda>d. is_hex (uint d)) ds"
  shows "int_value (of_nat base) ds 0 =
     (if number_of_digits base ds < 2 ^ 64 then Some (of_nat (number_of_digits base ds)) else None)"
proof -
  have "is_digit c \<Longrightarrow> 0 \<le> hex_value c \<and> hex_value c < 10" for c
    by (simp add: hex_value_def is_digit_def ascii_def)
  then have "\<forall>d\<in>set ds. 0 \<le> hex_value (uint d) \<and> hex_value (uint d) < int base"
    using assms hex_value_range by (auto simp: list_all_iff)
  then show ?thesis
    using int_value_from [of base ds 0] assms by (auto simp: number_of_digits_def Let_def)
qed

theorem int_value_exact_witness:
  "int_value 16 (bytes_of ''Ff'') 0 = Some 255 \<and>
   int_value 10 (bytes_of ''18446744073709551616'') 0 = None"
proof -
  have "number_of_digits 16 (bytes_of ''Ff'') = 255"
    "number_of_digits 10 (bytes_of ''18446744073709551616'') = 2 ^ 64"
    by (simp_all add: number_of_digits_def bytes_of_def hex_value_def is_digit_def ascii_def)
  moreover have "list_all (\<lambda>d. is_hex (uint d)) (bytes_of ''Ff'')"
    "list_all (\<lambda>d. is_digit (uint d)) (bytes_of ''18446744073709551616'')" by code_simp+
  ultimately show ?thesis
    using int_value_exact [of 16 "bytes_of ''Ff''"]
      int_value_exact [of 10 "bytes_of ''18446744073709551616''"] by simp
qed

section \<open>Doc comments\<close>

fun join_lines :: "byte list list \<Rightarrow> byte list" where
  "join_lines [] = []"
| "join_lines [l] = l"
| "join_lines (l # ls) = l @ 10 # join_lines ls"

definition nonblank :: "byte list \<Rightarrow> bool" where
  "nonblank l \<longleftrightarrow> list_ex (\<lambda>b. \<not> is_blank (uint b)) l"

lemma lead_of_less: "lead_of l < length l \<longleftrightarrow> nonblank l"
  by (induction l) (auto simp: lead_of_def nonblank_def)

lemma doc_lines_join: "join_lines (doc_lines s) = s \<and> doc_lines s \<noteq> [] \<and> (\<forall>l\<in>set (doc_lines s). 10 \<notin> set l)"
proof (induction s rule: doc_lines.induct)
  case (1 s)
  show ?case
  proof (cases "dropWhile (\<lambda>b. b \<noteq> 10) s")
    case Nil
    have "doc_lines s = [s]" by (simp only: doc_lines.simps [of s] Nil list.case)
    moreover have "10 \<notin> set s" using Nil by auto
    ultimately show ?thesis by simp
  next
    case (Cons b rest)
    then have "b = 10" using hd_dropWhile [of "\<lambda>b. b \<noteq> 10" s] by auto
    then have s: "s = takeWhile (\<lambda>b. b \<noteq> 10) s @ 10 # rest"
      using Cons takeWhile_dropWhile_id [of "\<lambda>b. b \<noteq> 10" s] by simp
    obtain l ls where ls: "doc_lines rest = l # ls" using 1 [OF Cons] by (cases "doc_lines rest") auto
    have "doc_lines s = takeWhile (\<lambda>b. b \<noteq> 10) s # doc_lines rest"
      using Cons by (simp add: doc_lines.simps [of s])
    with 1 [OF Cons] ls s show ?thesis by (auto dest: set_takeWhileD)
  qed
qed

lemma common_lead_le_from:
  "(\<forall>l\<in>set ls. nonblank l \<longrightarrow> foldl f c ls \<le> lead_of l) \<and> foldl f c ls \<le> c \<and>
     (foldl f c ls = c \<or> (\<exists>l\<in>set ls. nonblank l \<and> lead_of l = foldl f c ls))"
  if "f = (\<lambda>common l. let lead = lead_of l
                      in if lead < length l \<and> lead < common then lead else common)"
  using that
proof (induction ls arbitrary: c)
  case (Cons l ls)
  have f: "f c l \<le> c" "nonblank l \<Longrightarrow> f c l \<le> lead_of l" "f c l = c \<or> nonblank l \<and> lead_of l = f c l"
    using that by (auto simp: Let_def lead_of_less)
  from Cons.IH [of "f c l"] that f show ?case by (auto intro: order.trans)
qed simp

lemma take_of_takeWhile: "n \<le> length (takeWhile P l) \<Longrightarrow> list_all P (take n l)"
  by (induction l arbitrary: n) (auto simp: take_Cons' split: if_splits)

lemma data_push_lines:
  "data (push_lines common again ls t) =
     data t @ (if ls = [] then [] else (if again then [10] else []) @
       join_lines (map (\<lambda>l. if nonblank l then drop common l else []) ls))"
proof (induction common again ls t rule: push_lines.induct)
  case (2 common again l ls t)
  then show ?case
    by (cases ls) (auto simp: Let_def lead_of_less c_str_Cons)
qed simp


end
