(* ===== verification/LexerStop.thy ===== *)
theory LexerStop
  imports LexerValues
begin

text \<open>
  When the loop of \<open>lex\<close> returns. Between two turns the position is between two characters, and
  a turn from there moves past at least one byte. The exception is an escape in a character
  literal that stops inside a character: the loop then turns forever.
\<close>

section \<open>Valid text\<close>

definition utf8_valid :: "byte list \<Rightarrow> bool" where
  "utf8_valid s \<longleftrightarrow> (\<exists>cps. (\<forall>cp\<in>set cps. scalar cp) \<and> s = concat (map encode cps))"

definition continuation :: "byte \<Rightarrow> bool" where
  "continuation b \<longleftrightarrow> unat b div 64 = 2"

lemma utf8_valid_Nil [simp]: "utf8_valid []"
  by (auto simp: utf8_valid_def intro: exI [of _ "[]"])

lemma utf8_valid_encode: "scalar cp \<Longrightarrow> utf8_valid s \<Longrightarrow> utf8_valid (encode cp @ s)"
  unfolding utf8_valid_def by (metis concat.simps(2) list.simps(9) set_ConsD)

lemma utf8_valid_cases:
  assumes "utf8_valid s" and "s \<noteq> []"
  obtains cp rest where "scalar cp" and "s = encode cp @ rest" and "utf8_valid rest"
proof -
  obtain cps where cps: "\<forall>cp\<in>set cps. scalar cp" "s = concat (map encode cps)"
    using assms(1) by (auto simp: utf8_valid_def)
  with assms(2) obtain cp cps' where "cps = cp # cps'" by (cases cps) auto
  with cps that show ?thesis by (auto simp: utf8_valid_def)
qed

lemma utf8_valid_decode:
  assumes "utf8_valid s" and "s \<noteq> []"
  obtains n cp where "utf8_length s = Some (n, cp)" and "scalar cp" and "utf8_valid (drop n s)"
proof -
  obtain cp rest where *: "scalar cp" "s = encode cp @ rest" "utf8_valid rest"
    using assms by (rule utf8_valid_cases)
  then have "utf8_length s = Some (length (encode cp), cp)" by (simp add: utf8_length_encode)
  with * show ?thesis by (intro that) auto
qed

lemma encoding_bytes:
  "n < 0x110000 \<Longrightarrow> i < length (encoding n) \<Longrightarrow>
     (encoding n ! i div 64 = 2 \<longleftrightarrow> 0 < i) \<and> (encoding n ! i < 128 \<longrightarrow> length (encoding n) = 1)"
  by (auto simp: encoding_def nth_Cons split: nat.splits if_splits) 

lemma encode_bytes:
  assumes "scalar cp" and "i < length (encode cp)"
  shows "continuation (encode cp ! i) \<longleftrightarrow> 0 < i"
    and "unat (encode cp ! i) < 128 \<Longrightarrow> length (encode cp) = 1"
proof -
  have "unat (encode cp ! i) = encoding (unat cp) ! i"
    using assms map_unat_encode_scalar [of cp] by (metis nth_map)
  moreover have "unat cp < 0x110000" using scalar_lt [OF assms(1)] by simp
  moreover have "length (encode cp) = length (encoding (unat cp))" using assms(1) by (rule length_encode)
  ultimately show "continuation (encode cp ! i) \<longleftrightarrow> 0 < i"
    "unat (encode cp ! i) < 128 \<Longrightarrow> length (encode cp) = 1"
    using encoding_bytes [of "unat cp" i] assms(2) by (simp_all add: continuation_def)
qed

text \<open>A byte that continues no sequence starts one, and what follows an ASCII byte is valid.\<close>

lemma utf8_valid_drop:
  assumes "utf8_valid s" and "i < length s"
  shows "(\<not> continuation (s ! i) \<longrightarrow> utf8_valid (drop i s)) \<and>
     (unat (s ! i) < 128 \<longrightarrow> utf8_valid (drop (Suc i) s))"
proof -
  have "i < length (concat (map encode cps)) \<Longrightarrow> \<forall>cp\<in>set cps. scalar cp \<Longrightarrow>
      (\<not> continuation (concat (map encode cps) ! i) \<longrightarrow> utf8_valid (drop i (concat (map encode cps)))) \<and>
      (unat (concat (map encode cps) ! i) < 128 \<longrightarrow>
         utf8_valid (drop (Suc i) (concat (map encode cps))))" for cps
  proof (induction cps arbitrary: i)
    case (Cons cp cps)
    let ?rest = "concat (map encode cps)"
    have rest: "utf8_valid ?rest" using Cons.prems by (auto simp: utf8_valid_def)
    have cp: "scalar cp" using Cons.prems by simp
    show ?case
    proof (cases "i < length (encode cp)")
      case True
      then show ?thesis
        using encode_bytes [OF cp True] rest utf8_valid_encode [OF cp rest]
        by (auto simp: nth_append)
    next
      case False
      then have "i - length (encode cp) < length ?rest" using Cons.prems by simp
      with Cons.IH [OF this] Cons.prems False show ?thesis
        by (simp add: nth_append Suc_diff_le not_less)
    qed
  qed simp
  with assms show ?thesis by (auto simp: utf8_valid_def)
qed

lemma continuation_high: "continuation b \<Longrightarrow> \<not> unat b < 128"
  by (auto simp: continuation_def)

section \<open>Positions between characters\<close>

definition boundary :: "lexer \<Rightarrow> bool" where
  "boundary lx \<longleftrightarrow> utf8_valid (drop (pos lx) (src lx))"

definition text_valid :: "lexer \<Rightarrow> bool" where
  "text_valid lx \<longleftrightarrow> utf8_valid (src lx)"

lemma uint_byte: "uint (b :: byte) = int (unat b)"
  by simp

lemma at_low: "pos lx + i < length (src lx) \<Longrightarrow> at lx i < 128 \<longleftrightarrow> unat (src lx ! (pos lx + i)) < 128"
  using uint_byte [of "src lx ! (pos lx + i)"] by (simp only: at_def Let_def if_True) linarith

lemma boundary_at: "text_valid lx \<Longrightarrow> at lx 0 < 128 \<Longrightarrow> boundary lx"
proof (cases "pos lx < length (src lx)")
  case True
  assume "text_valid lx" "at lx 0 < 128"
  with True at_low [of lx 0] utf8_valid_drop [of "src lx" "pos lx"] continuation_high
  show ?thesis by (auto simp: boundary_def text_valid_def)
qed (simp add: boundary_def)

lemma boundary_advance:
  assumes "text_valid lx" and "at lx 0 < 128" and "at lx 0 \<noteq> -1"
  shows "boundary (advance lx)"
proof -
  have lt: "pos lx < length (src lx)" using assms(3) by (auto dest: within0)
  with at_low [of lx 0] assms(1,2) utf8_valid_drop [of "src lx" "pos lx"] show ?thesis
    by (simp add: boundary_def text_valid_def pos_advance)
qed

lemma text_valid_advance [simp]: "text_valid (advance lx) = text_valid lx"
  by (simp add: text_valid_def)

lemma text_valid_run: "run a b \<Longrightarrow> text_valid b = text_valid a"
  by (simp add: text_valid_def src_run)

lemma boundary_error_at [simp]: "boundary (error_at lx l c m) = boundary lx"
  "text_valid (error_at lx l c m) = text_valid lx"
  by (simp_all add: boundary_def text_valid_def)

lemma boundary_push [simp]: "boundary (push lx k s l c v) = boundary lx"
  by (simp add: boundary_def)

lemma text_valid_advance_while [simp]: "text_valid (advance_while P lx) = text_valid lx"
  "text_valid (advance_n n lx) = text_valid lx"
  by (simp_all add: text_valid_def)

text \<open>A loop over ASCII characters, and a loop up to an ASCII character.\<close>

lemma boundary_advance_while_ascii:
  "(\<And>lx. P lx \<Longrightarrow> at lx 0 < 128) \<Longrightarrow> text_valid lx \<Longrightarrow> boundary lx \<Longrightarrow> boundary (advance_while P lx)"
proof (induction P lx rule: advance_while.induct)
  case (1 P lx)
  show ?case
  proof (cases "pos lx < length (src lx) \<and> P lx")
    case True
    then have "at lx 0 \<noteq> -1" "at lx 0 < 128" using at_end [of lx 0] 1(2) [of lx] by auto
    then show ?thesis using 1 True boundary_advance by (simp add: advance_while.simps [of P lx])
  next
    case False
    then show ?thesis using 1 by (auto simp: advance_while.simps [of P lx])
  qed
qed

lemma class_ascii:
  "is_ident_char c \<Longrightarrow> c < 128" "is_digit c \<Longrightarrow> c < 128" "is_hex c \<Longrightarrow> c < 128"
  "is_ident_start c \<Longrightarrow> c < 128" "valid_digit h c \<Longrightarrow> c < 128"
  by (auto simp: is_ident_char_def is_digit_def is_hex_def is_ident_start_def valid_digit_def
      ascii_def split: if_splits)

section \<open>Where the functions stop\<close>

lemma boundary_line_end: "text_valid lx \<Longrightarrow> at_line_end lx \<Longrightarrow> boundary lx"
  by (rule boundary_at) (auto simp: at_line_end_def)

lemma line_text_stops: "line_text marker lx raw = (lx', raw') \<Longrightarrow> at_line_end lx'"
  using advance_while_stops [of "\<lambda>lx. \<not> at_line_end lx" "advance_n marker lx"]
  by (auto simp: line_text_def Let_def at_line_end_def at_end)

lemma line_doc_loop_stops: "line_doc_loop k marker lx raw = (lx', raw') \<Longrightarrow> at_line_end lx'"
proof (induction k marker lx raw arbitrary: lx' raw' rule: line_doc_loop.induct)
  case (1 k marker lx raw)
  obtain lx1 raw1 where t: "line_text marker lx raw = (lx1, raw1)"
    by (cases "line_text marker lx raw")
  show ?case
  proof (cases "at lx1 0 = 10 \<and> next_marker lx1 k \<noteq> None")
    case False
    then show ?thesis using 1(2) t line_text_stops [OF t]
      by (auto simp: line_doc_loop.simps [of k marker lx raw] split: if_splits option.splits)
  next
    case True
    then obtain n len where n: "next_marker lx1 k = Some (n, len)" by auto
    have "line_doc_loop k len (advance_n n lx1) (text_append raw1 [10, 0]) = (lx', raw')"
      using 1(2) t True n by (simp add: line_doc_loop.simps [of k marker lx raw])
    then show ?thesis using 1(1) [OF t [symmetric], of "(n, len)" n len] True n by blast
  qed
qed

lemma boundary_close: "text_valid lx \<Longrightarrow> at_close lx \<Longrightarrow> boundary (advance (advance lx))"
  using at_within [of lx 0 "CHR ''*''"] at_within [of lx 1 "CHR ''/''"]
  by (intro boundary_advance) (auto simp: at_close_def at_advance ascii_def)

lemma boundary_skip_block: "skip_block lx n = (b, lx') \<Longrightarrow> text_valid lx \<Longrightarrow> boundary lx'"
proof -
  let ?w = "advance_while (\<lambda>lx. \<not> at_close lx) (advance_n n lx)"
  assume *: "skip_block lx n = (b, lx')" "text_valid lx"
  show "boundary lx'"
  proof (cases "at_close ?w")
    case True
    with * boundary_close [of ?w] show ?thesis by (auto simp: skip_block_def Let_def)
  next
    case False
    then have "boundary ?w"
      using advance_while_stops [of "\<lambda>lx. \<not> at_close lx" "advance_n n lx"]
      by (auto simp: boundary_def)
    with * False show ?thesis by (auto simp: skip_block_def Let_def)
  qed
qed

lemma boundary_block_lines:
  "block_lines l c first lx raw = (lx', r) \<Longrightarrow> text_valid lx \<Longrightarrow> boundary lx'"
proof (induction l c first lx raw arbitrary: lx' r rule: block_lines.induct)
  case (1 l c first lx raw)
  let ?w = "advance_while (\<lambda>lx. \<not> at_block_line_end lx) lx"
  have stop: "at ?w 0 \<noteq> -1 \<Longrightarrow> at_block_line_end ?w"
    using advance_while_stops [of "\<lambda>lx. \<not> at_block_line_end lx" lx] at_end [of ?w 0] by auto
  consider (e) "at ?w 0 = -1" | (close) "at ?w 0 = ascii CHR ''*''" "at ?w 0 \<noteq> -1"
    | (again) "at ?w 0 \<noteq> -1" "at ?w 0 \<noteq> ascii CHR ''*''"
    by blast
  then show ?case
  proof cases
    case e
    then have "boundary ?w" using 1(3) by (intro boundary_at) auto
    with e 1(2) show ?thesis by (auto simp: block_lines.simps [of l c first lx raw] Let_def)
  next
    case close
    with stop have "at_close ?w"
      by (auto simp: at_block_line_end_def at_line_end_def ascii_def)
    then have "boundary (advance (advance ?w))" using 1(3) by (intro boundary_close) auto
    with 1(2) close show ?thesis
      by (auto simp: block_lines.simps [of l c first lx raw] Let_def split: if_splits)
  next
    case again
    have "block_lines l c False (advance ?w)
        (take_line ?w (pos lx) (if \<not> first then text_append raw [10, 0] else raw)) = (lx', r)"
      using 1(2) again by (subst (asm) block_lines.simps) (simp add: Let_def)
    then show ?thesis
      using 1(1) [OF refl refl refl refl _ _ refl] again 1(3) by (simp cong: if_cong)
  qed
qed

lemma boundary_push_doc [simp]: "boundary (push_doc lx k s l c raw) = boundary lx"
  by (simp add: push_doc_def Let_def)

lemma boundary_line_doc: "text_valid lx \<Longrightarrow> doc_marker lx 0 = (k, marker) \<Longrightarrow> k \<noteq> TOKEN_EOF \<Longrightarrow>
    boundary (line_doc lx k marker)"
proof -
  assume v: "text_valid lx" and m: "doc_marker lx 0 = (k, marker)" "k \<noteq> TOKEN_EOF"
  obtain lx1 raw where l: "line_doc_loop k marker lx text_empty = (lx1, raw)"
    by (cases "line_doc_loop k marker lx text_empty")
  have "run lx lx1" using run_line_doc_loop [OF l m(2)] doc_marker_within [OF m] by simp
  then have "boundary lx1" using boundary_line_end line_doc_loop_stops [OF l] v by (simp add: text_valid_run)
  with l show ?thesis by (simp add: line_doc_def)
qed

lemma boundary_block_doc: "text_valid lx \<Longrightarrow> boundary (block_doc lx k marker)"
proof -
  assume v: "text_valid lx"
  let ?w = "advance_while (\<lambda>lx. is_blank (at lx 0)) (advance_n marker lx)"
  have c: "boundary (snd (skip_block b 0))" if "text_valid b" for b
    using boundary_skip_block [OF _ that] by (cases "skip_block b 0") auto
  show ?thesis
  proof (cases "find_close ?w 0")
    case (Some i)
    with c v show ?thesis by (simp add: block_doc_def Let_def)
  next
    case None
    show ?thesis
    proof (cases "at ?w 0 = 10")
      case False
      with None c [of ?w] v show ?thesis
        by (cases "skip_block ?w 0") (simp add: block_doc_def Let_def)
    next
      case True
      obtain lx2 r where bl: "block_lines (line lx) (column lx) True (advance ?w) text_empty = (lx2, r)"
        by (cases "block_lines (line lx) (column lx) True (advance ?w) text_empty")
      then have "boundary lx2" by (rule boundary_block_lines) (use v in simp)
      with None True bl show ?thesis
        by (auto simp: block_doc_def Let_def split: option.splits)
    qed
  qed
qed

lemma boundary_skip_trivia: "text_valid lx \<Longrightarrow> boundary lx \<Longrightarrow> boundary (skip_trivia lx)"
proof (induction lx rule: skip_trivia.induct)
  case (1 lx)
  consider (blank) "at lx 0 = ascii CHR '' '' \<or> at lx 0 = 9 \<or> at lx 0 = 13 \<or> at lx 0 = 10"
    | (stop) "\<not> (at lx 0 = ascii CHR '' '' \<or> at lx 0 = 9 \<or> at lx 0 = 13 \<or> at lx 0 = 10)"
        "at lx 0 \<noteq> ascii CHR ''/'' \<or> fst (doc_marker lx 0) \<noteq> TOKEN_EOF"
    | (line) "at lx 0 = ascii CHR ''/''" "fst (doc_marker lx 0) = TOKEN_EOF"
        "at lx 1 = ascii CHR ''/''"
    | (block) "at lx 0 = ascii CHR ''/''" "fst (doc_marker lx 0) = TOKEN_EOF"
        "at lx 1 = ascii CHR ''*''"
    | (other) "at lx 0 = ascii CHR ''/''" "fst (doc_marker lx 0) = TOKEN_EOF"
        "at lx 1 \<noteq> ascii CHR ''*''" "at lx 1 \<noteq> ascii CHR ''/''"
    by blast
  then show ?case
  proof cases
    case blank
    then have "boundary (advance lx)" using 1 by (intro boundary_advance) (auto simp: ascii_def)
    with blank 1 show ?thesis by (simp add: skip_trivia.simps [of lx] Let_def)
  next
    case stop
    with 1 show ?thesis by (auto simp: skip_trivia.simps [of lx] Let_def)
  next
    case line
    let ?w = "advance_while (\<lambda>lx. \<not> at_line_end lx) lx"
    have "at_line_end ?w"
      using advance_while_stops [of "\<lambda>lx. \<not> at_line_end lx" lx] at_end [of ?w 0]
      by (auto simp: at_line_end_def)
    then have "boundary ?w" using 1 by (intro boundary_line_end) auto
    with line 1 show ?thesis by (simp add: skip_trivia.simps [of lx] Let_def ascii_def)
  next
    case block
    obtain b lx2 where sb: "skip_block lx 2 = (b, lx2)" by (cases "skip_block lx 2")
    have "run lx lx2" using block by (intro run_skip_block [OF sb]) (auto dest: at_within)
    then have "boundary lx2" "text_valid lx2"
      using boundary_skip_block [OF sb] 1 by (auto simp: text_valid_run)
    with block 1 sb show ?thesis
      by (cases b) (simp_all add: skip_trivia.simps [of lx] Let_def ascii_def)
  next
    case other
    with 1 show ?thesis by (simp add: skip_trivia.simps [of lx] Let_def ascii_def)
  qed
qed

lemma boundary_identifier: "text_valid lx \<Longrightarrow> boundary lx \<Longrightarrow> boundary (identifier_token lx s l c)"
  by (simp add: identifier_token_def Let_def boundary_advance_while_ascii class_ascii)

lemma boundary_number_error: "text_valid lx \<Longrightarrow> boundary lx \<Longrightarrow> boundary (number_error lx s l c msg)"
  by (auto simp: number_error_def Let_def ascii_def intro!: boundary_advance_while_ascii dest: class_ascii)

lemma boundary_digit_run:
  "digit_run hex lx d = (b, lx', d') \<Longrightarrow> text_valid lx \<Longrightarrow> boundary lx \<Longrightarrow> boundary lx' \<and> text_valid lx'"
proof (induction hex lx d arbitrary: b lx' d' rule: digit_run.induct)
  case (1 hex lx d)
  show ?case
  proof (cases "valid_digit hex (at lx 0) \<or> at lx 0 = ascii CHR ''_''")
    case True
    then have "pos lx < length (src lx)" by (auto dest: valid_digit_byte at_code_byte)
    then have "boundary (advance lx)"
      using 1(4) True at_end [of lx 0]
      by (intro boundary_advance) (auto simp: ascii_def dest: class_ascii)
    then show ?thesis
      using 1 True by (auto simp: digit_run.simps [of hex lx d] split: if_splits)
  next
    case False
    with 1 show ?thesis by (simp add: digit_run.simps [of hex lx d])
  qed
qed

lemma boundary_number_int: "text_valid lx \<Longrightarrow> boundary lx \<Longrightarrow> boundary (number_int lx hex d s l c)"
  by (auto simp: number_int_def boundary_number_error split: option.splits)

lemma boundary_advance_ascii:
  "text_valid lx \<Longrightarrow> at lx 0 = ascii ch \<Longrightarrow> ascii ch < 128 \<Longrightarrow> boundary (advance lx)"
  using ascii_ge_0 [of ch] by (intro boundary_advance) auto

lemma boundary_number_float:
  assumes v: "text_valid lx" and dot: "at lx 0 = ascii CHR ''.''"
  shows "boundary (number_float lx d s l c)"
proof -
  have c1: "boundary (advance lx)" using v dot by (rule boundary_advance_ascii) (simp add: ascii_def)
  obtain b lx2 d2 where d2: "digit_run False (advance lx) (text_append d (bytes_of ''.'')) = (b, lx2, d2)"
    by (cases "digit_run False (advance lx) (text_append d (bytes_of ''.''))")
  have c2: "boundary lx2" "text_valid lx2" using boundary_digit_run [OF d2] c1 v by auto
  let ?finish = "\<lambda>lx digits. if is_ident_char (at lx 0)
      then number_error lx s l c ''invalid character in numeric literal''
      else push lx TOKEN_FLOAT s l c (keep digits)"
  have finish: "text_valid m \<Longrightarrow> boundary m \<Longrightarrow> boundary (?finish m digits)" for m digits
    by (simp add: boundary_number_error)
  have exponent: "text_valid m \<Longrightarrow> boundary m \<Longrightarrow> boundary (case digit_run False m e of
       (False, lx, digits) \<Rightarrow> number_error lx s l c ''`_` must stand between two digits''
     | (True, lx, digits) \<Rightarrow> ?finish lx digits)" for m e
    using boundary_digit_run finish
    by (cases "digit_run False m e") (auto simp: boundary_number_error split: bool.splits)
  show ?thesis
  proof (cases b)
    case False
    with c2 d2 show ?thesis by (simp add: number_float_def boundary_number_error)
  next
    case True
    show ?thesis
    proof (cases "at lx2 0 = ascii CHR ''e'' \<or> at lx2 0 = ascii CHR ''E''")
      case False
      then show ?thesis
        using finish [OF c2(2,1)] d2 True unfolding number_float_def Let_def by simp
    next
      case e: True
      then have c3: "boundary (advance lx2)"
        using c2 by (intro boundary_advance) (auto simp: ascii_def)
      show ?thesis
      proof (cases "at (advance lx2) 0 = ascii CHR ''+'' \<or> at (advance lx2) 0 = ascii CHR ''-''")
        case True
        then have "boundary (advance (advance lx2))"
          using c2 by (intro boundary_advance) (auto simp: ascii_def)
        with True show ?thesis
          using exponent c2 e d2 \<open>b\<close> unfolding number_float_def Let_def
          by (simp add: boundary_number_error)
      next
        case False
        then show ?thesis
          using exponent c2 c3 e d2 \<open>b\<close> unfolding number_float_def Let_def
          by (simp add: boundary_number_error)
      qed
    qed
  qed
qed

lemma boundary_number: "text_valid lx \<Longrightarrow> boundary lx \<Longrightarrow> boundary (number lx s l c)"
proof -
  assume v: "text_valid lx" "boundary lx"
  let ?hex = "at lx 0 = ascii CHR ''0'' \<and> at lx 1 = ascii CHR ''x''"
  let ?lx = "if ?hex then advance (advance lx) else lx"
  have "boundary (advance (advance lx))" if ?hex
    using v that at_within [of lx 0 "CHR ''0''"]
    by (intro boundary_advance_ascii [of _ "CHR ''x''"]) (auto simp: at_advance ascii_def)
  with v have c: "boundary ?lx" "text_valid ?lx" by auto
  obtain b lx2 d2 where d2: "digit_run ?hex ?lx text_empty = (b, lx2, d2)"
    by (cases "digit_run ?hex ?lx text_empty")
  have "boundary lx2 \<and> text_valid lx2" using d2 c(2,1) by (rule boundary_digit_run)
  with c show ?thesis
    unfolding number_def Let_def d2 prod.case
    by (auto simp: boundary_number_error boundary_number_int boundary_number_float
        split: bool.splits simp del: if_split)
qed

section \<open>Literals\<close>

lemma boundary_advance_n_ascii:
  "text_valid lx \<Longrightarrow> boundary lx \<Longrightarrow> \<forall>j<n. at lx j \<noteq> -1 \<and> at lx j < 128 \<Longrightarrow> boundary (advance_n n lx)"
proof (induction n arbitrary: lx)
  case (Suc n)
  then have 0: "at lx 0 \<noteq> -1" "at lx 0 < 128" by auto
  then have "pos lx < length (src lx)" by (auto dest: within0)
  then have "at (advance lx) j = at lx (Suc j)" for j by (rule at_advance)
  with Suc 0 show ?case by (simp add: boundary_advance)
qed simp

lemma closing_hashes_are:
  "closing_hashes lx n i = i + n \<Longrightarrow> j < n \<Longrightarrow> at lx (Suc (i + j)) = ascii CHR ''#''"
proof (induction lx n i arbitrary: j rule: closing_hashes.induct)
  case (2 lx n i)
  then show ?case by (cases j) (auto split: if_splits)
qed simp

lemma boundary_string_loop:
  assumes "string_loop raw mode hashes lx bytes valid = (b, lx', bytes', valid')" and "text_valid lx"
  shows "boundary lx'"
proof -
  obtain m where m: "run lx m"
      "if b then at m 0 = ascii CHR 0x22 \<and> closing_hashes m hashes 0 = hashes \<and>
                 lx' = advance_n hashes (advance m)
       else at m 0 = -1 \<and> lx' = m"
    using string_loop_end [OF assms(1)] by blast
  then have v: "text_valid m" using assms(2) by (simp add: text_valid_run)
  show ?thesis
  proof (cases b)
    case True
    then have q: "at m 0 = ascii CHR 0x22" and h: "closing_hashes m hashes 0 = 0 + hashes"
      using m(2) by auto
    have "at (advance m) j = ascii CHR ''#''" if "j < hashes" for j
      using closing_hashes_are [OF h that] at_within [OF q] by (simp add: at_advance)
    moreover have "boundary (advance m)" using v q by (rule boundary_advance_ascii) (simp add: ascii_def)
    ultimately have "boundary (advance_n hashes (advance m))"
      using v by (intro boundary_advance_n_ascii) (auto simp: ascii_def)
    with True m show ?thesis by simp
  next
    case False
    with m v show ?thesis by (auto intro: boundary_at)
  qed
qed

lemma boundary_string_token: "text_valid lx \<Longrightarrow> boundary (string_token lx s l c)"
proof -
  assume v: "text_valid lx"
  have tok: "boundary (case string_loop raw mode n b text_empty True of
           (False, m, bytes, valid) \<Rightarrow> push (error_at m l c msg) TOKEN_ERROR s l c NoValue
         | (True, m, bytes, valid) \<Rightarrow>
             if valid then push m k s l c (keep bytes) else push m TOKEN_ERROR s l c NoValue)"
    if "text_valid b" for raw mode n msg k b
  proof (cases "string_loop raw mode n b text_empty True")
    case (fields closed m bytes valid)
    then have "boundary m" using that by (rule boundary_string_loop)
    with fields show ?thesis by (cases closed; cases valid) simp_all
  qed
  show ?thesis unfolding string_token_def Let_def by (rule tok) (use v in simp)
qed

text \<open>
  An escape stops between two characters unless it is a backslash before a character that is
  not ASCII, where it stops after that character's first byte.
\<close>

lemma boundary_unicode_digits:
  "unicode_digits lx n cp = (lx', n', cp') \<Longrightarrow> text_valid lx \<Longrightarrow> boundary lx \<Longrightarrow> boundary lx' \<and> text_valid lx'"
proof (induction lx n cp arbitrary: lx' n' cp' rule: unicode_digits.induct)
  case (1 lx n cp)
  show ?case
  proof (cases "is_hex (at lx 0) \<and> n < 7")
    case True
    then have "boundary (advance lx)"
      using 1(3) by (intro boundary_advance) (auto simp: at_end dest: class_ascii within0)
    with 1 True show ?thesis by (simp add: unicode_digits.simps [of lx n cp])
  next
    case False
    with 1 show ?thesis by (auto simp: unicode_digits.simps [of lx n cp])
  qed
qed

lemma boundary_escape_hex: "text_valid lx \<Longrightarrow> boundary lx \<Longrightarrow> boundary (fst (escape_hex lx mode l c))"
proof -
  assume v: "text_valid lx" "boundary lx"
  have "boundary (advance (advance lx))" if "is_hex (at lx 0)" "is_hex (at lx 1)"
  proof -
    have lt: "pos lx < length (src lx)" "pos lx + 1 < length (src lx)"
      using that by (auto dest: within)
    then show ?thesis
      using v that at_end [of lx 1]
      by (intro boundary_advance) (auto simp: at_advance dest: class_ascii)
  qed
  with v show ?thesis by (simp add: escape_hex_def Let_def)
qed

lemma boundary_escape_unicode: "text_valid lx \<Longrightarrow> boundary lx \<Longrightarrow> boundary (fst (escape_unicode lx mode l c))"
proof (cases "unicode_digits (advance lx) 0 0")
  case (fields lx1 n cp)
  assume v: "text_valid lx" "boundary lx"
  show ?thesis
  proof (cases "at lx 0 = ascii CHR ''{''")
    case True
    then have "boundary (advance lx)" using v by (intro boundary_advance) (auto simp: ascii_def)
    then have c1: "boundary lx1" "text_valid lx1" using boundary_unicode_digits [OF fields] v by auto
    then have "boundary (advance lx1)" if "at lx1 0 = ascii CHR ''}''"
      using that by (intro boundary_advance) (auto simp: ascii_def)
    with c1 True fields show ?thesis by (simp add: escape_unicode_def Let_def)
  next
    case False
    with v show ?thesis by (simp add: escape_unicode_def Let_def)
  qed
qed

lemma boundary_escape:
  assumes "text_valid lx" and "at lx 0 = ascii CHR 0x5C" and "at lx 1 < 128"
  shows "boundary (fst (escape lx mode))"
proof -
  have lt: "pos lx < length (src lx)" using at_within [OF assms(2)] by simp
  have c1: "boundary (advance lx)" using assms by (intro boundary_advance) (auto simp: ascii_def)
  have c2: "boundary (advance (advance lx))" if "at lx 1 \<noteq> -1"
    using assms(1,3) that by (intro boundary_advance) (simp_all add: at_advance [OF lt])
  show ?thesis
  proof (cases "at lx 1 = -1")
    case True
    with c1 show ?thesis by (simp add: escape_def Let_def)
  next
    case False
    note c3 = boundary_escape_hex [of "advance (advance lx)"] boundary_escape_unicode [of "advance (advance lx)"]
    show ?thesis
      using False c2 [OF False] c3 assms(1) unfolding escape_def Let_def by simp
  qed
qed

lemma boundary_decode:
  assumes "boundary lx"
  obtains n cp where "utf8_here lx = (n, cp)" and "boundary (advance_n n lx)"
    and "pos lx < length (src lx) \<Longrightarrow> 0 < n"
    and "pos lx \<le> length (src lx) \<Longrightarrow> pos (advance_n n lx) = pos lx + n"
proof (cases "pos lx < length (src lx)")
  case True
  then obtain n cp where n: "utf8_length (drop (pos lx) (src lx)) = Some (n, cp)"
      "utf8_valid (drop n (drop (pos lx) (src lx)))"
    using utf8_valid_decode [of "drop (pos lx) (src lx)"] assms unfolding boundary_def
    by (metis drop_eq_Nil linorder_not_less)
  have "pos lx + n \<le> length (src lx)" "0 < n" using utf8_length_within [OF n(1)] True by auto
  then show ?thesis
    using n by (intro that [of n cp]) (auto simp: utf8_here_def boundary_def pos_advance_n add.commute)
next
  case False
  then have "utf8_here lx = (0, 0)" by (simp add: utf8_here_def utf8_length_def)
  with that [of 0 0] False assms show ?thesis by simp
qed

lemma boundary_close_character:
  assumes "text_valid lx" and "boundary lx"
  shows "boundary (close_character lx v s l c)"
proof -
  have 1: "boundary (advance lx)" if "at lx 0 = ascii CHR 0x27"
    using that assms by (intro boundary_advance) (auto simp: ascii_def)
  have 2: "boundary (advance_n (Suc i - pos lx) (error_at lx l c m))"
    if "find_quote (pos lx) (drop (pos lx) (src lx)) = Some i" for i m
  proof -
    have q: "find_quote j bs = Some i \<Longrightarrow> j \<le> i \<and> i < j + length bs \<and> bs ! (i - j) = of_char CHR 0x27"
      for j bs
      by (induction j bs rule: find_quote.induct)
        (auto simp: nth_Cons' Suc_diff_le split: if_splits)
    from q [OF that] have i: "pos lx \<le> i" "i < length (src lx)" "src lx ! i = of_char CHR 0x27" by auto
    have "unat (of_char CHR 0x27 :: byte) < 128" by simp
    with i utf8_valid_drop [of "src lx" i] assms(1) have "utf8_valid (drop (Suc i) (src lx))"
      by (simp add: text_valid_def)
    with i show ?thesis by (simp add: boundary_def pos_advance_n)
  qed
  show ?thesis using assms 1 2 by (auto simp: close_character_def split: option.splits)
qed

lemma boundary_character:
  assumes v: "text_valid lx" and q: "at lx 0 = ascii CHR 0x27"
    and e: "at lx 1 = ascii CHR 0x5C \<longrightarrow> at lx 2 < 128"
  shows "boundary (character lx s l c)"
proof -
  let ?a = "advance lx"
  have lt: "pos lx < length (src lx)" using at_within [OF q] by simp
  have a: "text_valid ?a" "boundary ?a" using v q by (auto intro: boundary_advance simp: ascii_def)
  have 1: "boundary (advance ?a)" if "at ?a 0 = ascii CHR 0x27"
    using that a by (intro boundary_advance) (auto simp: ascii_def)
  obtain b w where esc: "escape ?a MODE_CHAR = (b, w)" by (cases "escape ?a MODE_CHAR")
  have 2: "boundary b \<and> text_valid b" if c: "at ?a 0 = ascii CHR 0x5C"
  proof -
    have "at ?a 1 < 128" using c e at_advance [OF lt] by (simp add: numeral_2_eq_2)
    with boundary_escape [OF a(1) c, of MODE_CHAR] esc have "boundary b" by simp
    moreover have "run ?a b" using c by (intro run_escape [OF esc]) (auto simp: ascii_def)
    ultimately show ?thesis using a by (simp add: text_valid_run)
  qed
  obtain n cp where utf: "utf8_here ?a = (n, cp)" "boundary (advance_n n ?a)"
    using a(2) by (rule boundary_decode)
  show ?thesis
    using a 1 2 esc utf by (simp add: character_def Let_def boundary_close_character)
qed

lemma symbol_steps:
  assumes "symbol lx s l c = Some lx'" and "text_valid lx" and "boundary lx" and "pos lx \<le> length (src lx)"
  shows "boundary lx' \<and> pos lx < pos lx'"
proof -
  obtain k n where sym: "longest_symbol (drop (pos lx) (src lx)) = Some (k, n)"
    and lx': "lx' = push (advance_n n lx) k s l c NoValue"
    using assms(1) by (auto simp: symbol_def split: option.splits)
  obtain sp where sp: "(k, sp, CAT_SYMBOL) \<in> set kinds" "length sp = n"
      "take n (drop (pos lx) (src lx)) = bytes_of sp" "n \<le> length (drop (pos lx) (src lx))"
    using longest_symbol_in_table [OF sym] by blast
  have low: "sp \<noteq> []" "\<forall>b\<in>set (bytes_of sp). unat b < 128"
    using symbols_ascii sp(1) by (auto simp: list_all_iff)
  have "at lx j \<noteq> -1 \<and> at lx j < 128" if "j < n" for j
  proof -
    have lt: "pos lx + j < length (src lx)" using sp(4) that by simp
    have "src lx ! (pos lx + j) = bytes_of sp ! j" using sp(3,4) that lt
      by (metis (no_types, lifting) add.commute nth_drop nth_take le_add1 less_imp_le order.trans)
    then have "unat (src lx ! (pos lx + j)) < 128" using low(2) sp(2) that by simp
    with lt at_low [OF lt] at_end [of lx j] show ?thesis by simp
  qed
  then have "boundary (advance_n n lx)" using assms by (intro boundary_advance_n_ascii) auto
  moreover have "pos (advance_n n lx) = pos lx + n"
    using sp(4) assms(4) by (intro pos_advance_n) simp
  ultimately show ?thesis using lx' low sp(2) by auto
qed

section \<open>Progress\<close>

lemma moved_number_error: "moved a lx \<Longrightarrow> moved a (number_error lx s l c msg)"
  by (auto simp: number_error_def Let_def intro: movedI)

lemma moved_number_int: "moved a lx \<Longrightarrow> moved a (number_int lx hex d s l c)"
  by (auto simp: number_int_def moved_number_error split: option.splits)

lemma moved_digit_run: "digit_run hex lx d = (b, lx', d') \<Longrightarrow> moved a lx \<Longrightarrow> moved a lx'"
  using run_digit_run [of hex lx d b lx' d' lx] run_moved moved_trans by blast

lemma moved_number_float:
  assumes m: "moved a lx"
  shows "moved a (number_float lx d s l c)"
proof -
  obtain b lx2 d2 where d2: "digit_run False (advance lx) (text_append d (bytes_of ''.'')) = (b, lx2, d2)"
    by (cases "digit_run False (advance lx) (text_append d (bytes_of ''.''))")
  have m2: "moved a lx2" using d2 m by (auto intro: moved_digit_run movedI)
  let ?finish = "\<lambda>lx digits. if is_ident_char (at lx 0)
      then number_error lx s l c ''invalid character in numeric literal''
      else push lx TOKEN_FLOAT s l c (keep digits)"
  have finish: "moved a m \<Longrightarrow> moved a (?finish m digits)" for m digits
    by (simp add: moved_number_error)
  have exponent: "moved a m \<Longrightarrow> moved a (case digit_run False m e of
       (False, lx, digits) \<Rightarrow> number_error lx s l c ''`_` must stand between two digits''
     | (True, lx, digits) \<Rightarrow> ?finish lx digits)" for m e
    using moved_digit_run finish
    by (cases "digit_run False m e") (auto simp: moved_number_error split: bool.splits)
  have step: "moved a (advance m)" "moved a (advance (advance m))" if "moved a m" for m
    using that by (auto intro: movedI)
  show ?thesis
    unfolding number_float_def Let_def d2 prod.case
    using finish [OF m2] exponent step [OF m2] m2
    by (cases b; cases "at lx2 0 = ascii CHR ''e'' \<or> at lx2 0 = ascii CHR ''E''";
        cases "at (advance lx2) 0 = ascii CHR ''+'' \<or> at (advance lx2) 0 = ascii CHR ''-''")
      (simp_all add: moved_number_error)
qed

lemma digit_run_progress:
  assumes "digit_run hex lx d = (b, lx', d')" and "valid_digit hex (at lx 0)"
  shows "moved (advance lx) lx'"
proof -
  have "at lx 0 \<noteq> ascii CHR ''_''"
    using assms(2) by (auto simp: valid_digit_def is_hex_def is_digit_def ascii_def split: if_splits)
  then have "digit_run hex (advance lx) (text_append d [word_of_int (at lx 0), 0]) = (b, lx', d')"
    using assms by (simp add: digit_run.simps [of hex lx d])
  then show ?thesis by (rule moved_digit_run) simp
qed

lemma number_progress:
  assumes "is_digit (at lx 0)"
  shows "moved (advance lx) (number lx s l c)"
proof -
  let ?hex = "at lx 0 = ascii CHR ''0'' \<and> at lx 1 = ascii CHR ''x''"
  let ?lx = "if ?hex then advance (advance lx) else lx"
  obtain b lx2 d2 where d2: "digit_run ?hex ?lx text_empty = (b, lx2, d2)"
    by (cases "digit_run ?hex ?lx text_empty")
  have "moved (advance lx) lx2"
  proof (cases ?hex)
    case True
    then show ?thesis using moved_digit_run [OF d2] by simp
  next
    case False
    then have "digit_run False lx text_empty = (b, lx2, d2)" using d2 by (simp only: if_False)
    then show ?thesis by (rule digit_run_progress) (simp add: assms valid_digit_def)
  qed
  moreover have "moved (advance lx) ?lx" if ?hex using that by simp
  ultimately show ?thesis
    unfolding number_def Let_def d2 prod.case
    by (cases ?hex; cases b)
      (auto simp: moved_number_error moved_number_int moved_number_float simp del: if_split)
qed

lemma skip_block_moved: "moved lx (snd (skip_block lx n))"
  by (auto simp: skip_block_def Let_def intro!: movedI)

lemma block_doc_progress: "moved (advance_n marker lx) (block_doc lx k marker)"
proof -
  let ?w = "advance_while (\<lambda>lx. is_blank (at lx 0)) (advance_n marker lx)"
  have w: "moved (advance_n marker lx) ?w" by simp
  have sb: "moved a (snd (skip_block b n))" if "moved a b" for a b n
    using that skip_block_moved by (rule moved_trans)
  have doc: "moved a (push_doc b k s l c raw) \<longleftrightarrow> moved a b" for a b s l c raw
    by (simp add: push_doc_def Let_def)
  show ?thesis
  proof (cases "find_close ?w 0")
    case (Some i)
    have "moved (advance_n marker lx) (advance_n (trim_blanks ?w i) ?w)"
      using w by (rule moved_advance_nI)
    with Some sb show ?thesis by (simp add: block_doc_def Let_def doc)
  next
    case None
    show ?thesis
    proof (cases "at ?w 0 = 10")
      case False
      obtain b lx2 where "skip_block ?w 0 = (b, lx2)" by (cases "skip_block ?w 0")
      with None False sb [OF w, of 0] show ?thesis by (simp add: block_doc_def Let_def)
    next
      case True
      obtain lx2 r where bl: "block_lines (line lx) (column lx) True (advance ?w) text_empty = (lx2, r)"
        by (cases "block_lines (line lx) (column lx) True (advance ?w) text_empty")
      have "moved (advance_n marker lx) (advance ?w)" using w by (rule moved_advanceI)
      then have "moved (advance_n marker lx) lx2"
        using run_moved [OF run_block_lines [OF bl run_refl]] by (rule moved_trans)
      with None True bl show ?thesis
        by (auto simp: block_doc_def Let_def doc split: option.splits)
    qed
  qed
qed

lemma line_doc_progress_marker:
  assumes "doc_marker lx 0 = (k, marker)" and "k \<noteq> TOKEN_EOF"
  shows "moved (advance_n marker lx) (line_doc lx k marker)"
proof -
  obtain lx1 raw1 where t: "line_text marker lx text_empty = (lx1, raw1)"
    by (cases "line_text marker lx text_empty")
  have m1: "moved (advance_n marker lx) lx1" using t by (auto simp: line_text_def Let_def)
  obtain lx2 raw where l: "line_doc_loop k marker lx text_empty = (lx2, raw)"
    by (cases "line_doc_loop k marker lx text_empty")
  have "moved lx1 lx2"
  proof (cases "at lx1 0 = 10 \<and> next_marker lx1 k \<noteq> None")
    case True
    then obtain n len where n: "next_marker lx1 k = Some (n, len)" by auto
    then have w: "pos lx1 + n + len \<le> length (src lx1)"
      using assms(2) by (auto intro: next_marker_within)
    have "line_doc_loop k len (advance_n n lx1) (text_append raw1 [10, 0]) = (lx2, raw)"
      using l t True n by (simp add: line_doc_loop.simps [of k marker lx])
    then have "run lx1 lx2"
      by (rule run_line_doc_loop) (use w assms(2) in \<open>auto simp: pos_advance_n intro: run_advance_n\<close>)
    then show ?thesis by (rule run_moved)
  next
    case False
    with l t have "lx2 = lx1"
      by (auto simp: line_doc_loop.simps [of k marker lx] split: if_splits option.splits)
    then show ?thesis by simp
  qed
  with m1 l moved_trans show ?thesis
    by (fastforce simp: line_doc_def push_doc_def Let_def)
qed

lemma past: "pos lx < length (src lx) \<Longrightarrow> moved (advance lx) b \<Longrightarrow> pos lx < pos b"
  by (auto simp: moved_def pos_advance)

lemma past_n: "pos lx + n \<le> length (src lx) \<Longrightarrow> 0 < n \<Longrightarrow> moved (advance_n n lx) b \<Longrightarrow> pos lx < pos b"
  by (auto simp: moved_def pos_advance_n)

lemma moved_after_advance:
  "pos a \<le> pos b \<Longrightarrow> src b = src a \<Longrightarrow> pos a < length (src a) \<Longrightarrow> moved (advance a) (advance b)"
  by (cases "pos b < length (src b)") (auto simp: moved_def advance_def)

lemma moved_close_character: "moved a lx \<Longrightarrow> moved a (close_character lx v s l c)"
  by (auto simp: close_character_def intro!: movedI split: option.splits)

lemma character_progress: "moved (advance lx) (character lx s l c)"
proof -
  let ?a = "advance lx"
  obtain b w where esc: "escape ?a MODE_CHAR = (b, w)" by (cases "escape ?a MODE_CHAR")
  have "moved ?a b" using moved_escape [of ?a MODE_CHAR] esc moved_advance moved_trans by fastforce
  moreover obtain n cp where "utf8_here ?a = (n, cp)" by (cases "utf8_here ?a")
  ultimately show ?thesis using esc by (simp add: character_def Let_def moved_close_character)
qed

lemma string_token_progress:
  assumes "at lx 0 \<noteq> -1" and "starts_string lx"
  shows "pos lx < pos (string_token lx s l c)"
proof -
  have lt: "pos lx < length (src lx)" using assms(1) by (auto dest: within0)
  have tok: "moved a (case string_loop raw mode n b text_empty True of
           (False, m, bytes, valid) \<Rightarrow> push (error_at m l c msg) TOKEN_ERROR s l c NoValue
         | (True, m, bytes, valid) \<Rightarrow>
             if valid then push m k s l c (keep bytes) else push m TOKEN_ERROR s l c NoValue)"
    if "moved a b" for raw mode n msg k a b
  proof (cases "string_loop raw mode n b text_empty True")
    case (fields closed m bytes valid)
    then have "run b m" by (rule run_string_loop) simp
    then have "moved a m" using that run_moved moved_trans by blast
    with fields show ?thesis by (cases closed; cases valid) simp_all
  qed
  let ?b = "if at lx 0 = ascii CHR ''b'' then advance lx else lx"
  let ?r = "if at ?b 0 = ascii CHR ''r'' then advance ?b else ?b"
  let ?h = "advance_while (\<lambda>lx. at lx 0 = ascii CHR ''#'') ?r"
  have "moved lx ?h" by (intro movedI) (auto intro: movedI)
  then have "pos lx \<le> pos ?h" "src ?h = src lx" by (auto simp: moved_def)
  then have "moved (advance lx) (advance ?h)" using lt by (rule moved_after_advance)
  then have "moved (advance lx) (string_token lx s l c)"
    unfolding string_token_def Let_def by (intro tok)
  with lt show ?thesis by (rule past)
qed

text \<open>No backslash that starts a character literal stands before a character that is not ASCII.\<close>

fun escapes_ascii :: "byte list \<Rightarrow> bool" where
  "escapes_ascii (a # b # c # s) \<longleftrightarrow>
     \<not> (a = of_char CHR 0x27 \<and> b = of_char CHR 0x5C \<and> c \<ge> 0x80) \<and> escapes_ascii (b # c # s)"
| "escapes_ascii s \<longleftrightarrow> True"

lemma escapes_ascii_nth:
  "escapes_ascii s \<Longrightarrow> i + 2 < length s \<Longrightarrow> s ! i = of_char CHR 0x27 \<Longrightarrow>
     s ! (i + 1) = of_char CHR 0x5C \<Longrightarrow> s ! (i + 2) < 0x80"
proof (induction s arbitrary: i rule: escapes_ascii.induct)
  case (1 a b c s)
  then show ?case by (cases i) (auto simp: not_le)
qed auto

lemma at_eq_byte: "at lx i = uint (b :: byte) \<Longrightarrow> src lx ! (pos lx + i) = b"
proof -
  assume eq: "at lx i = uint b"
  then have "at lx i \<noteq> -1" by simp
  then have "pos lx + i < length (src lx)" by (rule within)
  with eq show ?thesis by (simp add: at_def Let_def word_uint_eq_iff)
qed

lemma escape_low:
  assumes "escapes_ascii (src lx)" and "at lx 0 = ascii CHR 0x27" and "at lx 1 = ascii CHR 0x5C"
  shows "at lx 2 < 128"
proof (cases "pos lx + 2 < length (src lx)")
  case True
  have "src lx ! pos lx = of_char CHR 0x27" "src lx ! (pos lx + 1) = of_char CHR 0x5C"
    using at_eq_byte [of lx 0 "of_char CHR 0x27"] at_eq_byte [of lx 1 "of_char CHR 0x5C"] assms(2,3)
    by (simp_all add: ascii_def)
  then have "src lx ! (pos lx + 2) < 0x80" using escapes_ascii_nth [OF assms(1)] True by blast
  then show ?thesis using True at_low [OF True] by (simp add: word_less_nat_alt)
next
  case False
  then show ?thesis by (simp add: at_def)
qed

lemma lex_step_progress:
  assumes s: "lex_step lx = (True, lx')" and v: "text_valid lx" and b: "boundary lx"
    and w: "pos lx \<le> length (src lx)" and e: "escapes_ascii (src lx)"
  shows "pos lx < pos lx' \<and> boundary lx'"
proof -
  let ?m = "skip_trivia lx"
  let ?l = "line ?m" let ?c = "column ?m" let ?s = "pos ?m"
  have r: "run lx ?m" by (simp add: run_skip_trivia)
  have m: "text_valid ?m" "boundary ?m" "pos ?m \<le> length (src ?m)" "escapes_ascii (src ?m)"
      "pos lx \<le> pos ?m"
    using v b w e r boundary_skip_trivia [OF v b] run_within [OF r w] run_moved [OF r]
    by (auto simp: text_valid_run src_run moved_def)
  have ne: "at ?m 0 \<noteq> -1" using s by (auto simp: lex_step_def Let_def split: if_splits prod.splits)
  then have lt: "pos ?m < length (src ?m)" by (auto dest: within0)
  have p: "pos ?m < pos b" if "moved (advance ?m) b" for b using lt that by (rule past)
  obtain k marker where d: "doc_marker ?m 0 = (k, marker)" by (cases "doc_marker ?m 0")
  have len: "0 < marker" using d by (auto simp: doc_marker_def Let_def split: if_splits)
  have docs: "boundary (line_doc ?m k marker) \<and> pos ?m < pos (line_doc ?m k marker)"
      "boundary (block_doc ?m k marker) \<and> pos ?m < pos (block_doc ?m k marker)" if "k \<noteq> TOKEN_EOF"
    using boundary_line_doc [OF m(1) d that] boundary_block_doc [OF m(1), of k marker]
      past_n [OF _ len line_doc_progress_marker [OF d that]] past_n [OF _ len block_doc_progress]
      doc_marker_within [OF d that] by auto
  have str: "boundary (string_token ?m ?s ?l ?c) \<and> pos ?m < pos (string_token ?m ?s ?l ?c)"
    if "starts_string ?m"
    using boundary_string_token [OF m(1)] string_token_progress [OF ne that] by auto
  have ident: "boundary (identifier_token ?m ?s ?l ?c) \<and> pos ?m < pos (identifier_token ?m ?s ?l ?c)"
    if "is_ident_start (at ?m 0)"
    using boundary_identifier [OF m(1,2)] that lt
      advance_while_progress [of "\<lambda>lx. is_ident_char (at lx 0)" ?m]
    by (auto simp: identifier_token_def Let_def is_ident_char_def)
  have num: "boundary (number ?m ?s ?l ?c) \<and> pos ?m < pos (number ?m ?s ?l ?c)"
    if "is_digit (at ?m 0)"
    using boundary_number [OF m(1,2)] p [OF number_progress [OF that]] by auto
  have ch: "boundary (character ?m ?s ?l ?c) \<and> pos ?m < pos (character ?m ?s ?l ?c)"
    if "at ?m 0 = ascii CHR 0x27"
  proof -
    have "pos ?m < pos (character ?m ?s ?l ?c)" by (rule p) (rule character_progress)
    with boundary_character [OF m(1) that] escape_low [OF m(4) that] show ?thesis by auto
  qed
  have unex: "boundary (unexpected ?m ch ?s ?l ?c) \<and> pos ?m < pos (unexpected ?m ch ?s ?l ?c)" for ch
  proof -
    obtain n cp where u: "utf8_here ?m = (n, cp)" "boundary (advance_n n ?m)" "0 < n"
        "pos (advance_n n ?m) = pos ?m + n"
      using m(2,3) lt by (metis boundary_decode)
    have "src (advance_n n (error_at ?m l c msg)) = src (advance_n n ?m)"
      "pos (advance_n n (error_at ?m l c msg)) = pos (advance_n n ?m)" for l c msg
      using u(4) run_within [OF run_utf8_here [OF u(1) run_refl] m(3)]
      by (simp_all add: pos_advance_n)
    with u show ?thesis by (auto simp: unexpected_def Let_def boundary_def)
  qed
  have "boundary lx' \<and> pos ?m < pos lx'"
    using s ne d docs str ident num ch unex symbol_steps [OF _ m(1,2,3)]
    by (auto simp: lex_step_def Let_def split: if_splits option.splits)
  with m(5) show ?thesis by simp
qed

section \<open>The loop returns\<close>

lemma validate_valid:
  "validate_from s l c = None \<longleftrightarrow> utf8_valid s"
proof (induction s l c rule: validate_from.induct)
  case (1 s l c)
  show ?case
  proof (cases "utf8_length s")
    case None
    then show ?thesis
      using utf8_valid_decode [of s] by (auto simp: validate_from.simps [of s l c])
  next
    case (Some r)
    obtain n cp where r: "r = (n, cp)" by (cases r)
    have ne: "s \<noteq> []" using Some by (auto simp: utf8_length_def)
    have s: "scalar cp" "s = encode cp @ drop n s"
      using utf8_length_sound Some r by blast+
    have "utf8_valid s \<longleftrightarrow> utf8_valid (drop n s)"
    proof
      assume "utf8_valid s"
      then obtain n' cp' where "utf8_length s = Some (n', cp')" "utf8_valid (drop n' s)"
        using ne by (rule utf8_valid_decode)
      with Some r show "utf8_valid (drop n s)" by simp
    qed (use s utf8_valid_encode in metis)
    with 1 Some r ne show ?thesis by (auto simp: validate_from.simps [of s l c])
  qed
qed

lemma lex_loop_returns:
  assumes "text_valid lx" and "boundary lx" and "pos lx \<le> length (src lx)" and "escapes_ascii (src lx)"
  shows "\<exists>r. lex_loop lx = Some r"
  using assms
proof (induction "length (src lx) - pos lx" arbitrary: lx rule: less_induct)
  case less
  obtain b lx' where s: "lex_step lx = (b, lx')" by (cases "lex_step lx")
  show ?case
  proof (cases b)
    case False
    with s show ?thesis by (subst lex_loop.simps) simp
  next
    case True
    have p: "pos lx < pos lx'" "boundary lx'" using lex_step_progress [of lx lx'] s True less.prems by auto
    obtain m where m: "run lx m" "token_of m lx'" using lex_step_run [OF s less.prems(3)] by blast
    then obtain q where q: "run m q" "src lx' = src q" "pos lx' = pos q" by (auto simp: token_of_def)
    have "run lx q" using q(1) m(1) by (rule run_trans)
    then have "src lx' = src lx" "pos lx' \<le> length (src lx)"
      using q run_within [of lx q] less.prems(3) by (auto simp: src_run)
    then have "\<exists>r. lex_loop lx' = Some r"
      using p less.prems by (intro less.hyps) (auto simp: text_valid_def)
    with s True show ?thesis by (subst lex_loop.simps) simp
  qed
qed

lemma utf8_valid_bom: "utf8_valid s \<Longrightarrow> utf8_valid ([0xEF, 0xBB, 0xBF] @ s)"
proof -
  assume s: "utf8_valid s"
  have "scalar 0xFEFF" "encode 0xFEFF = [0xEF, 0xBB, 0xBF]" by code_simp+
  then show ?thesis using s utf8_valid_encode by metis
qed

text \<open>
  C24. \<open>validate\<close> accepts a source exactly when what follows the byte order mark is a sequence of
  encoded Unicode scalar values.
\<close>

theorem validate_iff:
  "fst (validate (lex_start source)) \<longleftrightarrow>
     (\<exists>cps. list_all scalar cps \<and>
        drop (if take 3 source = [0xEF, 0xBB, 0xBF] then 3 else 0) source = concat (map encode cps))"
proof -
  have "fst (validate (lex_start source)) \<longleftrightarrow>
      validate_from (drop (pos (lex_start source)) source) 1 1 = None"
    by (auto simp: validate_def lex_start_def split: option.splits)
  then show ?thesis unfolding validate_valid by (simp add: utf8_valid_def lex_start_def list_all_iff)
qed

text \<open>
  C9. \<open>lex\<close> returns on every source in which no character literal starts with a backslash
  before a character that is not ASCII. The hypothesis is about the only way the loop can stop
  making progress.
\<close>

theorem lex_returns:
  assumes "escapes_ascii source"
  shows "\<exists>lx. lex source = Some lx"
proof -
  let ?lx = "lex_start source"
  obtain b lx where v: "validate ?lx = (b, lx)" by (cases "validate ?lx")
  show ?thesis
  proof (cases b)
    case False
    with v show ?thesis by (simp add: lex_def)
  next
    case True
    with v have none: "validate_from (drop (pos ?lx) source) 1 1 = None" and lx: "lx = ?lx"
      by (auto simp: validate_def lex_start_def split: option.splits)
    from none have b: "utf8_valid (drop (pos ?lx) source)" by (simp only: validate_valid)
    have "utf8_valid source"
    proof (cases "take 3 source = [0xEF, 0xBB, 0xBF]")
      case True
      with b utf8_valid_bom [of "drop 3 source"] append_take_drop_id [of 3 source]
      show ?thesis by (simp add: lex_start_def)
    qed (use b in \<open>simp add: lex_start_def\<close>)
    moreover have "pos ?lx \<le> length source"
      using length_take [of 3 source] by (auto simp: lex_start_def simp del: length_take)
    ultimately have "\<exists>r. lex_loop ?lx = Some r"
      using b assms by (intro lex_loop_returns) (auto simp: text_valid_def boundary_def lex_start_def)
    with v lx True show ?thesis by (simp add: lex_def)
  qed
qed

theorem lex_returns_witness: "\<exists>lx. lex (bytes_of ''let c = 1;'') = Some lx"
  by (rule lex_returns) code_simp

text \<open>A state at a byte that starts no character and no token is left as it is by every turn.\<close>

definition stuck :: "lexer \<Rightarrow> bool" where
  "stuck lx \<longleftrightarrow> src lx = [0x27, 0x5C, 0xC3, 0xA9] \<and> pos lx = 3"

lemma stuck_step: "stuck lx \<Longrightarrow> \<exists>lx'. lex_step lx = (True, lx') \<and> stuck lx'"
proof -
  assume s: "stuck lx"
  have at: "at lx 0 = 0xA9" "at lx 1 = -1" "at lx 2 = -1" "at lx 3 = -1"
    using s by (simp_all add: stuck_def at_def)
  have t: "skip_trivia lx = lx" using at by (simp add: skip_trivia.simps [of lx] Let_def ascii_def)
  have d: "fst (doc_marker lx 0) = TOKEN_EOF" using at by (simp add: doc_marker_def Let_def ascii_def)
  have "longest_symbol [0xA9] = None" "utf8_length [0xA9] = None" by code_simp+
  then have "symbol lx (pos lx) (line lx) (column lx) = None" "utf8_here lx = (0, 0)"
    using s by (simp_all add: symbol_def stuck_def utf8_here_def)
  with at t d s show ?thesis
    by (auto simp: lex_step_def Let_def ascii_def is_ident_start_def is_digit_def unexpected_def
        stuck_def error_at_def push_def split: prod.splits)
qed

lemma stuck_loop:
  assumes "lex_loop lx = Some r"
  shows "\<not> stuck lx"
proof (rule lex_loop.raw_induct [OF _ assms])
  fix loop lx r
  assume IH: "\<And>lx r. loop lx = Some r \<Longrightarrow> \<not> stuck lx"
    and body: "(case lex_step lx of (continues, lx') \<Rightarrow> if continues then loop lx' else Some lx') = Some r"
  show "\<not> stuck lx"
  proof
    assume "stuck lx"
    then obtain lx' where "lex_step lx = (True, lx')" "stuck lx'" using stuck_step by blast
    with IH [of lx' r] body show False by simp
  qed
qed

text \<open>
  C33. The lexer does not return on the four bytes of a quote, a backslash and the two bytes of a
  letter with an accent: valid UTF-8, and an unterminated character literal. \<open>escape\<close> steps
  over one byte of the letter, and the loop then finds no token and no character at its second.
\<close>

theorem lex_diverges:
  "fst (validate (lex_start [0x27, 0x5C, 0xC3, 0xA9])) \<and> lex [0x27, 0x5C, 0xC3, 0xA9] = None"
proof -
  let ?s = "[0x27, 0x5C, 0xC3, 0xA9] :: byte list"
  have v: "validate (lex_start ?s) = (True, lex_start ?s)" by code_simp
  obtain b lx where s: "lex_step (lex_start ?s) = (b, lx)" by (cases "lex_step (lex_start ?s)")
  have "case lex_step (lex_start ?s) of (b, lx) \<Rightarrow> b \<and> src lx = ?s \<and> pos lx = 3" by code_simp
  with s have "b \<and> stuck lx" by (simp add: stuck_def)
  then have "lex_loop (lex_start ?s) = None"
    using s stuck_loop [of lx] by (subst lex_loop.simps) (cases "lex_loop lx", auto)
  with v show ?thesis by (simp add: lex_def)
qed

end
