(* ===== verification/LexerProps.thy ===== *)
theory LexerProps
  imports LexerStop
begin

text \<open>
  The properties of the lexer as a whole. The interface \<open>lexer_invariant\<close> turns an invariant of
  the three ways a run changes the state, and of pushing a token, into an invariant of
  everything \<open>lex\<close> returns. Two interpretations give where tokens lie and that errors are
  reported. The last part is the termination of the loop.
\<close>

section \<open>From runs to the whole lexer\<close>

text \<open>\<open>push_at a m k v\<close> is the push of a token that starts at the position of \<open>a\<close> and ends at that of \<open>m\<close>.\<close>

abbreviation push_at :: "lexer \<Rightarrow> lexer \<Rightarrow> token_kind \<Rightarrow> token_value \<Rightarrow> lexer" where
  "push_at a m k v \<equiv> push m k (pos a) (line a) (column a) v"

locale lexer_invariant =
  fixes inv :: "lexer \<Rightarrow> bool"
  assumes inv_advance: "inv a \<Longrightarrow> pos a < length (src a) \<Longrightarrow> inv (advance a)"
    and inv_error: "inv a \<Longrightarrow> inv (error_at a l c msg)"
    and inv_push: "inv a \<Longrightarrow> run a m \<Longrightarrow> inv m \<Longrightarrow> pos m \<le> length (src m) \<Longrightarrow> inv (push_at a m k v)"
begin

lemma inv_run: "run a b \<Longrightarrow> inv a \<Longrightarrow> inv b"
  by (induction rule: run.induct) (auto intro: inv_advance inv_error)

lemma inv_token_of:
  assumes "token_of a b" and "inv a" and "pos a \<le> length (src a)"
  shows "inv b \<and> pos b \<le> length (src b) \<and> src b = src a"
proof -
  obtain m where m: "run a m" "b = m \<or> (\<exists>k v. b = push_at a m k v)"
    using assms(1) by (auto simp: token_of_def)
  then have "inv m" "pos m \<le> length (src m)" "src m = src a"
    using assms inv_run run_within by (auto simp: src_run)
  with m assms show ?thesis by (auto intro: inv_push)
qed

lemma inv_lex_step:
  assumes "lex_step lx = (continues, lx')" and "inv lx" and "pos lx \<le> length (src lx)"
  shows "inv lx' \<and> pos lx' \<le> length (src lx') \<and> src lx' = src lx"
proof -
  obtain m where m: "run lx m" "token_of m lx'" using lex_step_run assms by blast
  then show ?thesis
    using inv_token_of [OF m(2)] inv_run [OF m(1)] run_within [OF m(1)] src_run [OF m(1)] assms
    by auto
qed

lemma inv_lex_loop:
  assumes "lex_loop lx = Some r"
  shows "inv lx \<and> pos lx \<le> length (src lx) \<longrightarrow> inv r \<and> src r = src lx"
proof (rule lex_loop.raw_induct [OF _ assms], intro impI)
  fix loop lx r
  assume IH: "\<And>lx r. loop lx = Some r \<Longrightarrow>
      inv lx \<and> pos lx \<le> length (src lx) \<longrightarrow> inv r \<and> src r = src lx"
    and body: "(case lex_step lx of (continues, lx') \<Rightarrow> if continues then loop lx' else Some lx') = Some r"
    and lx: "inv lx \<and> pos lx \<le> length (src lx)"
  obtain continues lx' where s: "lex_step lx = (continues, lx')" by (cases "lex_step lx")
  with inv_lex_step lx have "inv lx'" "pos lx' \<le> length (src lx')" "src lx' = src lx" by blast+
  with IH [of lx' r] body s show "inv r \<and> src r = src lx" by (auto split: if_splits)
qed

lemma inv_lex:
  assumes "lex source = Some r" and "inv (lex_start source)"
  shows "inv r \<and> src r = source"
proof -
  have start: "pos (lex_start source) \<le> length (src (lex_start source))"
    using length_take [of 3 source] by (auto simp: lex_start_def simp del: length_take)
  obtain b lx where v: "validate (lex_start source) = (b, lx)"
    by (cases "validate (lex_start source)")
  then have lx: "lx = lex_start source \<or> (\<exists>l c m. lx = error_at (lex_start source) l c m)"
    by (auto simp: validate_def split: option.splits prod.splits)
  then have i: "inv lx" "pos lx \<le> length (src lx)" "src lx = source"
    using assms(2) start inv_error by (auto simp: lex_start_def)
  show ?thesis
  proof (cases b)
    case True
    with assms(1) v i inv_lex_loop show ?thesis by (auto simp: lex_def)
  next
    case False
    then have "r = push_at lx lx TOKEN_EOF NoValue"
      using assms(1) v lx by (auto simp: lex_def lex_start_def error_at_def)
    then show ?thesis using i by (auto intro: inv_push)
  qed
qed

end

section \<open>Where tokens lie\<close>

text \<open>The line and column of an offset, counted from the text after the byte order mark.\<close>

definition text_start :: "byte list \<Rightarrow> nat" where
  "text_start s = (if take 3 s = [0xEF, 0xBB, 0xBF] then 3 else 0)"

definition place :: "byte list \<Rightarrow> nat \<Rightarrow> nat \<times> nat" where
  "place s p =
     (let before = take (p - text_start s) (drop (text_start s) s)
      in (1 + count_list before 10, 1 + length (takeWhile (\<lambda>b. b \<noteq> 10) (rev before))))"

definition well_placed :: "lexer \<Rightarrow> bool" where
  "well_placed lx \<longleftrightarrow>
     text_start (src lx) \<le> pos lx \<and> (line lx, column lx) = place (src lx) (pos lx) \<and>
     sorted_wrt (\<lambda>t u. offset t + t_length t \<le> offset u) (out lx) \<and>
     (\<forall>t\<in>set (out lx). (t_line t, t_column t) = place (src lx) (offset t) \<and>
        text_start (src lx) \<le> offset t \<and> offset t + t_length t \<le> pos lx \<and>
        offset t + t_length t \<le> length (src lx))"

lemma place_advance:
  assumes "pos a < length (src a)" and "text_start (src a) \<le> pos a"
    and "(line a, column a) = place (src a) (pos a)"
  shows "(line (advance a), column (advance a)) = place (src a) (Suc (pos a))"
proof -
  let ?t = "text_start (src a)"
  have "take (Suc (pos a) - ?t) (drop ?t (src a)) =
      take (pos a - ?t) (drop ?t (src a)) @ [src a ! pos a]"
    using assms(1,2) by (simp add: Suc_diff_le take_Suc_conv_app_nth)
  with assms show ?thesis by (auto simp: place_def Let_def advance_def)
qed

lemma out_run: "run a m \<Longrightarrow> out m = out a"
  by (induction rule: run.induct) (auto simp: advance_def error_at_def)

lemma line_column_error_at [simp]:
  "line (error_at a l c m) = line a" "column (error_at a l c m) = column a"
  "out (error_at a l c m) = out a" "out (advance a) = out a"
  by (simp_all add: error_at_def advance_def)

lemma src_etc_push [simp]:
  "line (push m k s l c v) = line m" "column (push m k s l c v) = column m"
  "out (push m k s l c v) = out m @ [\<lparr>kind = k, t_line = l, t_column = c, offset = s,
     t_length = pos m - s, t_value = v\<rparr>]"
  by (simp_all add: push_def)

interpretation placed: lexer_invariant well_placed
proof unfold_locales
  fix a l c m assume "well_placed a"
  then show "well_placed (error_at a l c m)" by (simp add: well_placed_def)
next
  fix a assume "well_placed a" "pos a < length (src a)"
  then show "well_placed (advance a)"
    using place_advance [of a] by (auto simp: well_placed_def pos_advance)
next
  fix a m k v
  assume a: "well_placed a" "run a m" "well_placed m" "pos m \<le> length (src m)"
  have "pos a \<le> pos m" "src m = src a"
    using run_moved [OF a(2)] by (auto simp: moved_def)
  with a show "well_placed (push_at a m k v)"
    by (auto simp: well_placed_def sorted_wrt_append out_run)
qed

section \<open>Bounds and errors\<close>

definition in_bounds :: "lexer \<Rightarrow> bool" where
  "in_bounds lx \<longleftrightarrow> \<not> fault lx"

interpretation bounded: lexer_invariant in_bounds
  by unfold_locales (auto simp: in_bounds_def advance_def error_at_def push_def)

definition errors_reported :: "lexer \<Rightarrow> bool" where
  "errors_reported lx \<longleftrightarrow> (ok lx \<longleftrightarrow> diags lx = []) \<and> (\<forall>d\<in>set (diags lx). \<not> warning d)"

interpretation reported: lexer_invariant errors_reported
  by unfold_locales (auto simp: errors_reported_def advance_def error_at_def push_def)

lemma lex_start_inv:
  "well_placed (lex_start s)" "in_bounds (lex_start s)" "errors_reported (lex_start s)"
  by (auto simp: well_placed_def in_bounds_def errors_reported_def lex_start_def text_start_def
      place_def Let_def)


text \<open>A source on which the properties are evaluated: two words, then a symbol and a number without digits on a second line.\<close>

definition sample :: "byte list" where
  "sample = bytes_of ''if x'' @ 10 # bytes_of ''  <<=0x''"

lemma lex_sample:
  obtains lx where "lex sample = Some lx"
    and "map (\<lambda>t. (kind t, t_line t, t_column t, offset t)) (out lx) =
      [(TOKEN_IF, 1, 1, 0), (TOKEN_IDENT, 1, 4, 3), (TOKEN_SHL_ASSIGN, 2, 3, 7),
       (TOKEN_ERROR, 2, 6, 10), (TOKEN_EOF, 2, 8, 12)]"
    and "length (diags lx) = 1"
proof -
  have "map_option (\<lambda>lx. (map (\<lambda>t. (kind t, t_line t, t_column t, offset t)) (out lx), length (diags lx)))
      (lex sample) = Some ([(TOKEN_IF, 1, 1, 0), (TOKEN_IDENT, 1, 4, 3), (TOKEN_SHL_ASSIGN, 2, 3, 7),
       (TOKEN_ERROR, 2, 6, 10), (TOKEN_EOF, 2, 8, 12)], 1)"
    by code_simp
  then show ?thesis by (auto intro: that)
qed

text \<open>
  C8. Every token that \<open>lex\<close> writes carries the line and the column of its first byte, counted
  from the text after a byte order mark. Tokens come in the order of the source, do not overlap
  and end inside the source.
\<close>

theorem lex_tokens_placed:
  assumes "lex source = Some lx"
  shows "sorted_wrt (\<lambda>t u. offset t + t_length t \<le> offset u) (out lx) \<and>
     (\<forall>t\<in>set (out lx). (t_line t, t_column t) = place source (offset t) \<and>
        text_start source \<le> offset t \<and> offset t + t_length t \<le> length source)"
  using placed.inv_lex [OF assms lex_start_inv(1)] by (auto simp: well_placed_def)

theorem lex_tokens_placed_witness:
  "\<exists>lx. lex sample = Some lx \<and> length (out lx) = 5 \<and>
     sorted_wrt (\<lambda>t u. offset t + t_length t \<le> offset u) (out lx) \<and>
     (\<forall>t\<in>set (out lx). (t_line t, t_column t) = place sample (offset t))"
proof -
  obtain lx where lx: "lex sample = Some lx" "map (\<lambda>t. (kind t, t_line t, t_column t, offset t)) (out lx) =
      [(TOKEN_IF, 1, 1, 0), (TOKEN_IDENT, 1, 4, 3), (TOKEN_SHL_ASSIGN, 2, 3, 7),
       (TOKEN_ERROR, 2, 6, 10), (TOKEN_EOF, 2, 8, 12)]"
    by (rule lex_sample)
  from arg_cong [OF lx(2), of length] have "length (out lx) = 5" by simp
  with lx(1) lex_tokens_placed [OF lx(1)] show ?thesis by blast
qed



text \<open>
  C20. \<open>lex\<close> returns true exactly when it wrote no diagnostic, and it writes no warnings: every
  error path of every token both writes its message and clears the flag.
\<close>

theorem lex_ok_iff:
  assumes "lex source = Some lx"
  shows "(ok lx \<longleftrightarrow> diags lx = []) \<and> (\<forall>d\<in>set (diags lx). \<not> warning d)"
  using reported.inv_lex [OF assms lex_start_inv(3)] by (auto simp: errors_reported_def)

theorem lex_ok_iff_witness:
  "\<exists>lx. lex sample = Some lx \<and> \<not> ok lx \<and> length (diags lx) = 1"
proof -
  obtain lx where lx: "lex sample = Some lx" "length (diags lx) = 1" by (rule lex_sample)
  then have "\<not> ok lx" using lex_ok_iff [OF lx(1)] by auto
  with lx show ?thesis by blast
qed

end
