(* ===== verification/Ir.thy ===== *)
theory Ir
  imports Text
begin

text \<open>
  \<open>src/ir.h\<close> and \<open>src/ir.c\<close>: the intermediate representation. The C structs are records and the
  tagged unions datatypes. A list takes the place of an array with its count, so the capacities
  and the release of memory have no counterpart. An index is a natural number, and the absent
  result of an instruction is \<open>None\<close>. A double is known by its 64 bits, as \<open>ir_const_equal\<close>
  compares it.

  A builder of the source changes a function through the pointer it is given. Here it takes the
  function and the index of the block and returns the function changed. The type table and the
  table of symbolic values are filled on demand: an entry is found again by its key. That is the
  interface \<open>interner\<close>, which both provide.
\<close>

section \<open>Types\<close>

datatype ir_type =
    IR_VOID | IR_I8 | IR_I16 | IR_I32 | IR_I64 | IR_F32 | IR_F64 | IR_PTR | IR_AGG | IR_CLONG
  | IR_CWCHAR

definition IR_NO_AGG :: nat where
  "IR_NO_AGG = 2 ^ 32 - 1"

record ir_vtype =
  vt_type :: ir_type
  vt_agg :: nat

datatype ir_agg_kind = IR_AGG_STRUCT | IR_AGG_UNION | IR_AGG_ARRAY

datatype ir_ext = IR_EXT_NONE | IR_EXT_SIGN | IR_EXT_ZERO

record ir_field =
  fd_name :: "string option"
  fd_type :: ir_vtype
  fd_bits :: nat
  fd_ext :: ir_ext

record ir_aggtype =
  agg_kind :: ir_agg_kind
  agg_name :: string
  agg_fields :: "ir_field list"
  agg_packed :: bool
  agg_align :: u64
  agg_length :: nat
  agg_length_text :: "string option"

section \<open>Operations and operands\<close>

datatype (plugins only: code size) ir_op =
    IR_ADD | IR_SUB | IR_MUL | IR_SDIV | IR_UDIV | IR_SREM | IR_UREM
  | IR_AND | IR_OR | IR_XOR | IR_SHL | IR_SHR_S | IR_SHR_U
  | IR_FADD | IR_FSUB | IR_FMUL | IR_FDIV
  | IR_NEG | IR_NOT | IR_FNEG | IR_COPY
  | IR_EQ | IR_NE | IR_SLT | IR_SLE | IR_SGT | IR_SGE
  | IR_ULT | IR_ULE | IR_UGT | IR_UGE
  | IR_FEQ | IR_FNE | IR_FLT | IR_FLE | IR_FGT | IR_FGE
  | IR_TRUNC | IR_SEXT | IR_ZEXT | IR_SITOF | IR_UITOF | IR_FTOSI | IR_FTOUI
  | IR_FEXT | IR_FTRUNC
  | IR_SLOT | IR_LOAD | IR_STORE | IR_PTRADD | IR_MEMCOPY | IR_ADDR | IR_BITLOAD | IR_BITSTORE
  | IR_CALL | IR_JUMP | IR_BRANCH | IR_RET

datatype ir_sym_kind = IR_SYM_INT | IR_SYM_SIZE_OF | IR_SYM_OFFSET_OF | IR_SYM_OP

record ir_sym =
  sy_kind :: ir_sym_kind
  sy_type :: ir_type
  sy_value :: u64
  sy_of :: ir_vtype
  sy_field :: nat
  sy_op :: ir_op
  sy_a :: nat
  sy_b :: nat

text \<open>\<open>struct ir_operand\<close>: its kind is the constructor, with the type and the member of the union.\<close>

type_synonym double = u64

datatype ir_operand =
    IR_NONE
  | IR_TEMP ir_type nat
  | IR_INT ir_type u64
  | IR_FLOAT ir_type double
  | IR_GLOBAL ir_type nat
  | IR_FUNC ir_type nat
  | IR_BLOCK ir_type nat
  | IR_SYM ir_type nat

text \<open>The value of \<open>enum ir_operand_kind\<close> that an operand carries.\<close>

fun operand_kind :: "ir_operand \<Rightarrow> nat" where
  "operand_kind IR_NONE = 0"
| "operand_kind (IR_TEMP _ _) = 1"
| "operand_kind (IR_INT _ _) = 2"
| "operand_kind (IR_FLOAT _ _) = 3"
| "operand_kind (IR_GLOBAL _ _) = 4"
| "operand_kind (IR_FUNC _ _) = 5"
| "operand_kind (IR_BLOCK _ _) = 6"
| "operand_kind (IR_SYM _ _) = 7"

fun op_type :: "ir_operand \<Rightarrow> ir_type" where
  "op_type IR_NONE = IR_VOID"
| "op_type (IR_TEMP t _) = t"
| "op_type (IR_INT t _) = t"
| "op_type (IR_FLOAT t _) = t"
| "op_type (IR_GLOBAL t _) = t"
| "op_type (IR_FUNC t _) = t"
| "op_type (IR_BLOCK t _) = t"
| "op_type (IR_SYM t _) = t"

text \<open>The union read as an index, whatever member was written. An index is a \<open>uint32_t\<close>.\<close>

fun as_index :: "ir_operand \<Rightarrow> nat" where
  "as_index IR_NONE = 0"
| "as_index (IR_TEMP _ i) = i"
| "as_index (IR_INT _ v) = unat v mod 2 ^ 32"
| "as_index (IR_FLOAT _ v) = unat v mod 2 ^ 32"
| "as_index (IR_GLOBAL _ i) = i"
| "as_index (IR_FUNC _ i) = i"
| "as_index (IR_BLOCK _ i) = i"
| "as_index (IR_SYM _ i) = i"

record ir_inst =
  i_op :: ir_op
  i_type :: ir_type
  i_result :: "nat option"
  i_a :: ir_operand
  i_b :: ir_operand
  i_c :: ir_operand
  i_of :: ir_vtype
  i_field :: nat
  i_args :: "ir_operand list"

section \<open>Functions and modules\<close>

record ir_block =
  b_index :: nat
  b_insts :: "ir_inst list"
  b_assert_fail :: bool
  b_loop_depth :: nat

record ir_param =
  p_type :: ir_type
  p_ext :: ir_ext
  p_agg :: nat
  p_temp :: "nat option"

record ir_function =
  f_index :: nat
  f_module :: "string option"
  f_name :: string
  f_params :: "ir_param list"
  f_result :: ir_type
  f_result_agg :: nat
  f_is_extern :: bool
  f_variadic :: bool
  f_exported :: bool
  f_blocks :: "ir_block list"
  f_temps :: "ir_type list"

record ir_reloc =
  r_offset :: u64
  r_global :: nat
  r_fn :: bool

datatype ir_const =
    IR_CONST_NONE ir_type
  | IR_CONST_INT ir_type u64
  | IR_CONST_FLOAT ir_type double
  | IR_CONST_SYM ir_type nat
  | IR_CONST_ADDR ir_type nat
  | IR_CONST_FUNC ir_type nat
  | IR_CONST_AGG ir_type ir_vtype "ir_const list"

record ir_global =
  g_index :: nat
  g_module :: "string option"
  g_name :: string
  g_bytes :: "byte list"
  g_size :: u64
  g_align :: u64
  g_relocs :: "ir_reloc list"
  g_value :: "ir_const option"
  g_mutable :: bool
  g_exported :: bool
  g_is_extern :: bool

record ir_module =
  m_name :: string
  m_aggs :: "ir_aggtype list"
  m_syms :: "ir_sym list"
  m_functions :: "ir_function list"
  m_globals :: "ir_global list"

definition ir_module_init :: "string \<Rightarrow> ir_module" where
  "ir_module_init name =
     \<lparr>m_name = name, m_aggs = [], m_syms = [], m_functions = [], m_globals = []\<rparr>"

section \<open>Operands\<close>

definition ir_scalar :: "ir_type \<Rightarrow> ir_vtype" where
  "ir_scalar t = \<lparr>vt_type = t, vt_agg = IR_NO_AGG\<rparr>"

definition ir_aggregate :: "nat \<Rightarrow> ir_vtype" where
  "ir_aggregate agg = \<lparr>vt_type = IR_AGG, vt_agg = agg\<rparr>"

definition ir_temp_op :: "ir_function \<Rightarrow> nat \<Rightarrow> ir_operand" where
  "ir_temp_op f temp = IR_TEMP (f_temps f ! temp) temp"

definition ir_int_op :: "ir_type \<Rightarrow> u64 \<Rightarrow> ir_operand" where
  "ir_int_op t v =
     IR_INT t (case t of IR_I8 \<Rightarrow> v AND 0xff | IR_I16 \<Rightarrow> v AND 0xffff
               | IR_I32 \<Rightarrow> v AND 0xffffffff | _ \<Rightarrow> v)"

definition ir_float_op :: "ir_type \<Rightarrow> double \<Rightarrow> ir_operand" where
  "ir_float_op t v = IR_FLOAT t v"

definition ir_block_op :: "ir_block \<Rightarrow> ir_operand" where
  "ir_block_op b = IR_BLOCK IR_VOID (b_index b)"

definition ir_func_op :: "ir_function \<Rightarrow> ir_operand" where
  "ir_func_op f = IR_FUNC IR_PTR (f_index f)"

definition ir_global_op :: "ir_global \<Rightarrow> ir_operand" where
  "ir_global_op g = IR_GLOBAL IR_PTR (g_index g)"

section \<open>The type table and the symbolic values\<close>

text \<open>The index of the first entry with a property.\<close>

fun index_where :: "('a \<Rightarrow> bool) \<Rightarrow> 'a list \<Rightarrow> nat option" where
  "index_where P [] = None"
| "index_where P (x # xs) = (if P x then Some 0 else map_option Suc (index_where P xs))"

definition ir_agg_find :: "ir_module \<Rightarrow> string \<Rightarrow> nat" where
  "ir_agg_find m name =
     (case index_where (\<lambda>t. agg_name t = name) (m_aggs m) of None \<Rightarrow> IR_NO_AGG | Some i \<Rightarrow> i)"

definition add_agg :: "ir_module \<Rightarrow> ir_aggtype \<Rightarrow> ir_field list \<Rightarrow> ir_module \<times> nat" where
  "add_agg m key fds =
     (let found = ir_agg_find m (agg_name key)
      in if found \<noteq> IR_NO_AGG then (m, found)
         else (m\<lparr>m_aggs := m_aggs m @ [key\<lparr>agg_fields := fds\<rparr>]\<rparr>, length (m_aggs m)))"

definition ir_struct_add ::
  "ir_module \<Rightarrow> ir_agg_kind \<Rightarrow> string \<Rightarrow> ir_field list \<Rightarrow> bool \<Rightarrow> u64 \<Rightarrow> ir_module \<times> nat" where
  "ir_struct_add m k name fds packed align =
     add_agg m \<lparr>agg_kind = k, agg_name = name, agg_fields = [], agg_packed = packed,
                agg_align = align, agg_length = 0, agg_length_text = None\<rparr> fds"

definition ir_array_add ::
  "ir_module \<Rightarrow> string \<Rightarrow> ir_vtype \<Rightarrow> nat \<Rightarrow> string option \<Rightarrow> ir_module \<times> nat" where
  "ir_array_add m name element len length_text =
     add_agg m \<lparr>agg_kind = IR_AGG_ARRAY, agg_name = name, agg_fields = [], agg_packed = False,
                agg_align = 0, agg_length = len, agg_length_text = length_text\<rparr>
       [\<lparr>fd_name = None, fd_type = element, fd_bits = 0, fd_ext = IR_EXT_NONE\<rparr>]"

definition add_sym :: "ir_module \<Rightarrow> ir_sym \<Rightarrow> ir_module \<times> nat" where
  "add_sym m key =
     (case index_where (\<lambda>s. s = key) (m_syms m) of
        Some i \<Rightarrow> (m, i)
      | None \<Rightarrow> (m\<lparr>m_syms := m_syms m @ [key]\<rparr>, length (m_syms m)))"

definition sym_key :: "ir_sym_kind \<Rightarrow> ir_type \<Rightarrow> ir_sym" where
  "sym_key k t =
     \<lparr>sy_kind = k, sy_type = t, sy_value = 0, sy_of = ir_scalar IR_VOID, sy_field = 0,
      sy_op = IR_ADD, sy_a = IR_NO_AGG, sy_b = IR_NO_AGG\<rparr>"

fun int_of_operand :: "ir_operand \<Rightarrow> u64" where
  "int_of_operand (IR_INT _ v) = v"
| "int_of_operand (IR_FLOAT _ v) = v"
| "int_of_operand o' = of_nat (as_index o')"

definition ir_sym_int :: "ir_module \<Rightarrow> ir_type \<Rightarrow> u64 \<Rightarrow> ir_module \<times> nat" where
  "ir_sym_int m t v =
     add_sym m ((sym_key IR_SYM_INT t)\<lparr>sy_value := int_of_operand (ir_int_op t v)\<rparr>)"

definition ir_sym_size_of :: "ir_module \<Rightarrow> ir_vtype \<Rightarrow> ir_module \<times> nat" where
  "ir_sym_size_of m ty = add_sym m ((sym_key IR_SYM_SIZE_OF IR_I64)\<lparr>sy_of := ty\<rparr>)"

definition ir_sym_offset_of :: "ir_module \<Rightarrow> nat \<Rightarrow> nat \<Rightarrow> ir_module \<times> nat" where
  "ir_sym_offset_of m agg field =
     add_sym m ((sym_key IR_SYM_OFFSET_OF IR_I64)\<lparr>sy_of := ir_aggregate agg, sy_field := field\<rparr>)"

definition ir_sym_op :: "ir_module \<Rightarrow> ir_op \<Rightarrow> ir_type \<Rightarrow> nat \<Rightarrow> nat \<Rightarrow> ir_module \<times> nat" where
  "ir_sym_op m op t a b =
     add_sym m ((sym_key IR_SYM_OP t)\<lparr>sy_op := op, sy_a := a, sy_b := b\<rparr>)"

definition ir_sym_operand :: "ir_module \<Rightarrow> nat \<Rightarrow> ir_operand" where
  "ir_sym_operand m n =
     (let s = m_syms m ! n
      in if sy_kind s = IR_SYM_INT then ir_int_op (sy_type s) (sy_value s)
         else IR_SYM (sy_type s) n)"

section \<open>Functions, blocks and temporaries\<close>

definition new_function ::
  "ir_module \<Rightarrow> string option \<Rightarrow> string \<Rightarrow> ir_type \<Rightarrow> ir_function" where
  "new_function m module name result =
     \<lparr>f_index = length (m_functions m), f_module = module, f_name = name, f_params = [],
      f_result = result, f_result_agg = IR_NO_AGG, f_is_extern = False, f_variadic = False,
      f_exported = False, f_blocks = [], f_temps = []\<rparr>"

definition add_function :: "ir_module \<Rightarrow> ir_function \<Rightarrow> ir_module \<times> ir_function" where
  "add_function m f = (m\<lparr>m_functions := m_functions m @ [f]\<rparr>, f)"

definition ir_function_add ::
  "ir_module \<Rightarrow> string option \<Rightarrow> string \<Rightarrow> ir_type \<Rightarrow> nat \<Rightarrow> ir_module \<times> ir_function" where
  "ir_function_add m module name result result_agg =
     add_function m ((new_function m module name result)\<lparr>f_result_agg := result_agg\<rparr>)"

definition ir_extern_add ::
  "ir_module \<Rightarrow> string \<Rightarrow> ir_type \<Rightarrow> bool \<Rightarrow> ir_module \<times> ir_function" where
  "ir_extern_add m name result variadic =
     add_function m ((new_function m None name result)\<lparr>f_is_extern := True, f_variadic := variadic\<rparr>)"

definition ir_declare_add ::
  "ir_module \<Rightarrow> string option \<Rightarrow> string \<Rightarrow> ir_type \<Rightarrow> nat \<Rightarrow> ir_module \<times> ir_function" where
  "ir_declare_add m module name result result_agg =
     add_function m ((new_function m module name result)
       \<lparr>f_result_agg := result_agg, f_is_extern := True\<rparr>)"

definition ir_temp :: "ir_function \<Rightarrow> ir_type \<Rightarrow> ir_function \<times> nat" where
  "ir_temp f t = (f\<lparr>f_temps := f_temps f @ [t]\<rparr>, length (f_temps f))"

definition ir_param_add :: "ir_function \<Rightarrow> ir_type \<Rightarrow> nat \<Rightarrow> ir_function \<times> nat option" where
  "ir_param_add f t agg =
     (let (f', temp) = (if f_is_extern f then (f, None)
                        else (case ir_temp f (if t = IR_AGG then IR_PTR else t) of
                                (f', n) \<Rightarrow> (f', Some n)))
      in (f'\<lparr>f_params := f_params f' @ [\<lparr>p_type = t, p_ext = IR_EXT_NONE, p_agg = agg,
                                          p_temp = temp\<rparr>]\<rparr>, temp))"

definition ir_block_add :: "ir_function \<Rightarrow> ir_function \<times> ir_block" where
  "ir_block_add f =
     (let b = \<lparr>b_index = length (f_blocks f), b_insts = [], b_assert_fail = False, b_loop_depth = 0\<rparr>
      in (f\<lparr>f_blocks := f_blocks f @ [b]\<rparr>, b))"

section \<open>Globals and constants\<close>

definition ir_global_add ::
  "ir_module \<Rightarrow> string option \<Rightarrow> string \<Rightarrow> byte list \<Rightarrow> u64 \<Rightarrow> u64 \<Rightarrow> ir_module \<times> ir_global" where
  "ir_global_add m module name bytes n align =
     (let g = \<lparr>g_index = length (m_globals m), g_module = module, g_name = name,
               g_bytes = take (unat n) bytes, g_size = n, g_align = align, g_relocs = [],
               g_value = None, g_mutable = False, g_exported = False, g_is_extern = False\<rparr>
      in (m\<lparr>m_globals := m_globals m @ [g]\<rparr>, g))"

definition ir_global_add_value ::
  "ir_module \<Rightarrow> string option \<Rightarrow> string \<Rightarrow> ir_const \<Rightarrow> ir_module \<times> ir_global" where
  "ir_global_add_value m module name v =
     (case ir_global_add m module name [] 0 0 of
        (m', g) \<Rightarrow>
          let g = g\<lparr>g_value := Some v\<rparr>
          in (m'\<lparr>m_globals := (m_globals m')[g_index g := g]\<rparr>, g))"

text \<open>Memory of the arena is zero, which is the constant without a value.\<close>

definition ir_const_agg :: "ir_vtype \<Rightarrow> nat \<Rightarrow> ir_const" where
  "ir_const_agg t n = IR_CONST_AGG IR_VOID t (replicate n (IR_CONST_NONE IR_VOID))"

fun ir_const_equal :: "ir_const \<Rightarrow> ir_const \<Rightarrow> bool"
  and ir_const_list_equal :: "ir_const list \<Rightarrow> ir_const list \<Rightarrow> bool" where
  "ir_const_equal (IR_CONST_NONE s) (IR_CONST_NONE s') \<longleftrightarrow> s = s'"
| "ir_const_equal (IR_CONST_INT s v) (IR_CONST_INT s' v') \<longleftrightarrow> s = s' \<and> v = v'"
| "ir_const_equal (IR_CONST_FLOAT s v) (IR_CONST_FLOAT s' v') \<longleftrightarrow> s = s' \<and> v = v'"
| "ir_const_equal (IR_CONST_SYM s i) (IR_CONST_SYM s' i') \<longleftrightarrow> s = s' \<and> i = i'"
| "ir_const_equal (IR_CONST_ADDR s i) (IR_CONST_ADDR s' i') \<longleftrightarrow> s = s' \<and> i = i'"
| "ir_const_equal (IR_CONST_FUNC s i) (IR_CONST_FUNC s' i') \<longleftrightarrow> s = s' \<and> i = i'"
| "ir_const_equal (IR_CONST_AGG s t cs) (IR_CONST_AGG s' t' cs') \<longleftrightarrow>
     s = s' \<and> vt_agg t = vt_agg t' \<and> length cs = length cs' \<and> ir_const_list_equal cs cs'"
| "ir_const_equal _ _ \<longleftrightarrow> False"
| "ir_const_list_equal (c # cs) (c' # cs') \<longleftrightarrow> ir_const_equal c c' \<and> ir_const_list_equal cs cs'"
| "ir_const_list_equal _ _ \<longleftrightarrow> True"

definition add_reloc :: "ir_global \<Rightarrow> u64 \<Rightarrow> nat \<Rightarrow> bool \<Rightarrow> ir_global" where
  "add_reloc g off target fn =
     g\<lparr>g_relocs := g_relocs g @ [\<lparr>r_offset = off, r_global = target, r_fn = fn\<rparr>]\<rparr>"

definition ir_global_reloc :: "ir_global \<Rightarrow> u64 \<Rightarrow> nat \<Rightarrow> ir_global" where
  "ir_global_reloc g off target = add_reloc g off target False"

definition ir_global_reloc_fn :: "ir_global \<Rightarrow> u64 \<Rightarrow> nat \<Rightarrow> ir_global" where
  "ir_global_reloc_fn g off function_index = add_reloc g off function_index True"

section \<open>Instructions\<close>

definition new_inst :: "ir_op \<Rightarrow> ir_type \<Rightarrow> nat option \<Rightarrow> ir_inst" where
  "new_inst op t result =
     \<lparr>i_op = op, i_type = t, i_result = result, i_a = IR_NONE, i_b = IR_NONE, i_c = IR_NONE,
      i_of = ir_scalar IR_VOID, i_field = 0, i_args = []\<rparr>"

text \<open>\<open>append\<close>, with the members its caller then sets. The block is given by its index.\<close>

definition append_inst :: "ir_function \<Rightarrow> nat \<Rightarrow> ir_inst \<Rightarrow> ir_function" where
  "append_inst f b inst =
     f\<lparr>f_blocks := (f_blocks f)[b := (f_blocks f ! b)\<lparr>b_insts := b_insts (f_blocks f ! b) @ [inst]\<rparr>]\<rparr>"

definition ir_inst_add :: "ir_block \<Rightarrow> ir_inst \<Rightarrow> ir_block" where
  "ir_inst_add b inst = b\<lparr>b_insts := b_insts b @ [inst]\<rparr>"

definition ir_binary ::
  "ir_function \<Rightarrow> nat \<Rightarrow> ir_op \<Rightarrow> ir_type \<Rightarrow> ir_operand \<Rightarrow> ir_operand \<Rightarrow> ir_function \<times> nat" where
  "ir_binary f b op t x y =
     (case ir_temp f t of
        (f', r) \<Rightarrow> (append_inst f' b ((new_inst op t (Some r))\<lparr>i_a := x, i_b := y\<rparr>), r))"

definition ir_unary ::
  "ir_function \<Rightarrow> nat \<Rightarrow> ir_op \<Rightarrow> ir_type \<Rightarrow> ir_operand \<Rightarrow> ir_function \<times> nat" where
  "ir_unary f b op t x =
     (case ir_temp f t of
        (f', r) \<Rightarrow> (append_inst f' b ((new_inst op t (Some r))\<lparr>i_a := x\<rparr>), r))"

definition ir_assign :: "ir_function \<Rightarrow> nat \<Rightarrow> nat \<Rightarrow> ir_operand \<Rightarrow> ir_function" where
  "ir_assign f b dst x =
     append_inst f b ((new_inst IR_COPY (f_temps f ! dst) (Some dst))\<lparr>i_a := x\<rparr>)"

definition ir_entry_slot :: "ir_function \<Rightarrow> ir_vtype \<Rightarrow> ir_function \<times> nat" where
  "ir_entry_slot f ty =
     (case ir_temp f IR_PTR of
        (f', r) \<Rightarrow>
          let b = f_blocks f' ! 0;
              slots = takeWhile (\<lambda>i. i_op i = IR_SLOT) (b_insts b);
              others = dropWhile (\<lambda>i. i_op i = IR_SLOT) (b_insts b);
              inst = (new_inst IR_SLOT IR_PTR (Some r))\<lparr>i_of := ty\<rparr>
          in (f'\<lparr>f_blocks := (f_blocks f')[0 := b\<lparr>b_insts := slots @ inst # others\<rparr>]\<rparr>, r))"

definition ir_slot :: "ir_function \<Rightarrow> nat \<Rightarrow> ir_vtype \<Rightarrow> ir_function \<times> nat" where
  "ir_slot f b ty =
     (case ir_temp f IR_PTR of
        (f', r) \<Rightarrow> (append_inst f' b ((new_inst IR_SLOT IR_PTR (Some r))\<lparr>i_of := ty\<rparr>), r))"

definition ir_load :: "ir_function \<Rightarrow> nat \<Rightarrow> ir_type \<Rightarrow> ir_operand \<Rightarrow> ir_function \<times> nat" where
  "ir_load f b t pointer = ir_unary f b IR_LOAD t pointer"

definition ir_store :: "ir_function \<Rightarrow> nat \<Rightarrow> ir_type \<Rightarrow> ir_operand \<Rightarrow> ir_operand \<Rightarrow> ir_function" where
  "ir_store f b t v pointer =
     append_inst f b ((new_inst IR_STORE t None)\<lparr>i_a := v, i_b := pointer\<rparr>)"

definition ir_ptradd ::
  "ir_function \<Rightarrow> nat \<Rightarrow> ir_operand \<Rightarrow> ir_operand \<Rightarrow> ir_function \<times> nat" where
  "ir_ptradd f b pointer off = ir_binary f b IR_PTRADD IR_PTR pointer off"

definition ir_memcopy ::
  "ir_function \<Rightarrow> nat \<Rightarrow> ir_operand \<Rightarrow> ir_operand \<Rightarrow> ir_vtype \<Rightarrow> ir_function" where
  "ir_memcopy f b dst source ty =
     append_inst f b ((new_inst IR_MEMCOPY IR_VOID None)\<lparr>i_a := dst, i_b := source, i_of := ty\<rparr>)"

definition ir_addr :: "ir_function \<Rightarrow> nat \<Rightarrow> ir_operand \<Rightarrow> ir_function \<times> nat" where
  "ir_addr f b target = ir_unary f b IR_ADDR IR_PTR target"

definition ir_bitload ::
  "ir_function \<Rightarrow> nat \<Rightarrow> ir_type \<Rightarrow> ir_operand \<Rightarrow> nat \<Rightarrow> nat \<Rightarrow> ir_function \<times> nat" where
  "ir_bitload f b t pointer agg field =
     (case ir_temp f t of
        (f', r) \<Rightarrow> (append_inst f' b ((new_inst IR_BITLOAD t (Some r))
                     \<lparr>i_a := pointer, i_of := ir_aggregate agg, i_field := field\<rparr>), r))"

definition ir_bitstore ::
  "ir_function \<Rightarrow> nat \<Rightarrow> ir_type \<Rightarrow> ir_operand \<Rightarrow> ir_operand \<Rightarrow> nat \<Rightarrow> nat \<Rightarrow> ir_function" where
  "ir_bitstore f b t v pointer agg field =
     append_inst f b ((new_inst IR_BITSTORE t None)
       \<lparr>i_a := v, i_b := pointer, i_of := ir_aggregate agg, i_field := field\<rparr>)"

definition ir_call ::
  "ir_function \<Rightarrow> nat \<Rightarrow> ir_type \<Rightarrow> ir_operand \<Rightarrow> ir_operand list \<Rightarrow> ir_function \<times> nat option" where
  "ir_call f b t callee args =
     (case (if t = IR_VOID then (f, None)
            else (case ir_temp f (if t = IR_AGG then IR_PTR else t) of (f', r) \<Rightarrow> (f', Some r))) of
        (f', r) \<Rightarrow> (append_inst f' b ((new_inst IR_CALL t r)\<lparr>i_a := callee, i_args := args\<rparr>), r))"

definition ir_call_indirect ::
  "ir_function \<Rightarrow> nat \<Rightarrow> ir_type \<Rightarrow> ir_operand \<Rightarrow> ir_function \<Rightarrow> ir_operand list \<Rightarrow>
     ir_function \<times> nat option" where
  "ir_call_indirect f b t target signature args =
     (case ir_call f b t target args of
        (f', r) \<Rightarrow>
          let blk = f_blocks f' ! b; n = length (b_insts blk) - 1;
              insts = (b_insts blk)[n := (b_insts blk ! n)\<lparr>i_b := ir_func_op signature\<rparr>]
          in (f'\<lparr>f_blocks := (f_blocks f')[b := blk\<lparr>b_insts := insts\<rparr>]\<rparr>, r))"

definition ir_jump :: "ir_function \<Rightarrow> nat \<Rightarrow> ir_block \<Rightarrow> ir_function" where
  "ir_jump f b target =
     append_inst f b ((new_inst IR_JUMP IR_VOID None)\<lparr>i_a := ir_block_op target\<rparr>)"

definition ir_branch ::
  "ir_function \<Rightarrow> nat \<Rightarrow> ir_operand \<Rightarrow> ir_block \<Rightarrow> ir_block \<Rightarrow> ir_function" where
  "ir_branch f b cond then_block else_block =
     append_inst f b ((new_inst IR_BRANCH IR_VOID None)
       \<lparr>i_a := cond, i_b := ir_block_op then_block, i_c := ir_block_op else_block\<rparr>)"

definition ir_ret :: "ir_function \<Rightarrow> nat \<Rightarrow> ir_type \<Rightarrow> ir_operand \<Rightarrow> ir_function" where
  "ir_ret f b t v = append_inst f b ((new_inst IR_RET t None)\<lparr>i_a := v\<rparr>)"

section \<open>The interface of the tables\<close>

text \<open>
  A table that adds an entry by its key, or finds the one it has. A client relies on four things:
  the index names an entry with the key, no entry changes, one key has one entry and asking
  again gives the same index and adds nothing.
\<close>

locale interner =
  fixes intern :: "'m \<Rightarrow> 'k \<Rightarrow> 'm \<times> nat"
    and entries :: "'m \<Rightarrow> 'e list"
    and key :: "'e \<Rightarrow> 'i"
    and name :: "'k \<Rightarrow> 'i"
    and room :: "'m \<Rightarrow> bool"
  assumes intern_entry: "room m \<Longrightarrow> distinct (map key (entries m)) \<Longrightarrow> intern m k = (m', i) \<Longrightarrow>
      i < length (entries m') \<and> key (entries m' ! i) = name k"
    and intern_keeps: "intern m k = (m', i) \<Longrightarrow> prefix (entries m) (entries m')"
    and intern_found: "room m \<Longrightarrow> i < length (entries m) \<Longrightarrow> distinct (map key (entries m)) \<Longrightarrow>
      key (entries m ! i) = name k \<Longrightarrow> intern m k = (m, i)"
    and intern_distinct: "room m \<Longrightarrow> distinct (map key (entries m)) \<Longrightarrow> intern m k = (m', i) \<Longrightarrow>
      distinct (map key (entries m'))"
begin

lemma intern_twice:
  assumes "distinct (map key (entries m))" and "intern m k = (m', i)" and "room m" and "room m'"
  shows "intern m' k = (m', i)"
  using intern_entry [OF assms(3,1,2)] intern_distinct [OF assms(3,1,2)] assms(4)
  by (intro intern_found) auto

lemma intern_same_index_iff:
  assumes d: "distinct (map key (entries m))" and r: "room m" "room m1"
    and 1: "intern m k = (m1, i)" and 2: "intern m1 k' = (m2, j)"
  shows "i = j \<longleftrightarrow> name k = name k'"
proof -
  have d1: "distinct (map key (entries m1))" using intern_distinct [OF r(1) d 1] .
  have d2: "distinct (map key (entries m2))" using intern_distinct [OF r(2) d1 2] .
  have e1: "i < length (entries m1)" "key (entries m1 ! i) = name k" using intern_entry [OF r(1) d 1] by auto
  have e2: "j < length (entries m2)" "key (entries m2 ! j) = name k'" using intern_entry [OF r(2) d1 2] by auto
  have p: "prefix (entries m1) (entries m2)" by (rule intern_keeps [OF 2])
  then have i2: "i < length (entries m2)" "entries m2 ! i = entries m1 ! i"
    using e1(1) by (auto simp: prefix_def nth_append)
  show ?thesis
  proof
    assume "i = j" then show "name k = name k'" using e1 e2 i2 by simp
  next
    assume "name k = name k'"
    then have "map key (entries m2) ! i = map key (entries m2) ! j" using e1 e2 i2 by simp
    then show "i = j" using d2 i2(1) e2(1) nth_eq_iff_index_eq [of "map key (entries m2)" i j] by simp
  qed
qed

end

lemma index_where_None: "index_where P xs = None \<longleftrightarrow> (\<forall>x\<in>set xs. \<not> P x)"
  by (induction xs) auto

lemma index_where_Some:
  "index_where P xs = Some i \<longleftrightarrow> i < length xs \<and> P (xs ! i) \<and> (\<forall>j<i. \<not> P (xs ! j))"
proof (induction xs arbitrary: i)
  case (Cons x xs)
  then show ?case by (cases i) (auto simp: nth_Cons' less_Suc_eq_0_disj)
qed simp

lemma index_where_distinct:
  "distinct (map f xs) \<Longrightarrow> i < length xs \<Longrightarrow> f (xs ! i) = k \<Longrightarrow> index_where (\<lambda>x. f x = k) xs = Some i"
  unfolding index_where_Some by (metis distinct_map inj_onD less_trans nat_neq_iff nth_eq_iff_index_eq nth_mem)

interpretation syms: interner add_sym m_syms id id "\<lambda>m. True"
proof unfold_locales
  fix m m' :: ir_module and k i
  assume "add_sym m k = (m', i)"
  then show "prefix (m_syms m) (m_syms m')" by (auto simp: add_sym_def split: option.splits)
next
  fix m m' :: ir_module and k i
  assume "distinct (map id (m_syms m))" "add_sym m k = (m', i)"
  then show "i < length (m_syms m') \<and> id (m_syms m' ! i) = id k"
    and "distinct (map id (m_syms m'))"
    by (auto simp: add_sym_def index_where_Some index_where_None split: option.splits)
next
  fix m :: ir_module and i k
  assume "i < length (m_syms m)" "distinct (map id (m_syms m))" "id (m_syms m ! i) = id k"
  then show "add_sym m k = (m, i)"
    using index_where_distinct [of id "m_syms m" i k] by (simp add: add_sym_def)
qed

text \<open>The type table has fewer than \<open>IR_NO_AGG\<close> entries, because that index means none.\<close>

definition add_aggtype :: "ir_module \<Rightarrow> ir_aggtype \<Rightarrow> ir_module \<times> nat" where
  "add_aggtype m t = add_agg m t (agg_fields t)"

interpretation aggs: interner add_aggtype m_aggs agg_name agg_name "\<lambda>m. length (m_aggs m) < IR_NO_AGG"
proof unfold_locales
  fix m m' :: ir_module and i and k :: ir_aggtype
  assume "add_aggtype m k = (m', i)"
  then show "prefix (m_aggs m) (m_aggs m')"
    by (auto simp: add_aggtype_def add_agg_def Let_def split: if_splits)
next
  fix m m' :: ir_module and i and k :: ir_aggtype
  assume *: "length (m_aggs m) < IR_NO_AGG" "distinct (map agg_name (m_aggs m))" "add_aggtype m k = (m', i)"
  show "i < length (m_aggs m') \<and> agg_name (m_aggs m' ! i) = agg_name k"
    and "distinct (map agg_name (m_aggs m'))"
    using * by (auto simp: add_aggtype_def add_agg_def ir_agg_find_def Let_def index_where_Some
        index_where_None split: option.splits if_splits) blast+
next
  fix m :: ir_module and i and k :: ir_aggtype
  assume *: "length (m_aggs m) < IR_NO_AGG" "i < length (m_aggs m)"
    "distinct (map agg_name (m_aggs m))" "agg_name (m_aggs m ! i) = agg_name k"
  then have "ir_agg_find m (agg_name k) = i"
    using index_where_distinct [of agg_name "m_aggs m" i] by (simp add: ir_agg_find_def)
  with * show "add_aggtype m k = (m, i)" by (simp add: add_aggtype_def add_agg_def)
qed

section \<open>Properties\<close>

text \<open>
  A symbolic value has one index: two values get the same index exactly when they are equal,
  and a value added before keeps its index, whatever was added since.
\<close>

theorem sym_index_iff:
  assumes "distinct (m_syms m)" and "add_sym m k = (m1, i)" and "add_sym m1 k' = (m2, j)"
  shows "(i = j \<longleftrightarrow> k = k') \<and> m_syms m2 ! i = k \<and> m_syms m2 ! j = k' \<and> distinct (m_syms m2)"
proof -
  have d: "distinct (map id (m_syms m))" using assms(1) by simp
  have d1: "distinct (map id (m_syms m1))" by (rule syms.intern_distinct [OF TrueI d assms(2)])
  have e: "i < length (m_syms m1)" "m_syms m1 ! i = k" "j < length (m_syms m2)" "m_syms m2 ! j = k'"
    using syms.intern_entry [OF TrueI d assms(2)] syms.intern_entry [OF TrueI d1 assms(3)] by auto
  have "m_syms m2 ! i = k"
    using e syms.intern_keeps [OF assms(3)] by (auto simp: prefix_def nth_append)
  with e syms.intern_same_index_iff [OF d TrueI TrueI assms(2,3)]
    syms.intern_distinct [OF TrueI d1 assms(3)] show ?thesis by simp
qed

theorem sym_index_iff_witness:
  "snd (add_sym (fst (add_sym (ir_module_init ''m'') (sym_key IR_SYM_INT IR_I8)))
     (sym_key IR_SYM_INT IR_I16)) \<noteq> snd (add_sym (ir_module_init ''m'') (sym_key IR_SYM_INT IR_I8))"
proof -
  let ?m = "ir_module_init ''m''" let ?k = "sym_key IR_SYM_INT IR_I8" let ?k' = "sym_key IR_SYM_INT IR_I16"
  have "distinct (m_syms ?m)" by (simp add: ir_module_init_def)
  from sym_index_iff [OF this, of ?k "fst (add_sym ?m ?k)" "snd (add_sym ?m ?k)" ?k']
  show ?thesis by (cases "add_sym (fst (add_sym ?m ?k)) ?k'") (auto simp: sym_key_def)
qed

text \<open>
  The type of an aggregate constant is an aggregate, and then \<open>ir_const_equal\<close> is equality: its test of
  the aggregate's index alone loses nothing.
\<close>

fun const_ok :: "ir_const \<Rightarrow> bool" where
  "const_ok (IR_CONST_AGG s t cs) \<longleftrightarrow> vt_type t = IR_AGG \<and> list_all const_ok cs"
| "const_ok _ \<longleftrightarrow> True"

lemma ir_const_equal_eq:
  "const_ok c \<Longrightarrow> const_ok d \<Longrightarrow> ir_const_equal c d \<longleftrightarrow> c = d"
  and "list_all const_ok cs \<Longrightarrow> list_all const_ok ds \<Longrightarrow> length cs = length ds \<Longrightarrow>
     ir_const_list_equal cs ds \<longleftrightarrow> cs = ds"
  by (induction c d and cs ds rule: ir_const_equal_ir_const_list_equal.induct)
    (auto simp: list_all_iff intro: ir_vtype.equality)

end
