(* ===== verification/Folding.thy ===== *)
theory Folding
  imports Ir "HOL-Library.Signed_Division"
begin

text \<open>
  The part of \<open>src/optimize.c\<close> that works on one instruction: the helpers, constant folding and the
  peephole rules. A function that stores its result through a pointer and returns whether it did
  returns an option.

  Arithmetic on \<open>double\<close> and \<open>float\<close> is that of the machine the compiler runs on. It is the
  parameter \<open>c_float\<close>: one field per conversion and per operator of C that the source applies to
  them, on their bits.
\<close>

section \<open>Helpers\<close>

definition bits :: "ir_type \<Rightarrow> nat" where
  "bits t = (case t of IR_I8 \<Rightarrow> 8 | IR_I16 \<Rightarrow> 16 | IR_I32 \<Rightarrow> 32 | _ \<Rightarrow> 64)"

definition trim :: "ir_type \<Rightarrow> u64 \<Rightarrow> u64" where
  "trim t v = (let n = bits t in if n = 64 then v else v AND (push_bit n 1 - 1))"

text \<open>The \<open>int64_t\<close> result, as the number it stands for.\<close>

definition signed_value :: "ir_type \<Rightarrow> u64 \<Rightarrow> int" where
  "signed_value t v =
     (let n = bits t; sign = push_bit (n - 1) 1; v = trim t v in sint ((v XOR sign) - sign))"

definition is_constant :: "ir_operand \<Rightarrow> bool" where
  "is_constant x \<longleftrightarrow> (case x of IR_INT _ _ \<Rightarrow> True | IR_FLOAT _ _ \<Rightarrow> True | _ \<Rightarrow> False)"

definition is_int :: "ir_operand \<Rightarrow> u64 \<Rightarrow> bool" where
  "is_int x v \<longleftrightarrow> (case x of IR_INT t i \<Rightarrow> i = trim t v | _ \<Rightarrow> False)"

definition is_temp :: "ir_operand \<Rightarrow> nat \<Rightarrow> bool" where
  "is_temp x n \<longleftrightarrow> (case x of IR_TEMP _ m \<Rightarrow> m = n | _ \<Rightarrow> False)"

definition make_copy :: "ir_inst \<Rightarrow> ir_operand \<Rightarrow> ir_inst" where
  "make_copy inst x =
     inst\<lparr>i_op := IR_COPY, i_a := x, i_b := IR_NONE, i_c := IR_NONE, i_args := []\<rparr>"

definition delete_inst :: "ir_inst list \<Rightarrow> nat \<Rightarrow> ir_inst list" where
  "delete_inst insts i = take i insts @ drop (Suc i) insts"

definition is_pure :: "ir_op \<Rightarrow> bool" where
  "is_pure op \<longleftrightarrow> op \<noteq> IR_STORE \<and> op \<noteq> IR_BITSTORE \<and> op \<noteq> IR_MEMCOPY \<and> op \<noteq> IR_CALL \<and>
     op \<noteq> IR_JUMP \<and> op \<noteq> IR_BRANCH \<and> op \<noteq> IR_RET"

text \<open>\<open>operand\<close> and \<open>operand_count\<close>: the operands in the order in which the loops visit them.\<close>

definition operands :: "ir_inst \<Rightarrow> ir_operand list" where
  "operands inst = i_a inst # i_b inst # i_c inst # i_args inst"

definition map_operands :: "(ir_operand \<Rightarrow> ir_operand) \<Rightarrow> ir_inst \<Rightarrow> ir_inst" where
  "map_operands g inst =
     inst\<lparr>i_a := g (i_a inst), i_b := g (i_b inst), i_c := g (i_c inst), i_args := map g (i_args inst)\<rparr>"

section \<open>Constant folding\<close>

definition of_cond :: "bool \<Rightarrow> u64" where
  "of_cond b = (if b then 1 else 0)"

definition fold_int :: "ir_op \<Rightarrow> ir_type \<Rightarrow> u64 \<Rightarrow> u64 \<Rightarrow> u64 option" where
  "fold_int op t a b =
     (let n = bits t;
          least = trim t (push_bit (n - 1) 1);
          x = signed_value t a;
          y = signed_value t b
      in case op of
           IR_ADD \<Rightarrow> Some (trim t (a + b))
         | IR_SUB \<Rightarrow> Some (trim t (a - b))
         | IR_MUL \<Rightarrow> Some (trim t (a * b))
         | IR_SDIV \<Rightarrow>
             if b = 0 \<or> (a = least \<and> b = trim t (- 1)) then None
             else Some (trim t (word_of_int (x sdiv y)))
         | IR_SREM \<Rightarrow>
             if b = 0 \<or> (a = least \<and> b = trim t (- 1)) then None
             else Some (trim t (word_of_int (x smod y)))
         | IR_UDIV \<Rightarrow> if b = 0 then None else Some (trim t (a div b))
         | IR_UREM \<Rightarrow> if b = 0 then None else Some (trim t (a mod b))
         | IR_AND \<Rightarrow> Some (trim t (a AND b))
         | IR_OR \<Rightarrow> Some (trim t (a OR b))
         | IR_XOR \<Rightarrow> Some (trim t (a XOR b))
         | IR_SHL \<Rightarrow> if b \<ge> of_nat n then None else Some (trim t (push_bit (unat b) a))
         | IR_SHR_U \<Rightarrow> if b \<ge> of_nat n then None else Some (trim t (drop_bit (unat b) a))
         | IR_SHR_S \<Rightarrow>
             if b \<ge> of_nat n then None
             else if x < 0 then Some (trim t (NOT (drop_bit (unat b) (NOT (word_of_int x)))))
             else Some (trim t (drop_bit (unat b) (word_of_int x)))
         | IR_EQ \<Rightarrow> Some (of_cond (a = b))
         | IR_NE \<Rightarrow> Some (of_cond (a \<noteq> b))
         | IR_SLT \<Rightarrow> Some (of_cond (x < y))
         | IR_SLE \<Rightarrow> Some (of_cond (x \<le> y))
         | IR_SGT \<Rightarrow> Some (of_cond (x > y))
         | IR_SGE \<Rightarrow> Some (of_cond (x \<ge> y))
         | IR_ULT \<Rightarrow> Some (of_cond (a < b))
         | IR_ULE \<Rightarrow> Some (of_cond (a \<le> b))
         | IR_UGT \<Rightarrow> Some (of_cond (a > b))
         | IR_UGE \<Rightarrow> Some (of_cond (a \<ge> b))
         | _ \<Rightarrow> None)"

record c_float =
  c_narrow :: "double \<Rightarrow> u32"
  c_widen :: "u32 \<Rightarrow> double"
  s_add :: "u32 \<Rightarrow> u32 \<Rightarrow> u32"
  s_sub :: "u32 \<Rightarrow> u32 \<Rightarrow> u32"
  s_mul :: "u32 \<Rightarrow> u32 \<Rightarrow> u32"
  s_div :: "u32 \<Rightarrow> u32 \<Rightarrow> u32"
  s_of_int :: "int \<Rightarrow> u32"
  d_add :: "double \<Rightarrow> double \<Rightarrow> double"
  d_sub :: "double \<Rightarrow> double \<Rightarrow> double"
  d_mul :: "double \<Rightarrow> double \<Rightarrow> double"
  d_div :: "double \<Rightarrow> double \<Rightarrow> double"
  d_neg :: "double \<Rightarrow> double"
  d_eq :: "double \<Rightarrow> double \<Rightarrow> bool"
  d_lt :: "double \<Rightarrow> double \<Rightarrow> bool"
  d_le :: "double \<Rightarrow> double \<Rightarrow> bool"
  d_of_int :: "int \<Rightarrow> double"
  d_to_int :: "double \<Rightarrow> int"

definition fold_float :: "c_float \<Rightarrow> ir_op \<Rightarrow> ir_type \<Rightarrow> double \<Rightarrow> double \<Rightarrow> ir_operand option" where
  "fold_float F op t a b =
     (let fa = c_narrow F a; fb = c_narrow F b; single = (t = IR_F32);
          arith = (\<lambda>s d. Some (ir_float_op t (if single then c_widen F (s F fa fb) else d F a b)));
          compare = (\<lambda>c. Some (ir_int_op IR_I8 (of_cond c)))
      in case op of
           IR_FADD \<Rightarrow> arith s_add d_add
         | IR_FSUB \<Rightarrow> arith s_sub d_sub
         | IR_FMUL \<Rightarrow> arith s_mul d_mul
         | IR_FDIV \<Rightarrow> arith s_div d_div
         | IR_FEQ \<Rightarrow> compare (d_eq F a b)
         | IR_FNE \<Rightarrow> compare (\<not> d_eq F a b)
         | IR_FLT \<Rightarrow> compare (d_lt F a b)
         | IR_FLE \<Rightarrow> compare (d_le F a b)
         | IR_FGT \<Rightarrow> compare (d_lt F b a)
         | IR_FGE \<Rightarrow> compare (d_le F b a)
         | _ \<Rightarrow> None)"

definition fold_conversion :: "c_float \<Rightarrow> ir_inst \<Rightarrow> ir_operand option" where
  "fold_conversion F inst =
     (let from_type = op_type (i_a inst);
          to = i_type inst;
          n = bits to;
          v = int_of_operand (i_a inst);
          d = int_of_operand (i_a inst);
          limit = d_of_int F (2 ^ n)
      in case i_op inst of
           IR_TRUNC \<Rightarrow> Some (ir_int_op to v)
         | IR_ZEXT \<Rightarrow> Some (ir_int_op to v)
         | IR_SEXT \<Rightarrow> Some (ir_int_op to (word_of_int (signed_value from_type v)))
         | IR_SITOF \<Rightarrow>
             Some (ir_float_op to
               (if to = IR_F32 then c_widen F (s_of_int F (signed_value from_type v))
                else d_of_int F (signed_value from_type v)))
         | IR_UITOF \<Rightarrow>
             Some (ir_float_op to
               (if to = IR_F32 then c_widen F (s_of_int F (uint v)) else d_of_int F (uint v)))
         | IR_FTOSI \<Rightarrow>
             if \<not> (d_le F (d_div F (d_neg F limit) (d_of_int F 2)) d \<and>
                   d_lt F d (d_div F limit (d_of_int F 2)))
             then None else Some (ir_int_op to (word_of_int (d_to_int F d)))
         | IR_FTOUI \<Rightarrow>
             if \<not> (d_lt F (d_of_int F (- 1)) d \<and> d_lt F d limit)
             then None else Some (ir_int_op to (word_of_int (d_to_int F d)))
         | IR_FEXT \<Rightarrow> Some (ir_float_op to (if to = IR_F32 then c_widen F (c_narrow F d) else d))
         | IR_FTRUNC \<Rightarrow> Some (ir_float_op to (if to = IR_F32 then c_widen F (c_narrow F d) else d))
         | _ \<Rightarrow> None)"

definition is_target_sized :: "ir_type \<Rightarrow> bool" where
  "is_target_sized t \<longleftrightarrow> t = IR_CLONG \<or> t = IR_CWCHAR"

definition int_ops :: "ir_op list" where
  "int_ops =
     [IR_ADD, IR_SUB, IR_MUL, IR_SDIV, IR_UDIV, IR_SREM, IR_UREM, IR_AND, IR_OR, IR_XOR, IR_SHL,
      IR_SHR_S, IR_SHR_U, IR_EQ, IR_NE, IR_SLT, IR_SLE, IR_SGT, IR_SGE, IR_ULT, IR_ULE, IR_UGT,
      IR_UGE]"

definition float_ops :: "ir_op list" where
  "float_ops =
     [IR_FADD, IR_FSUB, IR_FMUL, IR_FDIV, IR_FEQ, IR_FNE, IR_FLT, IR_FLE, IR_FGT, IR_FGE]"

definition conversions :: "ir_op list" where
  "conversions =
     [IR_TRUNC, IR_SEXT, IR_ZEXT, IR_SITOF, IR_UITOF, IR_FTOSI, IR_FTOUI, IR_FEXT, IR_FTRUNC]"

definition fold_inst :: "c_float \<Rightarrow> ir_inst \<Rightarrow> ir_operand option" where
  "fold_inst F inst =
     (if is_target_sized (i_type inst) \<or> is_target_sized (op_type (i_a inst)) \<or>
         is_target_sized (op_type (i_b inst)) then None
      else if i_op inst \<in> set int_ops then
        (case (i_a inst, i_b inst) of
           (IR_INT t a, IR_INT _ b) \<Rightarrow>
             map_option (\<lambda>v. ir_int_op (i_type inst) v) (fold_int (i_op inst) t a b)
         | _ \<Rightarrow> None)
      else if i_op inst \<in> set float_ops then
        (case (i_a inst, i_b inst) of
           (IR_FLOAT t a, IR_FLOAT _ b) \<Rightarrow> fold_float F (i_op inst) t a b
         | _ \<Rightarrow> None)
      else if i_op inst = IR_NEG \<or> i_op inst = IR_NOT then
        (case i_a inst of
           IR_INT _ a \<Rightarrow> Some (ir_int_op (i_type inst) (if i_op inst = IR_NEG then 0 - a else NOT a))
         | _ \<Rightarrow> None)
      else if i_op inst = IR_FNEG then
        (case i_a inst of
           IR_FLOAT _ a \<Rightarrow> Some (ir_float_op (i_type inst) (d_neg F a))
         | _ \<Rightarrow> None)
      else if i_op inst \<in> set conversions then
        (if is_constant (i_a inst) then fold_conversion F inst else None)
      else None)"

text \<open>The body of the loops of \<open>fold_constants\<close>: the instruction folded, or \<open>None\<close>.\<close>

definition fold_step :: "c_float \<Rightarrow> ir_inst \<Rightarrow> ir_inst option" where
  "fold_step F inst =
     (case (i_op inst, i_a inst) of
        (IR_BRANCH, IR_INT _ v) \<Rightarrow>
          Some (inst\<lparr>i_a := (if v \<noteq> 0 then i_b inst else i_c inst), i_op := IR_JUMP,
                     i_b := IR_NONE, i_c := IR_NONE\<rparr>)
      | _ \<Rightarrow> map_option (make_copy inst) (fold_inst F inst))"

section \<open>Peephole rules\<close>

definition is_commutative :: "ir_op \<Rightarrow> bool" where
  "is_commutative op \<longleftrightarrow> op = IR_ADD \<or> op = IR_MUL \<or> op = IR_AND \<or> op = IR_OR \<or> op = IR_XOR \<or>
     op = IR_EQ \<or> op = IR_NE \<or> op = IR_FADD \<or> op = IR_FMUL \<or> op = IR_FEQ \<or> op = IR_FNE"

text \<open>The loop of \<open>power_of_two\<close>: the shifts until the value is one.\<close>

function shift_count :: "u64 \<Rightarrow> nat" where
  "shift_count v = (if v > 1 then Suc (shift_count (drop_bit 1 v)) else 0)"
  by pat_completeness auto
termination
  by (relation "measure unat") (simp_all add: unat_drop_bit word_less_nat_alt)

declare shift_count.simps [simp del]

definition power_of_two :: "ir_operand \<Rightarrow> nat" where
  "power_of_two x =
     (case x of
        IR_INT _ v \<Rightarrow> if v < 2 \<or> v AND (v - 1) \<noteq> 0 then 0 else shift_count v
      | _ \<Rightarrow> 0)"

definition simplify :: "ir_inst \<Rightarrow> ir_inst option" where
  "simplify inst =
     (let t = i_type inst; a = i_a inst; b = i_b inst; k = power_of_two b
      in if is_commutative (i_op inst) \<and> is_constant a \<and> \<not> is_constant b
         then Some (inst\<lparr>i_a := b, i_b := a\<rparr>)
         else if i_op inst \<in> {IR_ADD, IR_SUB, IR_OR, IR_XOR, IR_SHL, IR_SHR_S, IR_SHR_U} then
           (if is_int b 0 then Some (make_copy inst a) else None)
         else if i_op inst = IR_MUL then
           (if is_int b 0 then Some (make_copy inst b)
            else if is_int b 1 then Some (make_copy inst a)
            else if k > 0 then Some (inst\<lparr>i_op := IR_SHL, i_b := ir_int_op t (of_nat k)\<rparr>)
            else None)
         else if i_op inst = IR_SDIV \<or> i_op inst = IR_UDIV then
           (if is_int b 1 then Some (make_copy inst a)
            else if i_op inst = IR_UDIV \<and> k > 0
            then Some (inst\<lparr>i_op := IR_SHR_U, i_b := ir_int_op t (of_nat k)\<rparr>)
            else None)
         else if i_op inst = IR_UREM then
           (if k > 0 then Some (inst\<lparr>i_op := IR_AND, i_b := ir_int_op t (int_of_operand b - 1)\<rparr>)
            else None)
         else if i_op inst = IR_AND then
           (if is_int b 0 then Some (make_copy inst b)
            else if is_int b (- 1) then Some (make_copy inst a)
            else None)
         else if i_op inst = IR_BRANCH then
           (if as_index b = as_index (i_c inst)
            then Some (inst\<lparr>i_op := IR_JUMP, i_a := b, i_b := IR_NONE, i_c := IR_NONE\<rparr>)
            else None)
         else None)"

end
