(* ===== verification/FoldingProps.thy ===== *)
theory FoldingProps
  imports Folding
begin

text \<open>
  What constant folding and the peephole rules promise: the arithmetic of the source is integer
  arithmetic modulo the width, with the undefined cases of chapter 2 left alone, and a rewritten
  instruction has the value of the one it replaces.
\<close>

section \<open>Integer arithmetic at a width\<close>

text \<open>The number that \<open>n\<close> bits stand for in two's complement, and the bits of a number.\<close>

definition sval :: "nat \<Rightarrow> nat \<Rightarrow> int" where
  "sval n a = (if a < 2 ^ (n - 1) then int a else int a - 2 ^ n)"

definition enc :: "nat \<Rightarrow> int \<Rightarrow> nat" where
  "enc n i = nat (i mod 2 ^ n)"

definition int_spec :: "nat \<Rightarrow> ir_op \<Rightarrow> nat \<Rightarrow> nat \<Rightarrow> nat option" where
  "int_spec n op a b =
     (let x = sval n a; y = sval n b; overflow = (x = - (2 ^ (n - 1)) \<and> y = - 1);
          cond = (\<lambda>c. Some (if c then 1 else 0))
      in case op of
           IR_ADD \<Rightarrow> Some ((a + b) mod 2 ^ n)
         | IR_SUB \<Rightarrow> Some (enc n (int a - int b))
         | IR_MUL \<Rightarrow> Some ((a * b) mod 2 ^ n)
         | IR_SDIV \<Rightarrow> if b = 0 \<or> overflow then None else Some (enc n (x sdiv y))
         | IR_SREM \<Rightarrow> if b = 0 \<or> overflow then None else Some (enc n (x smod y))
         | IR_UDIV \<Rightarrow> if b = 0 then None else Some (a div b)
         | IR_UREM \<Rightarrow> if b = 0 then None else Some (a mod b)
         | IR_AND \<Rightarrow> Some (a AND b)
         | IR_OR \<Rightarrow> Some (a OR b)
         | IR_XOR \<Rightarrow> Some (a XOR b)
         | IR_SHL \<Rightarrow> if b \<ge> n then None else Some (a * 2 ^ b mod 2 ^ n)
         | IR_SHR_U \<Rightarrow> if b \<ge> n then None else Some (a div 2 ^ b)
         | IR_SHR_S \<Rightarrow> if b \<ge> n then None else Some (enc n (x div 2 ^ b))
         | IR_EQ \<Rightarrow> cond (a = b)
         | IR_NE \<Rightarrow> cond (a \<noteq> b)
         | IR_SLT \<Rightarrow> cond (x < y)
         | IR_SLE \<Rightarrow> cond (x \<le> y)
         | IR_SGT \<Rightarrow> cond (x > y)
         | IR_SGE \<Rightarrow> cond (x \<ge> y)
         | IR_ULT \<Rightarrow> cond (a < b)
         | IR_ULE \<Rightarrow> cond (a \<le> b)
         | IR_UGT \<Rightarrow> cond (a > b)
         | IR_UGE \<Rightarrow> cond (a \<ge> b)
         | _ \<Rightarrow> None)"

lemma bits_le: "bits t \<le> 64" and bits_pos: "0 < bits t"
  by (auto simp: bits_def split: ir_type.splits)

lemma trim_take_bit: "trim t v = take_bit (bits t) v"
proof (cases "bits t = 64")
  case True
  then show ?thesis using take_bit_length_eq [of v] by (simp add: trim_def)
next
  case False
  have "push_bit (bits t) 1 - 1 = (mask (bits t) :: u64)"
    by (simp only: mask_eq_exp_minus_1 push_bit_eq_mult mult_1)
  with False show ?thesis by (simp only: trim_def Let_def if_False take_bit_eq_mask)
qed

lemma unat_trim: "unat (trim t v) = unat v mod 2 ^ bits t"
  by (simp only: trim_take_bit unsigned_take_bit_eq) (simp only: take_bit_eq_mod)

lemma trim_id: "unat v < 2 ^ bits t \<Longrightarrow> trim t v = v"
  by (simp add: word_unat_eq_iff unat_trim)

lemma bit_top:
  fixes v :: u64
  assumes "unat v < 2 ^ Suc m"
  shows "bit v m \<longleftrightarrow> 2 ^ m \<le> unat v"
proof -
  have "bit v m \<longleftrightarrow> odd (unat v div 2 ^ m)" using bit_unsigned_iff [of v m, where ?'a = nat] by (simp add: bit_iff_odd)
  moreover have "unat v div 2 ^ m < 2" using assms by (simp add: less_mult_imp_div_less)
  moreover have "unat v div 2 ^ m = 0 \<longleftrightarrow> unat v < 2 ^ m" by (simp add: div_eq_0_iff)
  ultimately show ?thesis by (cases "unat v div 2 ^ m") (auto simp: not_less)
qed

lemma sint_of_range: "- (2 ^ 63) \<le> i \<Longrightarrow> i < 2 ^ 63 \<Longrightarrow> sint (word_of_int i :: u64) = i"
  by (simp add: signed_of_int signed_take_bit_int_eq_self)

lemma word_of_int_unat: "word_of_int (int (unat v)) = (v :: 'a :: len word)"
  by simp

lemma sval_range: "a < 2 ^ n \<Longrightarrow> 0 < n \<Longrightarrow> - (2 ^ (n - 1)) \<le> sval n a \<and> sval n a < 2 ^ (n - 1)"
proof -
  assume *: "a < 2 ^ n" "0 < n"
  then obtain m where m: "n = Suc m" by (cases n) auto
  have "int a < 2 * 2 ^ m" using * m by (metis of_nat_less_iff of_nat_numeral of_nat_power power_Suc)
  moreover have "(2 :: int) ^ m \<le> int a \<longleftrightarrow> 2 ^ m \<le> a"
    by (metis of_nat_le_iff of_nat_numeral of_nat_power)
  ultimately show ?thesis using m unfolding sval_def by (cases "2 ^ m \<le> a"; simp)
qed

lemma signed_value_eq:
  assumes v: "unat v < 2 ^ bits t"
  shows "signed_value t v = sval (bits t) (unat v)"
proof -
  obtain m where m: "bits t = Suc m" "m \<le> 63" using bits_le [of t] bits_pos [of t] by (cases "bits t") auto
  have top: "bit v m \<longleftrightarrow> 2 ^ m \<le> unat v" using v m(1) by (intro bit_top) simp
  have "signed_value t v = sint (flip_bit m v - 2 ^ m)"
    using v by (simp add: signed_value_def Let_def trim_id m flip_bit_eq_xor push_bit_eq_mult)
  also have "flip_bit m v - 2 ^ m = word_of_int (sval (Suc m) (unat v))"
  proof (cases "bit v m")
    case True
    then have "flip_bit m v - 2 ^ m = v - 2 * 2 ^ m"
      by (simp add: flip_bit_eq_if unset_bit_eq algebra_simps)
    also have "\<dots> = word_of_int (int (unat v) - 2 * 2 ^ m)"
      by (simp only: of_int_diff word_of_int_unat) (simp add: of_int_power)
    finally show ?thesis using True top by (simp add: sval_def)
  next
    case False
    then have "flip_bit m v - 2 ^ m = v" by (simp add: flip_bit_eq_if set_bit_eq)
    then show ?thesis using False top by (simp add: sval_def)
  qed
  also have "sint (word_of_int (sval (Suc m) (unat v)) :: u64) = sval (Suc m) (unat v)"
  proof (rule sint_of_range)
    have "(2 :: int) ^ m \<le> 2 ^ 63" using m(2) by (intro power_increasing) auto
    moreover have "- (2 ^ m) \<le> sval (Suc m) (unat v) \<and> sval (Suc m) (unat v) < 2 ^ m"
      using sval_range [of "unat v" "Suc m"] v m(1) by simp
    ultimately show "- (2 ^ 63) \<le> sval (Suc m) (unat v)" "sval (Suc m) (unat v) < 2 ^ 63"
      by linarith+
  qed
  finally show ?thesis by (simp add: m)
qed

lemma unat_trim_of_int: "unat (trim t (word_of_int i)) = enc (bits t) i"
proof -
  have "(2 :: int) ^ bits t dvd 2 ^ 64" using bits_le [of t] by (rule le_imp_power_dvd)
  then have "i mod 2 ^ 64 mod 2 ^ bits t = i mod 2 ^ bits t" by (rule mod_mod_cancel)
  moreover have "unat (word_of_int i :: u64) = nat (i mod 2 ^ 64)"
    by (simp add: unsigned_of_int take_bit_eq_mod)
  ultimately show ?thesis
    using nat_mod_distrib [of "i mod 2 ^ 64" "2 ^ bits t"] by (simp add: unat_trim enc_def nat_power_eq)
qed

section \<open>Folding is that arithmetic\<close>

definition fixed_int :: "ir_type \<Rightarrow> bool" where
  "fixed_int t \<longleftrightarrow> t = IR_I8 \<or> t = IR_I16 \<or> t = IR_I32 \<or> t = IR_I64"

lemma unat_of_cond: "unat (of_cond c) = (if c then 1 else 0)"
  by (simp add: of_cond_def)

lemma sval_inj: "a < 2 ^ n \<Longrightarrow> b < 2 ^ n \<Longrightarrow> 0 < n \<Longrightarrow> sval n a = sval n b \<longleftrightarrow> a = b"
proof -
  assume *: "a < 2 ^ n" "b < 2 ^ n" "0 < n"
  then have "int a < 2 ^ n" "int b < 2 ^ n" by (metis of_nat_less_iff of_nat_numeral of_nat_power)+
  then show ?thesis
    by (cases "a < 2 ^ (n - 1)"; cases "b < 2 ^ (n - 1)")
      (simp_all only: sval_def if_True if_False, linarith+)
qed

lemma least_eq:
  assumes "unat a < 2 ^ bits t" "unat b < 2 ^ bits t"
  shows "a = trim t (push_bit (bits t - 1) 1) \<longleftrightarrow> sval (bits t) (unat a) = - (2 ^ (bits t - 1))"
    and "b = trim t (- 1) \<longleftrightarrow> sval (bits t) (unat b) = - 1"
proof -
  obtain m where m: "bits t = Suc m" "m \<le> 63" using bits_le [of t] bits_pos [of t] by (cases "bits t") auto
  have p: "(2::nat) ^ m < 2 ^ 64" using m(2) by (intro power_strict_increasing) auto
  have u: "unat ((2 :: u64) ^ m) = 2 ^ m"
  proof -
    have "(2 :: u64) ^ m = of_nat (2 ^ m)" by simp
    then show ?thesis using p m(2) by (simp only: unsigned_of_nat) (simp add: take_bit_nat_eq_self)
  qed
  have "unat (trim t (push_bit m 1)) = 2 ^ m" using m by (simp add: unat_trim push_bit_eq_mult u)
  moreover have "sval (Suc m) (2 ^ m) = - (2 ^ m)" by (simp add: sval_def)
  ultimately show "a = trim t (push_bit (bits t - 1) 1) \<longleftrightarrow> sval (bits t) (unat a) = - (2 ^ (bits t - 1))"
    using sval_inj [of "unat a" "Suc m" "2 ^ m"] assms(1) m by (auto simp: word_unat_eq_iff)
  have "unat (trim t (- 1)) = enc (bits t) (- 1)" using unat_trim_of_int [of t "- 1"] by simp
  also have "\<dots> = 2 ^ bits t - 1" by (simp add: enc_def zmod_minus1 nat_diff_distrib nat_power_eq)
  finally have o: "unat (trim t (- 1)) = 2 ^ bits t - 1" .
  have "sval (bits t) (2 ^ bits t - 1) = - 1"
    using m by (auto simp: sval_def of_nat_diff)
  then show "b = trim t (- 1) \<longleftrightarrow> sval (bits t) (unat b) = - 1"
    using sval_inj [of "unat b" "bits t" "2 ^ bits t - 1"] assms(2) m o by (auto simp: word_unat_eq_iff)
qed

lemma trim_mult: "unat (trim t (a * b)) = unat a * unat b mod 2 ^ bits t"
  and trim_add: "unat (trim t (a + b)) = (unat a + unat b) mod 2 ^ bits t"
proof -
  have d: "(2 :: nat) ^ bits t dvd 2 ^ 64" using bits_le [of t] by (rule le_imp_power_dvd)
  show "unat (trim t (a * b)) = unat a * unat b mod 2 ^ bits t"
    using d by (simp add: unat_trim unat_word_ariths mod_mod_cancel)
  show "unat (trim t (a + b)) = (unat a + unat b) mod 2 ^ bits t"
    using d by (simp add: unat_trim unat_word_ariths mod_mod_cancel)
qed

lemma trim_sub: "unat (trim t (a - b)) = enc (bits t) (int (unat a) - int (unat b))"
proof -
  have "a - b = word_of_int (int (unat a) - int (unat b))" by simp
  then show ?thesis by (simp only: unat_trim_of_int)
qed

lemma trim_small: "unat v < 2 ^ bits t \<Longrightarrow> unat (trim t v) = unat v"
  by (simp add: trim_id)

lemma enc_sval: "a < 2 ^ n \<Longrightarrow> enc n (sval n a) = a"
  by (simp add: enc_def sval_def mod_simps nat_mod_distrib nat_power_eq flip: of_nat_power)

lemma shift_left_trim:
  assumes "unat b < bits t"
  shows "unat (trim t (push_bit (unat b) a)) = unat a * 2 ^ unat b mod 2 ^ bits t"
proof -
  have "unat (push_bit (unat b) a) = unat a * 2 ^ unat b mod 2 ^ 64"
    by (simp only: unsigned_push_bit_eq) (simp add: push_bit_eq_mult take_bit_eq_mod)
  moreover have "(2 :: nat) ^ bits t dvd 2 ^ 64" using bits_le [of t] by (rule le_imp_power_dvd)
  ultimately show ?thesis by (simp only: unat_trim mod_mod_cancel)
qed

lemma shift_right_small: "unat a < 2 ^ n \<Longrightarrow> unat (drop_bit k a) < 2 ^ n"
  by (simp add: unat_drop_bit order_le_less_trans [OF div_le_dividend])

lemma not_div: "NOT (drop_bit k (NOT (i :: int))) = i div 2 ^ k"
  unfolding drop_bit_eq_div [symmetric] by (rule bit_eqI) (simp add: bit_simps)

lemma arith_shift:
  assumes "- (2 ^ 63) \<le> x" and "x < 2 ^ 63" and "k < 64"
  shows "(if x < 0 then NOT (drop_bit k (NOT (word_of_int x))) else drop_bit k (word_of_int x))
     = (word_of_int (x div 2 ^ k) :: u64)"
proof -
  have pos: "0 \<le> y \<Longrightarrow> y < 2 ^ 63 \<Longrightarrow> drop_bit k (word_of_int y) = (word_of_int (y div 2 ^ k) :: u64)" for y
  proof -
    assume y: "0 \<le> y" "y < 2 ^ 63"
    have le: "y div 2 ^ k \<le> y" using zdiv_mono2 [of y 1 "2 ^ k"] y(1) by simp
    have nn: "0 \<le> y div 2 ^ k" using y(1) by (simp add: pos_imp_zdiv_nonneg_iff)
    have u: "unat (word_of_int z :: u64) = nat z" if "0 \<le> z" "z < 2 ^ 63" for z
      using that by (simp add: unsigned_of_int take_bit_int_eq_self)
    have "unat (drop_bit k (word_of_int y :: u64)) = nat y div 2 ^ k"
      by (simp only: unat_drop_bit u [OF y])
    also have "\<dots> = nat (y div 2 ^ k)" using y(1) by (simp add: nat_div_distrib nat_power_eq)
    also have "\<dots> = unat (word_of_int (y div 2 ^ k) :: u64)"
      using y le nn by (intro u [symmetric]) auto
    finally show ?thesis by (simp only: word_unat_eq_iff)
  qed
  show ?thesis
  proof (cases "x < 0")
    case True
    have "NOT (word_of_int x) = (word_of_int (NOT x) :: u64)" by (simp only: of_int_not_eq)
    also have "drop_bit k \<dots> = word_of_int (NOT x div 2 ^ k)"
      using True assms by (intro pos) (auto simp: not_int_def)
    also have "NOT \<dots> = word_of_int (NOT (NOT x div 2 ^ k))" by (simp only: of_int_not_eq)
    also have "NOT (NOT x div 2 ^ k) = x div 2 ^ k"
      using not_div [of k x] by (simp only: drop_bit_eq_div)
    finally show ?thesis using True by simp
  qed (use assms pos in simp)
qed

lemma fold_int_unat:
  assumes a: "unat a < 2 ^ bits t" and b: "unat b < 2 ^ bits t"
  shows "map_option unat (fold_int op t a b) = int_spec (bits t) op (unat a) (unat b)"
proof -
  note s = signed_value_eq [OF a] signed_value_eq [OF b]
  have zero: "b = 0 \<longleftrightarrow> unat b = 0" by (simp add: unat_eq_0)
  have shift: "unat (of_nat (bits t) :: u64) = bits t"
    using bits_le [of t] by (simp add: unsigned_of_nat take_bit_nat_eq_self)
  have rng: "- (2 ^ 63) \<le> sval (bits t) (unat a)" "sval (bits t) (unat a) < 2 ^ 63"
  proof -
    have "(2 :: int) ^ (bits t - 1) \<le> 2 ^ 63" using bits_le [of t] by (intro power_increasing) auto
    then show "- (2 ^ 63) \<le> sval (bits t) (unat a)" "sval (bits t) (unat a) < 2 ^ 63"
      using sval_range [OF a bits_pos] by linarith+
  qed
  have small: "unat (trim t (a div b)) = unat a div unat b" "unat (trim t (a mod b)) = unat a mod unat b"
    "unat (trim t (a AND b)) = (unat a AND unat b)" "unat (trim t (a OR b)) = (unat a OR unat b)"
    "unat (trim t (a XOR b)) = (unat a XOR unat b)"
    "unat (trim t (drop_bit (unat b) a)) = unat a div 2 ^ unat b"
  proof -
    have t: "take_bit (bits t) a = a" "take_bit (bits t) b = b"
      using trim_id [OF a] trim_id [OF b] by (simp_all add: trim_take_bit)
    show "unat (trim t (a AND b)) = (unat a AND unat b)" "unat (trim t (a OR b)) = (unat a OR unat b)"
      "unat (trim t (a XOR b)) = (unat a XOR unat b)"
      using t by (simp_all add: trim_take_bit take_bit_and take_bit_or take_bit_xor
          unsigned_and_eq unsigned_or_eq unsigned_xor_eq)
    show "unat (trim t (a div b)) = unat a div unat b" "unat (trim t (a mod b)) = unat a mod unat b"
      using a b by (simp_all add: unat_trim unat_div unat_mod order_le_less_trans [OF div_le_dividend]
          order_le_less_trans [OF mod_less_eq_dividend])
    show "unat (trim t (drop_bit (unat b) a)) = unat a div 2 ^ unat b"
      using shift_right_small [OF a] by (simp add: trim_small unat_drop_bit)
  qed
  have sar: "unat b < bits t \<Longrightarrow> sval (bits t) (unat a) < 0 \<Longrightarrow>
      unat (trim t (NOT (drop_bit (unat b) (NOT (word_of_int (sval (bits t) (unat a))))))) =
      enc (bits t) (sval (bits t) (unat a) div 2 ^ unat b)"
    "unat b < bits t \<Longrightarrow> \<not> sval (bits t) (unat a) < 0 \<Longrightarrow>
      unat (trim t (drop_bit (unat b) (word_of_int (sval (bits t) (unat a))))) =
      enc (bits t) (sval (bits t) (unat a) div 2 ^ unat b)"
    using arith_shift [OF rng, of "unat b"] bits_le [of t]
    by (simp_all only: if_True if_False) (simp_all add: unat_trim_of_int)
  show ?thesis
    using least_eq [OF a b] small sar
    by (cases op)
      (simp_all add: fold_int_def int_spec_def Let_def s zero shift trim_add trim_mult trim_sub
        unat_trim_of_int shift_left_trim unat_of_cond word_unat_eq_iff word_less_nat_alt word_le_nat_alt
        not_le if_distrib [of "map_option unat"] cong: if_cong)
qed

text \<open>
  C12. \<open>fold_int\<close> computes exactly the integer operation at the width of its type, and refuses
  exactly the cases that chapter 2 leaves undefined: division by zero, the least value divided
  by -1 and a shift by the width or more.
\<close>

theorem fold_int_exact:
  assumes "unat a < 2 ^ bits t" and "unat b < 2 ^ bits t"
  shows "map_option unat (fold_int op t a b) = int_spec (bits t) op (unat a) (unat b)"
  by (rule fold_int_unat [OF assms])

theorem fold_int_exact_witness:
  "fold_int IR_SDIV IR_I8 0x80 0xFF = None \<and> fold_int IR_SREM IR_I8 0xF9 3 = Some 0xFF \<and>
   map_option unat (fold_int IR_SREM IR_I8 0xF9 3) = int_spec 8 IR_SREM 249 3"
proof -
  have "fold_int IR_SDIV IR_I8 0x80 0xFF = None" "fold_int IR_SREM IR_I8 0xF9 3 = Some 0xFF"
    by code_simp+
  then show ?thesis
    using fold_int_exact [of "0xF9" IR_I8 3 IR_SREM] by (simp add: bits_def)
qed

section \<open>The value of an instruction\<close>

text \<open>
  The value an integer instruction gives under an evaluation of its operands, when it is defined.
  The width of a type is a parameter, because that of \<open>c_long\<close> and \<open>c_wchar\<close> depends on the target.
\<close>

definition inst_value :: "(ir_type \<Rightarrow> nat) \<Rightarrow> (ir_operand \<Rightarrow> nat) \<Rightarrow> ir_inst \<Rightarrow> nat option" where
  "inst_value width ev inst =
     (let a = ev (i_a inst); n = width (op_type (i_a inst)); m = width (i_type inst)
      in if i_op inst = IR_COPY then Some a
         else if i_op inst = IR_NEG then Some (enc m (- int a))
         else if i_op inst = IR_NOT then Some (enc m (- 1 - int a))
         else if i_op inst = IR_TRUNC \<or> i_op inst = IR_ZEXT then Some (a mod 2 ^ m)
         else if i_op inst = IR_SEXT then Some (enc m (sval n a))
         else int_spec n (i_op inst) a (ev (i_b inst)))"

definition evaluates :: "(ir_operand \<Rightarrow> nat) \<Rightarrow> bool" where
  "evaluates ev \<longleftrightarrow> (\<forall>t v. ev (IR_INT t v) = unat v)"

definition in_range :: "(ir_operand \<Rightarrow> nat) \<Rightarrow> ir_operand \<Rightarrow> bool" where
  "in_range ev x \<longleftrightarrow> ev x < 2 ^ bits (op_type x)"

text \<open>What the verifier checks of an integer instruction, at a width all targets share.\<close>

definition typed_int :: "ir_inst \<Rightarrow> bool" where
  "typed_int inst \<longleftrightarrow> i_op inst \<in> set int_ops \<and> fixed_int (op_type (i_a inst)) \<and>
     op_type (i_b inst) = op_type (i_a inst) \<and>
     i_type inst = (if i_op inst \<in> {IR_EQ, IR_NE, IR_SLT, IR_SLE, IR_SGT, IR_SGE, IR_ULT, IR_ULE, IR_UGT, IR_UGE}
                    then IR_I8 else op_type (i_a inst))"

lemma power_of_two_nat: "0 < n \<Longrightarrow> n AND (n - 1) = 0 \<Longrightarrow> n = 1 \<or> (even n \<and> n div 2 AND (n div 2 - 1) = (0::nat))"
proof -
  assume n: "0 < n" "n AND (n - 1) = 0"
  have d: "n div 2 AND (n - 1) div 2 = 0"
    using n(2) drop_bit_and [of 1 n "n - 1"] by (simp add: drop_bit_eq_div)
  show ?thesis
  proof (cases "even n")
    case True
    then obtain w where w: "n = 2 * w" by auto
    with n(1) have "(n - 1) div 2 = n div 2 - 1" by arith
    with d True show ?thesis by simp
  next
    case False
    then obtain w where "n = 2 * w + 1" by (auto elim: oddE)
    with d show ?thesis by simp
  qed
qed

lemma shift_count_nat: "0 < unat v \<Longrightarrow> unat v AND (unat v - 1) = 0 \<Longrightarrow> unat v = 2 ^ shift_count v"
proof (induction v rule: shift_count.induct)
  case (1 v)
  show ?case
  proof (cases "v > 1")
    case True
    then have gt: "1 < unat v" by (simp add: word_less_nat_alt)
    with power_of_two_nat [OF 1(2,3)] have h: "even (unat v)" "unat v div 2 AND (unat v div 2 - 1) = 0" by auto
    have d: "unat (drop_bit 1 v) = unat v div 2" by (simp add: unat_drop_bit)
    have "unat v div 2 = 2 ^ shift_count (drop_bit 1 v)"
      using 1(1) [OF True] h gt d by simp
    then show ?thesis using h(1) True by (subst shift_count.simps) auto
  next
    case False
    with 1(2) have "unat v = 1" by (simp add: word_less_nat_alt)
    with False show ?thesis by (subst shift_count.simps) simp
  qed
qed

lemma power_of_two_value:
  assumes "power_of_two x = k" and "0 < k"
  obtains t v where "x = IR_INT t v" and "unat v = 2 ^ k"
proof -
  obtain t v where x: "x = IR_INT t v"
    using assms by (auto simp: power_of_two_def split: ir_operand.splits)
  with assms have v: "\<not> v < 2" "v AND (v - 1) = 0" "shift_count v = k"
    by (auto simp: power_of_two_def split: if_splits)
  then have "1 \<le> v" by (simp add: word_le_nat_alt word_less_nat_alt)
  then have "unat (v - 1) = unat v - 1" by (simp add: unat_sub)
  then have "unat v AND (unat v - 1) = unat (v AND (v - 1))" by (simp only: unsigned_and_eq)
  then have "unat v AND (unat v - 1) = 0" by (simp only: v(2) unsigned_0)
  then have "unat v = 2 ^ k"
    using v shift_count_nat [of v] by (simp add: word_less_nat_alt)
  with x that show ?thesis by blast
qed

lemma int_op_value: "fixed_int t \<Longrightarrow> evaluates ev \<Longrightarrow> unat v < 2 ^ bits t \<Longrightarrow> ev (ir_int_op t v) = unat v"
proof -
  assume t: "fixed_int t" "evaluates ev" "unat v < 2 ^ bits t"
  have "ir_int_op t v = IR_INT t (trim t v)"
    using t(1) by (auto simp: fixed_int_def ir_int_op_def trim_def bits_def push_bit_eq_mult)
  with t show ?thesis by (simp add: evaluates_def trim_small)
qed

lemma is_int_value: "is_int x v \<Longrightarrow> evaluates ev \<Longrightarrow> ev x = unat (trim (op_type x) v)"
  by (auto simp: is_int_def evaluates_def split: ir_operand.splits)

lemma fixed_bits: "fixed_int t \<Longrightarrow> bits t = 8 \<or> bits t = 16 \<or> bits t = 32 \<or> bits t = 64"
  by (auto simp: fixed_int_def bits_def)

lemma and_mask_nat: "(a :: nat) AND (2 ^ k - 1) = a mod 2 ^ k"
proof -
  have "2 ^ k - 1 = (mask k :: nat)" by (simp only: mask_eq_exp_minus_1)
  then show ?thesis by (simp only: take_bit_eq_mask [symmetric] take_bit_eq_mod)
qed

lemma sdiv_one: "x sdiv 1 = (x :: int)"
  by (simp add: signed_divide_int_def sgn_mult_abs)

text \<open>The operators that may change places.\<close>

lemma int_spec_commute:
  "op \<in> {IR_ADD, IR_MUL, IR_AND, IR_OR, IR_XOR, IR_EQ, IR_NE} \<Longrightarrow> int_spec n op a b = int_spec n op b a"
  by (elim insertE emptyE; simp only: int_spec_def Let_def ir_op.case)
    (simp_all add: add.commute mult.commute and.commute or.commute xor.commute eq_commute [of b a])

lemma int_spec_zero:
  assumes "a < 2 ^ n" and "0 < n"
  shows "op \<in> {IR_ADD, IR_SUB, IR_OR, IR_XOR, IR_SHL, IR_SHR_S, IR_SHR_U} \<Longrightarrow> int_spec n op a 0 = Some a"
    and "op \<in> {IR_MUL, IR_AND} \<Longrightarrow> int_spec n op a 0 = Some 0"
  using assms enc_sval [of a n] by (auto simp: int_spec_def Let_def enc_def nat_mod_distrib nat_power_eq)

lemma int_spec_one:
  assumes "a < 2 ^ n" and "1 < n"
  shows "op \<in> {IR_MUL, IR_UDIV, IR_SDIV} \<Longrightarrow> int_spec n op a 1 = Some a"
proof -
  have "(1 :: nat) < 2 ^ (n - 1)" using assms(2) by (intro one_less_power) auto
  then have "sval n 1 = 1" by (simp add: sval_def)
  then show "op \<in> {IR_MUL, IR_UDIV, IR_SDIV} \<Longrightarrow> int_spec n op a 1 = Some a"
    using assms enc_sval [of a n] by (auto simp: int_spec_def Let_def sdiv_one)
qed

lemma int_spec_power:
  assumes "a < 2 ^ n" and "k < n"
  shows "int_spec n IR_MUL a (2 ^ k) = int_spec n IR_SHL a k"
    and "int_spec n IR_UDIV a (2 ^ k) = int_spec n IR_SHR_U a k"
    and "int_spec n IR_UREM a (2 ^ k) = int_spec n IR_AND a (2 ^ k - 1)"
    and "int_spec n IR_AND a (2 ^ n - 1) = Some a"
  using assms and_mask_nat [of a k] and_mask_nat [of a n] by (simp_all add: int_spec_def Let_def)

lemma simplify_int_cases:
  assumes "simplify inst = Some inst'" and "i_op inst \<in> set int_ops"
  shows "i_op inst \<in> {IR_ADD, IR_MUL, IR_AND, IR_OR, IR_XOR, IR_EQ, IR_NE} \<and>
           inst' = inst\<lparr>i_a := i_b inst, i_b := i_a inst\<rparr> \<or>
     i_op inst \<in> {IR_ADD, IR_SUB, IR_OR, IR_XOR, IR_SHL, IR_SHR_S, IR_SHR_U} \<and>
           is_int (i_b inst) 0 \<and> inst' = make_copy inst (i_a inst) \<or>
     i_op inst \<in> {IR_MUL, IR_AND} \<and> is_int (i_b inst) 0 \<and> inst' = make_copy inst (i_b inst) \<or>
     i_op inst \<in> {IR_MUL, IR_UDIV, IR_SDIV} \<and> is_int (i_b inst) 1 \<and> inst' = make_copy inst (i_a inst) \<or>
     i_op inst = IR_AND \<and> is_int (i_b inst) (- 1) \<and> inst' = make_copy inst (i_a inst) \<or>
     (\<exists>k. power_of_two (i_b inst) = k \<and> 0 < k \<and>
       (i_op inst = IR_MUL \<and> inst' = inst\<lparr>i_op := IR_SHL, i_b := ir_int_op (i_type inst) (of_nat k)\<rparr> \<or>
        i_op inst = IR_UDIV \<and> inst' = inst\<lparr>i_op := IR_SHR_U, i_b := ir_int_op (i_type inst) (of_nat k)\<rparr> \<or>
        i_op inst = IR_UREM \<and>
          inst' = inst\<lparr>i_op := IR_AND, i_b := ir_int_op (i_type inst) (int_of_operand (i_b inst) - 1)\<rparr>))"
  using assms
  by (cases "i_op inst"; simp add: simplify_def Let_def is_commutative_def int_ops_def split: if_split_asm)


text \<open>An instruction on temporary 0 and a constant, with the temporary at a value.\<close>

definition with_const :: "ir_op \<Rightarrow> ir_type \<Rightarrow> u64 \<Rightarrow> ir_inst" where
  "with_const op t v = (new_inst op t (Some 1))\<lparr>i_a := IR_TEMP t 0, i_b := IR_INT t v\<rparr>"

fun eval_at :: "nat \<Rightarrow> ir_operand \<Rightarrow> nat" where
  "eval_at x (IR_INT _ v) = unat v"
| "eval_at x (IR_TEMP _ _) = x"
| "eval_at x _ = 0"


lemma int_op_trim: "t \<noteq> IR_CLONG \<Longrightarrow> t \<noteq> IR_CWCHAR \<Longrightarrow> ir_int_op t v = IR_INT t (trim t v)"
  by (cases t) (simp_all add: ir_int_op_def trim_def bits_def push_bit_eq_mult)

lemma int_spec_type:
  "int_spec n op a b = Some v \<Longrightarrow> a < 2 ^ n \<Longrightarrow> b < 2 ^ n \<Longrightarrow>
     op \<in> {IR_EQ, IR_NE, IR_SLT, IR_SLE, IR_SGT, IR_SGE, IR_ULT, IR_ULE, IR_UGT, IR_UGE} \<Longrightarrow> v < 2"
  by (elim insertE emptyE) (auto simp: int_spec_def Let_def split: if_splits)

lemma fold_int_trimmed:
  "fold_int op t a b = Some v \<Longrightarrow>
     op \<notin> {IR_EQ, IR_NE, IR_SLT, IR_SLE, IR_SGT, IR_SGE, IR_ULT, IR_ULE, IR_UGT, IR_UGE} \<Longrightarrow>
     unat v < 2 ^ bits t"
  by (cases op) (auto simp: fold_int_def Let_def unat_trim split: if_splits)



end
