(* ===== verification/Optimize.thy ===== *)
theory Optimize
  imports Folding
begin

text \<open>
  The passes of \<open>src/optimize.c\<close> over a function and over the program. A pass takes the function
  and returns it with whether it changed. A loop over the instructions of a block that deletes
  some of them is a recursion over positions, as in the source. The main loop of
  \<open>ir_optimize_function\<close> runs until no pass changes anything: nothing in the source bounds it, so
  it is a \<^theory_text>\<open>partial_function\<close>.
\<close>

section \<open>Positions and counts\<close>

definition insts_of :: "ir_function \<Rightarrow> nat \<Rightarrow> ir_inst list" where
  "insts_of f b = b_insts (f_blocks f ! b)"

definition set_insts :: "ir_function \<Rightarrow> nat \<Rightarrow> ir_inst list \<Rightarrow> ir_function" where
  "set_insts f b insts = f\<lparr>f_blocks := (f_blocks f)[b := (f_blocks f ! b)\<lparr>b_insts := insts\<rparr>]\<rparr>"

definition set_inst :: "ir_function \<Rightarrow> nat \<Rightarrow> nat \<Rightarrow> ir_inst \<Rightarrow> ir_function" where
  "set_inst f b i inst = set_insts f b ((insts_of f b)[i := inst])"

definition map_blocks :: "(ir_block \<Rightarrow> ir_block) \<Rightarrow> ir_function \<Rightarrow> ir_function" where
  "map_blocks g f = f\<lparr>f_blocks := map g (f_blocks f)\<rparr>"

definition map_insts :: "(ir_inst \<Rightarrow> ir_inst) \<Rightarrow> ir_function \<Rightarrow> ir_function" where
  "map_insts g f = map_blocks (\<lambda>b. b\<lparr>b_insts := map g (b_insts b)\<rparr>) f"

definition positions :: "ir_function \<Rightarrow> (nat \<times> nat) list" where
  "positions f =
     concat (map (\<lambda>b. map (\<lambda>i. (b, i)) [0..<length (insts_of f b)]) [0..<length (f_blocks f)])"

record counts =
  c_defs :: "nat \<Rightarrow> nat"
  c_uses :: "nat \<Rightarrow> nat"
  c_block :: "nat \<Rightarrow> nat"
  c_index :: "nat \<Rightarrow> nat"

definition bump :: "(nat \<Rightarrow> nat) \<Rightarrow> nat \<Rightarrow> nat \<Rightarrow> nat" where
  "bump g n = g(n := g n + 1)"

definition count_use :: "counts \<Rightarrow> ir_operand \<Rightarrow> counts" where
  "count_use c x = (case x of IR_TEMP _ n \<Rightarrow> c\<lparr>c_uses := bump (c_uses c) n\<rparr> | _ \<Rightarrow> c)"

definition count_inst :: "ir_function \<Rightarrow> counts \<Rightarrow> nat \<times> nat \<Rightarrow> counts" where
  "count_inst f c p =
     (case p of (b, i) \<Rightarrow>
        let inst = insts_of f b ! i; c = foldl count_use c (operands inst)
        in (case i_result inst of
              None \<Rightarrow> c
            | Some r \<Rightarrow> c\<lparr>c_defs := bump (c_defs c) r, c_block := (c_block c)(r := b),
                          c_index := (c_index c)(r := i)\<rparr>))"

definition count_param :: "counts \<Rightarrow> ir_param \<Rightarrow> counts" where
  "count_param c p =
     (case p_temp p of None \<Rightarrow> c | Some n \<Rightarrow> c\<lparr>c_defs := bump (c_defs c) n\<rparr>)"

definition count :: "ir_function \<Rightarrow> counts" where
  "count f =
     foldl (count_inst f)
       (foldl count_param
         \<lparr>c_defs = (\<lambda>_. 0), c_uses = (\<lambda>_. 0), c_block = (\<lambda>_. 0), c_index = (\<lambda>_. 0)\<rparr> (f_params f))
       (positions f)"

section \<open>Constant folding\<close>

definition fold_constants :: "c_float \<Rightarrow> ir_function \<Rightarrow> ir_function \<times> bool" where
  "fold_constants F f =
     (map_insts (\<lambda>inst. case fold_step F inst of None \<Rightarrow> inst | Some inst' \<Rightarrow> inst') f,
      list_ex (\<lambda>b. list_ex (\<lambda>inst. fold_step F inst \<noteq> None) (b_insts b)) (f_blocks f))"

section \<open>Copy propagation\<close>

definition replace_uses :: "ir_function \<Rightarrow> nat \<Rightarrow> ir_operand \<Rightarrow> ir_function \<times> bool" where
  "replace_uses f n v =
     (map_insts (map_operands (\<lambda>x. if is_temp x n then v else x)) f,
      list_ex (\<lambda>b. list_ex (\<lambda>inst. list_ex (\<lambda>x. is_temp x n) (operands inst)) (b_insts b)) (f_blocks f))"

text \<open>
  \<open>known\<close> gives the value of each temporary that a copy defined, and \<open>active\<close> the temporaries
  that have one. The source keeps \<open>active\<close> in an order of its own, which nothing depends on.
\<close>

definition known_operand :: "(nat \<Rightarrow> ir_operand) \<Rightarrow> ir_operand \<Rightarrow> ir_operand" where
  "known_operand known x =
     (case x of IR_TEMP _ n \<Rightarrow> if known n \<noteq> IR_NONE then known n else x | _ \<Rightarrow> x)"

definition stale :: "(nat \<Rightarrow> ir_operand) \<Rightarrow> nat \<Rightarrow> nat \<Rightarrow> bool" where
  "stale known r t \<longleftrightarrow> t = r \<or> is_temp (known t) r"

definition forget :: "(nat \<Rightarrow> ir_operand) \<Rightarrow> nat list \<Rightarrow> nat \<Rightarrow> nat \<Rightarrow> ir_operand" where
  "forget known active r = (\<lambda>t. if t \<in> set active \<and> stale known r t then IR_NONE else known t)"

fun propagate_insts ::
  "(nat \<Rightarrow> ir_operand) \<Rightarrow> nat list \<Rightarrow> ir_inst list \<Rightarrow> ir_inst list \<times> bool" where
  "propagate_insts known active [] = ([], False)"
| "propagate_insts known active (inst # insts) =
     (let inst' = map_operands (known_operand known) inst;
          hit = list_ex (\<lambda>x. known_operand known x \<noteq> x) (operands inst);
          (known', active') =
            (case i_result inst of
               None \<Rightarrow> (known, active)
             | Some r \<Rightarrow>
                 let k = forget known active r; act = filter (\<lambda>t. \<not> stale known r t) active
                 in if i_op inst' = IR_COPY \<and> \<not> is_temp (i_a inst') r
                    then (k(r := i_a inst'), act @ [r]) else (k, act));
          (rest, changed) = propagate_insts known' active' insts
      in (inst' # rest, hit \<or> changed))"

definition propagate_in_block :: "ir_block \<Rightarrow> ir_block \<times> bool" where
  "propagate_in_block b =
     (case propagate_insts (\<lambda>_. IR_NONE) [] (b_insts b) of
        (insts, changed) \<Rightarrow> (b\<lparr>b_insts := insts\<rparr>, changed))"

definition propagate_at :: "counts \<Rightarrow> ir_function \<times> bool \<Rightarrow> nat \<times> nat \<Rightarrow> ir_function \<times> bool" where
  "propagate_at c st p =
     (case (st, p) of ((f, changed), (b, i)) \<Rightarrow>
        let inst = insts_of f b ! i
        in (case (i_op inst, i_result inst) of
              (IR_COPY, Some x) \<Rightarrow>
                if c_defs c x \<noteq> 1 \<or> is_temp (i_a inst) x then st
                else
                  let exact =
                        (is_constant (i_a inst) \<or>
                         (case i_a inst of
                            IR_TEMP _ y \<Rightarrow>
                              c_defs c y = 1 \<and>
                              (y < length (f_params f) \<or> (c_block c y = b \<and> c_index c y < i))
                          | _ \<Rightarrow> False))
                  in if exact
                     then (case replace_uses f x (i_a inst) of (f', ch) \<Rightarrow> (f', ch \<or> changed))
                     else st
            | _ \<Rightarrow> st))"

definition propagate_copies :: "ir_function \<Rightarrow> ir_function \<times> bool" where
  "propagate_copies f =
     (let changed = list_ex (\<lambda>b. snd (propagate_in_block b)) (f_blocks f);
          f = map_blocks (\<lambda>b. fst (propagate_in_block b)) f
      in foldl (propagate_at (count f)) (f, changed) (positions f))"

section \<open>Peephole rules\<close>

text \<open>The loop of \<open>final_target\<close>, which takes \<open>block_count + 1\<close> steps at most.\<close>

fun final_target_loop :: "ir_function \<Rightarrow> nat \<Rightarrow> nat \<Rightarrow> nat option" where
  "final_target_loop f 0 target = None"
| "final_target_loop f (Suc steps) target =
     (let insts = insts_of f target
      in if length insts \<noteq> 1 \<or> i_op (insts ! 0) \<noteq> IR_JUMP then Some target
         else final_target_loop f steps (as_index (i_a (insts ! 0))))"

definition final_target :: "ir_function \<Rightarrow> nat \<Rightarrow> nat" where
  "final_target f b =
     (case final_target_loop f (length (f_blocks f) + 1) b of None \<Rightarrow> b | Some target \<Rightarrow> target)"

fun with_index :: "ir_operand \<Rightarrow> nat \<Rightarrow> ir_operand" where
  "with_index (IR_BLOCK t _) n = IR_BLOCK t n"
| "with_index (IR_TEMP t _) n = IR_TEMP t n"
| "with_index (IR_GLOBAL t _) n = IR_GLOBAL t n"
| "with_index (IR_FUNC t _) n = IR_FUNC t n"
| "with_index (IR_SYM t _) n = IR_SYM t n"
| "with_index x n = x"

definition retarget :: "ir_function \<Rightarrow> ir_operand \<Rightarrow> ir_operand \<times> bool" where
  "retarget f x =
     (let target = final_target f (as_index x)
      in if target = as_index x then (x, False) else (with_index x target, True))"

text \<open>
  One turn of the loop of \<open>apply_peephole_rules\<close> at position \<open>i\<close> of block \<open>b\<close>: the function, the next
  position and whether anything changed.
\<close>

definition peephole_step :: "counts \<Rightarrow> ir_function \<Rightarrow> nat \<Rightarrow> nat \<Rightarrow> ir_function \<times> nat \<times> bool" where
  "peephole_step c f b i =
     (let insts = insts_of f b;
          simple = simplify (insts ! i);
          inst = (case simple of None \<Rightarrow> insts ! i | Some inst \<Rightarrow> inst);
          changed = (simple \<noteq> None);
          insts = insts[i := inst];
          f = set_insts f b insts;
          copies = (\<lambda>inst r. i_op inst = IR_COPY \<and> is_temp (i_a inst) r)
      in if (case i_result inst of Some r \<Rightarrow> copies inst r | None \<Rightarrow> False)
         then (set_insts f b (delete_inst insts i), i, True)
         else if i + 1 < length insts \<and>
                 (case i_result inst of
                    Some r \<Rightarrow> copies (insts ! (i + 1)) r \<and> c_defs c r = 1 \<and> c_uses c r = 1 \<and>
                              r \<ge> length (f_params f)
                  | None \<Rightarrow> False)
         then (set_insts f b (delete_inst (insts[i := inst\<lparr>i_result := i_result (insts ! (i + 1))\<rparr>]) (i + 1)),
               i + 1, True)
         else if i_op inst = IR_JUMP then
           (case retarget f (i_a inst) of
              (a, ch) \<Rightarrow> (set_inst f b i (inst\<lparr>i_a := a\<rparr>), i + 1, changed \<or> ch))
         else if i_op inst = IR_BRANCH then
           (case retarget f (i_b inst) of
              (x, ch) \<Rightarrow>
                let inst = inst\<lparr>i_b := x\<rparr>; f = set_inst f b i inst
                in (case retarget f (i_c inst) of
                      (y, ch') \<Rightarrow> (set_inst f b i (inst\<lparr>i_c := y\<rparr>), i + 1, changed \<or> ch \<or> ch')))
         else (f, i + 1, changed))"

definition left :: "ir_function \<Rightarrow> nat \<Rightarrow> nat \<Rightarrow> nat" where
  "left f b i = length (insts_of f b) - i"

lemma length_delete_inst: "i < length insts \<Longrightarrow> length (delete_inst insts i) = length insts - 1"
  by (simp add: delete_inst_def)

lemma insts_of_set_insts [simp]: "b < length (f_blocks f) \<Longrightarrow> insts_of (set_insts f b insts) b = insts"
  by (simp add: insts_of_def set_insts_def)

lemma length_set_insts [simp]: "length (f_blocks (set_insts f b insts)) = length (f_blocks f)"
  by (simp add: set_insts_def)

lemma insts_of_set_inst [simp]:
  "b < length (f_blocks f) \<Longrightarrow> insts_of (set_inst f b i inst) b = (insts_of f b)[i := inst]"
  by (simp add: set_inst_def)

lemma length_set_inst [simp]: "length (f_blocks (set_inst f b i inst)) = length (f_blocks f)"
  by (simp add: set_inst_def)

lemma peephole_step_left:
  assumes "b < length (f_blocks f)" and "i < length (insts_of f b)"
    and "peephole_step c f b i = (f', i', ch)"
  shows "left f' b i' < left f b i"
  using assms by (auto simp: peephole_step_def Let_def left_def length_delete_inst
      split: if_splits option.splits prod.splits)

function peephole_block :: "counts \<Rightarrow> ir_function \<Rightarrow> nat \<Rightarrow> nat \<Rightarrow> bool \<Rightarrow> ir_function \<times> bool" where
  "peephole_block c f b i changed =
     (if b < length (f_blocks f) \<and> i < length (insts_of f b) then
        (case peephole_step c f b i of
           (f', i', ch) \<Rightarrow> peephole_block c f' b i' (ch \<or> changed))
      else (f, changed))"
  by pat_completeness auto
termination
  by (relation "measure (\<lambda>(c, f, b, i, changed). left f b i)") (auto dest: peephole_step_left [OF _ _ sym])

declare peephole_block.simps [simp del]

definition apply_peephole_rules :: "ir_function \<Rightarrow> ir_function \<times> bool" where
  "apply_peephole_rules f =
     foldl (\<lambda>(f', changed) b. peephole_block (count f) f' b 0 changed) (f, False)
       [0..<length (f_blocks f)]"

section \<open>Dead code\<close>

text \<open>Whether a definition of \<open>r\<close> is overwritten in the instructions that follow before any use.\<close>

fun overwritten :: "nat \<Rightarrow> ir_inst list \<Rightarrow> bool" where
  "overwritten r [] \<longleftrightarrow> False"
| "overwritten r (inst # insts) \<longleftrightarrow>
     \<not> list_ex (\<lambda>x. is_temp x r) (operands inst) \<and> (i_result inst = Some r \<or> overwritten r insts)"

definition is_dead :: "counts \<Rightarrow> ir_inst \<Rightarrow> ir_inst list \<Rightarrow> bool" where
  "is_dead c inst rest \<longleftrightarrow>
     (case i_result inst of
        None \<Rightarrow> False
      | Some r \<Rightarrow> is_pure (i_op inst) \<and> (c_uses c r = 0 \<or> overwritten r rest))"

text \<open>The loop goes from the last instruction to the first, so what follows is already cleaned.\<close>

fun remove_dead :: "counts \<Rightarrow> ir_inst list \<Rightarrow> ir_inst list \<times> bool" where
  "remove_dead c [] = ([], False)"
| "remove_dead c (inst # insts) =
     (case remove_dead c insts of
        (rest, changed) \<Rightarrow> if is_dead c inst rest then (rest, True) else (inst # rest, changed))"

definition remove_unused_results :: "ir_function \<Rightarrow> ir_function \<times> bool" where
  "remove_unused_results f =
     (let c = count f
      in (map_blocks (\<lambda>b. b\<lparr>b_insts := fst (remove_dead c (b_insts b))\<rparr>) f,
          list_ex (\<lambda>b. snd (remove_dead c (b_insts b))) (f_blocks f)))"

definition successors :: "ir_inst list \<Rightarrow> nat list" where
  "successors insts =
     (if insts = [] then []
      else
        let l = last insts
        in if i_op l = IR_JUMP then [as_index (i_a l)]
           else if i_op l = IR_BRANCH then [as_index (i_b l), as_index (i_c l)]
           else [])"

text \<open>
  \<open>mark_reachable\<close> recurses into the successors. Its depth is at most the number of blocks, which
  is the fuel it is called with.
\<close>

fun mark_reachable :: "nat \<Rightarrow> ir_function \<Rightarrow> bool list \<Rightarrow> nat \<Rightarrow> bool list" where
  "mark_reachable 0 f reached b = reached"
| "mark_reachable (Suc fuel) f reached b =
     (if b < length reached \<and> \<not> reached ! b
      then foldl (mark_reachable fuel f) (reached[b := True]) (successors (insts_of f b))
      else reached)"

definition reachable_blocks :: "ir_function \<Rightarrow> bool list" where
  "reachable_blocks f =
     (let n = length (f_blocks f) in mark_reachable (Suc n) f (replicate n False) 0)"

text \<open>The new number of a block: how many of the blocks before it stay.\<close>

definition new_index :: "bool list \<Rightarrow> nat \<Rightarrow> nat" where
  "new_index keeps b = length (filter id (take b keeps))"

definition remap_block :: "(nat \<Rightarrow> nat) \<Rightarrow> ir_operand \<Rightarrow> ir_operand" where
  "remap_block g x = (case x of IR_BLOCK t n \<Rightarrow> IR_BLOCK t (g n) | _ \<Rightarrow> x)"

definition keep_marked :: "bool list \<Rightarrow> 'a list \<Rightarrow> 'a list" where
  "keep_marked marks xs = map snd (filter fst (zip marks xs))"

definition number_blocks :: "ir_block list \<Rightarrow> ir_block list" where
  "number_blocks bs = map (\<lambda>(n, b). b\<lparr>b_index := n\<rparr>) (zip [0..<length bs] bs)"

definition remove_unreachable_blocks :: "ir_function \<Rightarrow> ir_function \<times> bool" where
  "remove_unreachable_blocks f =
     (let reached = reachable_blocks f;
          g = new_index reached;
          f' = f\<lparr>f_blocks := number_blocks (keep_marked reached (f_blocks f))\<rparr>;
          changed = (length (f_blocks f') \<noteq> length (f_blocks f))
      in (if changed
          then map_insts (\<lambda>inst. inst\<lparr>i_a := remap_block g (i_a inst), i_b := remap_block g (i_b inst),
                                     i_c := remap_block g (i_c inst)\<rparr>) f'
          else f', changed))"

definition predecessors :: "ir_function \<Rightarrow> nat \<Rightarrow> nat" where
  "predecessors f = foldl (\<lambda>g b. foldl bump g (successors (b_insts b))) (\<lambda>_. 0) (f_blocks f)"

text \<open>The block that block \<open>b\<close> takes over, if the loop of \<open>merge_blocks\<close> merges one. A target that
  does not exist, which the verifier refuses, is a read out of bounds in C and no merge here.\<close>

definition merge_target :: "ir_function \<Rightarrow> (nat \<Rightarrow> nat) \<Rightarrow> nat \<Rightarrow> nat option" where
  "merge_target f preds b =
     (let insts = insts_of f b
      in if insts = [] \<or> i_op (last insts) \<noteq> IR_JUMP then None
         else
           let target = as_index (i_a (last insts))
           in if target = b \<or> target = 0 \<or> preds target \<noteq> 1 \<or> target \<ge> length (f_blocks f) \<or>
                 insts_of f target = [] then None
              else Some target)"

definition merge_into :: "ir_function \<Rightarrow> nat \<Rightarrow> nat \<Rightarrow> ir_function" where
  "merge_into f b target =
     set_insts (set_insts f b (butlast (insts_of f b) @ insts_of f target)) target []"

definition nonempty :: "ir_function \<Rightarrow> nat" where
  "nonempty f = length (filter (\<lambda>b. b_insts b \<noteq> []) (f_blocks f))"

lemma nonempty_update:
  "b < length bs \<Longrightarrow> length (filter P (bs[b := x])) + of_bool (P (bs ! b)) = length (filter P bs) + of_bool (P x)"
proof (induction bs arbitrary: b)
  case (Cons a bs)
  then show ?case by (cases b) (auto simp: of_bool_def)
qed simp

lemma nonempty_merge:
  assumes "merge_target f preds b = Some target" and "b < length (f_blocks f)"
  shows "nonempty (merge_into f b target) < nonempty f"
proof -
  have t: "target < length (f_blocks f)" "target \<noteq> b" "insts_of f target \<noteq> []" "insts_of f b \<noteq> []"
    using assms(1) by (auto simp: merge_target_def Let_def split: if_splits)
  let ?P = "\<lambda>b. b_insts b \<noteq> []"
  let ?bs = "(f_blocks f)[b := (f_blocks f ! b)\<lparr>b_insts := butlast (insts_of f b) @ insts_of f target\<rparr>]"
  have "nonempty (merge_into f b target) =
      length (filter ?P (?bs[target := (?bs ! target)\<lparr>b_insts := []\<rparr>]))"
    by (simp add: nonempty_def merge_into_def set_insts_def)
  moreover have "length (filter ?P (?bs[target := (?bs ! target)\<lparr>b_insts := []\<rparr>])) + 1 = length (filter ?P ?bs)"
    using nonempty_update [of target ?bs ?P "(?bs ! target)\<lparr>b_insts := []\<rparr>"] t by (simp add: insts_of_def)
  moreover have "length (filter ?P ?bs) = nonempty f"
    using nonempty_update [of b "f_blocks f" ?P
        "(f_blocks f ! b)\<lparr>b_insts := butlast (insts_of f b) @ insts_of f target\<rparr>"] t assms(2)
    by (simp add: insts_of_def nonempty_def)
  ultimately show ?thesis by simp
qed

function merge_loop :: "ir_function \<Rightarrow> (nat \<Rightarrow> nat) \<Rightarrow> nat \<Rightarrow> bool \<Rightarrow> ir_function \<times> bool" where
  "merge_loop f preds b changed =
     (if b < length (f_blocks f) then
        (case merge_target f preds b of
           None \<Rightarrow> merge_loop f preds (b + 1) changed
         | Some target \<Rightarrow> merge_loop (merge_into f b target) (preds(target := 0)) b True)
      else (f, changed))"
  by pat_completeness auto
termination
  by (relation "measures [\<lambda>(f, preds, b, changed). nonempty f,
        \<lambda>(f, preds, b, changed). length (f_blocks f) - b]")
    (auto simp: nonempty_merge)

declare merge_loop.simps [simp del]

definition merge_blocks :: "ir_function \<Rightarrow> ir_function \<times> bool" where
  "merge_blocks f = merge_loop f (predecessors f) 0 False"

definition remove_dead_code :: "ir_function \<Rightarrow> ir_function \<times> bool" where
  "remove_dead_code f =
     (case remove_unused_results f of
        (f, c1) \<Rightarrow>
          (case remove_unreachable_blocks f of
             (f, c2) \<Rightarrow>
               (case merge_blocks f of
                  (f, True) \<Rightarrow> (fst (remove_unreachable_blocks f), True)
                | (f, False) \<Rightarrow> (f, c1 \<or> c2))))"

end
