(* ===== verification/Slots.thy ===== *)
theory Slots
  imports Optimize
begin

text \<open>
  The passes of \<open>src/optimize.c\<close> that work on memory: the forwarding of a store to a later load and
  the replacement of the slots of aggregates by temporaries.
\<close>

section \<open>Store-to-load forwarding\<close>

record address =
  base :: ir_operand
  ad_offset :: ir_operand
  known :: bool

definition is_temp_operand :: "ir_operand \<Rightarrow> bool" where
  "is_temp_operand x \<longleftrightarrow> (case x of IR_TEMP _ _ \<Rightarrow> True | _ \<Rightarrow> False)"

definition address_step :: "nat \<Rightarrow> address \<Rightarrow> ir_inst \<Rightarrow> address" where
  "address_step n ad inst =
     (if known ad \<and> i_op inst = IR_PTRADD \<and> i_result inst = Some n
      then \<lparr>base = i_a inst, ad_offset = i_b inst, known = is_temp_operand (i_a inst)\<rparr>
      else ad)"

definition address_of :: "ir_inst list \<Rightarrow> nat \<Rightarrow> ir_operand \<Rightarrow> address" where
  "address_of insts limit x =
     foldl (address_step (as_index x))
       \<lparr>base = x, ad_offset = ir_int_op IR_I64 0, known = is_temp_operand x\<rparr> (take limit insts)"

definition same_kind :: "ir_operand \<Rightarrow> ir_operand \<Rightarrow> bool" where
  "same_kind x y \<longleftrightarrow> operand_kind x = operand_kind y"

definition same_offset :: "ir_operand \<Rightarrow> ir_operand \<Rightarrow> bool" where
  "same_offset x y \<longleftrightarrow> same_kind x y \<and> int_of_operand x = int_of_operand y"

definition same_address :: "address \<Rightarrow> address \<Rightarrow> bool" where
  "same_address p q \<longleftrightarrow> known p \<and> known q \<and>
     same_kind (base p) (base q) \<and> as_index (base p) = as_index (base q) \<and>
     same_offset (ad_offset p) (ad_offset q)"

text \<open>What the pass holds: an address, and the value and the type last stored there or loaded.\<close>

record held =
  h_at :: address
  h_value :: ir_operand
  h_type :: ir_type

definition no_address :: address where
  "no_address = \<lparr>base = IR_NONE, ad_offset = IR_NONE, known = False\<rparr>"

definition forward_step ::
  "ir_function \<Rightarrow> held \<Rightarrow> ir_inst list \<Rightarrow> nat \<Rightarrow> held \<times> ir_inst list \<times> bool" where
  "forward_step f h insts i =
     (let inst = insts ! i
      in case i_op inst of
           IR_LOAD \<Rightarrow>
             let ad = address_of insts i (i_a inst)
             in if known (h_at h) \<and> same_address (h_at h) ad \<and> h_type h = i_type inst
                then (h, insts[i := make_copy inst (h_value h)], True)
                else (\<lparr>h_at = ad, h_value = (case i_result inst of Some r \<Rightarrow> ir_temp_op f r | None \<Rightarrow> IR_NONE),
                       h_type = i_type inst\<rparr>, insts, False)
         | IR_STORE \<Rightarrow>
             let ad = address_of insts i (i_b inst);
                 h = (if \<not> known (h_at h) \<or> \<not> same_address (h_at h) ad
                      then h\<lparr>h_at := no_address\<rparr> else h);
                 h = (if known ad then \<lparr>h_at = ad, h_value = i_a inst, h_type = i_type inst\<rparr> else h)
             in (h, insts, False)
         | IR_CALL \<Rightarrow> (h\<lparr>h_at := no_address\<rparr>, insts, False)
         | IR_MEMCOPY \<Rightarrow> (h\<lparr>h_at := no_address\<rparr>, insts, False)
         | IR_BITSTORE \<Rightarrow> (h\<lparr>h_at := no_address\<rparr>, insts, False)
         | IR_BITLOAD \<Rightarrow> (h\<lparr>h_at := no_address\<rparr>, insts, False)
         | _ \<Rightarrow> (h, insts, False))"

definition forward_block :: "ir_function \<Rightarrow> ir_inst list \<Rightarrow> ir_inst list \<times> bool" where
  "forward_block f insts =
     (case foldl (\<lambda>(h, insts, changed) i.
             case forward_step f h insts i of (h, insts, ch) \<Rightarrow> (h, insts, ch \<or> changed))
           (\<lparr>h_at = no_address, h_value = IR_NONE, h_type = IR_VOID\<rparr>, insts, False)
           [0..<length insts] of
        (h, insts, changed) \<Rightarrow> (insts, changed))"

definition forward_stores :: "ir_function \<Rightarrow> ir_function \<times> bool" where
  "forward_stores f =
     (map_blocks (\<lambda>b. b\<lparr>b_insts := fst (forward_block f (b_insts b))\<rparr>) f,
      list_ex (\<lambda>b. snd (forward_block f (b_insts b))) (f_blocks f))"

section \<open>Scalar replacement of aggregates\<close>

record slot_field =
  sf_offset :: ir_operand
  sf_type :: ir_type
  sf_temp :: nat

text \<open>
  \<open>field_at\<close> returns a pointer to the field or NULL. Here it returns whether there is one, with the
  function and the table, which it may extend.
\<close>

definition field_at ::
  "ir_function \<times> slot_field list \<Rightarrow> ir_operand \<Rightarrow> ir_type \<Rightarrow> (ir_function \<times> slot_field list) \<times> bool" where
  "field_at st off t =
     (case st of (f, fds) \<Rightarrow>
        (case List.find (\<lambda>fd. same_offset (sf_offset fd) off) fds of
           Some fd \<Rightarrow> (st, sf_type fd = t)
         | None \<Rightarrow>
             if length fds \<ge> 32 then (st, False)
             else (case ir_temp f t of
                     (f', n) \<Rightarrow> ((f', fds @ [\<lparr>sf_offset = off, sf_type = t, sf_temp = n\<rparr>]), True))))"

definition escapes_in :: "ir_inst \<Rightarrow> nat \<Rightarrow> bool" where
  "escapes_in inst n \<longleftrightarrow>
     (if i_op inst = IR_LOAD then False
      else if i_op inst = IR_STORE then is_temp (i_a inst) n
      else if i_op inst = IR_PTRADD then is_temp (i_b inst) n
      else list_ex (\<lambda>x. is_temp x n) (operands inst))"

text \<open>The address of a load or a store is the temporary.\<close>

definition accesses :: "ir_inst \<Rightarrow> nat \<Rightarrow> bool" where
  "accesses inst n \<longleftrightarrow>
     (i_op inst = IR_LOAD \<and> is_temp (i_a inst) n) \<or> (i_op inst = IR_STORE \<and> is_temp (i_b inst) n)"

definition inst_at :: "ir_function \<Rightarrow> nat \<times> nat \<Rightarrow> ir_inst" where
  "inst_at f p = insts_of f (fst p) ! snd p"

text \<open>
  The scan of the uses of a \<open>ptradd\<close> of the slot, and the scan of the uses of the slot. The flag
  is \<open>escaped\<close>, and a scan stops at the first escape.
\<close>

type_synonym scan = "(ir_function \<times> slot_field list) \<times> bool"

definition scan_ptradd :: "nat \<times> nat \<Rightarrow> ir_inst \<Rightarrow> scan \<Rightarrow> nat \<times> nat \<Rightarrow> scan" where
  "scan_ptradd here uses st p =
     (case st of (ff, escaped) \<Rightarrow>
        let inst = inst_at (fst ff) p
        in if escaped \<or> p = here then st
           else
             (case i_result uses of
                None \<Rightarrow> st
              | Some n \<Rightarrow>
                  if escapes_in inst n \<or> (i_op inst = IR_PTRADD \<and> is_temp (i_a inst) n) then (ff, True)
                  else if accesses inst n then
                    (case field_at ff (i_b uses) (i_type inst) of (ff', found) \<Rightarrow> (ff', \<not> found))
                  else st))"

definition scan_slot :: "nat \<times> nat \<Rightarrow> nat \<Rightarrow> scan \<Rightarrow> nat \<times> nat \<Rightarrow> scan" where
  "scan_slot slot n st p =
     (case st of (ff, escaped) \<Rightarrow>
        let inst = inst_at (fst ff) p
        in if escaped \<or> p = slot then st
           else if escapes_in inst n then (ff, True)
           else if accesses inst n then
             (case field_at ff (ir_int_op IR_I64 0) (i_type inst) of (ff', found) \<Rightarrow> (ff', \<not> found))
           else if i_op inst = IR_PTRADD \<and> is_temp (i_a inst) n then
             (case i_b inst of
                IR_INT _ _ \<Rightarrow> foldl (scan_ptradd p inst) st (positions (fst ff))
              | IR_SYM _ _ \<Rightarrow> foldl (scan_ptradd p inst) st (positions (fst ff))
              | _ \<Rightarrow> (ff, True))
           else st)"

text \<open>The offset in the slot at which a load or a store accesses it.\<close>

definition slot_offset :: "ir_function \<Rightarrow> nat \<Rightarrow> ir_operand \<Rightarrow> ir_operand option" where
  "slot_offset f n ad =
     (if is_temp ad n then Some (ir_int_op IR_I64 0)
      else
        (case ad of
           IR_TEMP _ m \<Rightarrow>
             map_option i_b
               (List.find (\<lambda>inst. i_op inst = IR_PTRADD \<and> is_temp (i_a inst) n \<and> i_result inst = Some m)
                 (concat (map b_insts (f_blocks f))))
         | _ \<Rightarrow> None))"

definition rewrite_access :: "ir_function \<Rightarrow> slot_field list \<Rightarrow> nat \<Rightarrow> ir_inst \<Rightarrow> ir_inst" where
  "rewrite_access f fds n inst =
     (let ad = (if i_op inst = IR_LOAD then Some (i_a inst)
                else if i_op inst = IR_STORE then Some (i_b inst) else None)
      in case Option.bind ad (slot_offset f n) of
           None \<Rightarrow> inst
         | Some off \<Rightarrow>
             (case List.find (\<lambda>fd. same_offset (sf_offset fd) off) fds of
                None \<Rightarrow> inst
              | Some fd \<Rightarrow>
                  if i_op inst = IR_LOAD then make_copy inst (ir_temp_op f (sf_temp fd))
                  else (make_copy inst (i_a inst))\<lparr>i_result := Some (sf_temp fd), i_type := sf_type fd\<rparr>))"

definition drop_ptradds :: "nat \<Rightarrow> ir_inst list \<Rightarrow> ir_inst list" where
  "drop_ptradds n insts = filter (\<lambda>inst. \<not> (i_op inst = IR_PTRADD \<and> is_temp (i_a inst) n)) insts"

text \<open>
  One turn of the loops of \<open>split_slots\<close> at position \<open>i\<close> of block \<open>b\<close>: the function, the next position
  and whether the slot was split. A scan may leave temporaries that nothing uses.
\<close>

definition split_at :: "ir_function \<Rightarrow> nat \<Rightarrow> nat \<Rightarrow> ir_function \<times> nat \<times> bool" where
  "split_at f b i =
     (let slot = insts_of f b ! i
      in case i_result slot of
           None \<Rightarrow> (f, i + 1, False)
         | Some n \<Rightarrow>
             if i_op slot \<noteq> IR_SLOT \<or> vt_type (i_of slot) \<noteq> IR_AGG then (f, i + 1, False)
             else
               (case foldl (scan_slot (b, i) n) ((f, []), False) (positions f) of
                  ((f', fds), escaped) \<Rightarrow>
                    if escaped \<or> fds = [] then (f', i + 1, False)
                    else
                      let f1 = map_insts (rewrite_access f' fds n) f';
                          f2 = map_blocks (\<lambda>blk. blk\<lparr>b_insts := drop_ptradds n (b_insts blk)\<rparr>) f1
                      in (set_insts f2 b (delete_inst (insts_of f2 b) i), i, True)))"

lemma blocks_field_at: "field_at ff off t = (ff', found) \<Longrightarrow> f_blocks (fst ff') = f_blocks (fst ff)"
  by (auto simp: field_at_def ir_temp_def split: prod.splits option.splits if_splits)

lemma blocks_scan_ptradd_step: "f_blocks (fst (fst (scan_ptradd here u (ff, esc) p))) = f_blocks (fst ff)"
proof (cases "i_result u")
  case (Some n)
  obtain ff' found where fa: "field_at ff (i_b u) (i_type (inst_at (fst ff) p)) = (ff', found)"
    by (cases "field_at ff (i_b u) (i_type (inst_at (fst ff) p))")
  with blocks_field_at [OF fa] Some show ?thesis by (simp add: scan_ptradd_def Let_def)
qed (simp add: scan_ptradd_def Let_def)

lemma blocks_scan_ptradd: "f_blocks (fst (fst (foldl (scan_ptradd here u) st ps))) = f_blocks (fst (fst st))"
proof (induction ps arbitrary: st)
  case (Cons p ps)
  with blocks_scan_ptradd_step [of here u "fst st" "snd st" p] show ?case by simp
qed simp

lemma blocks_scan_slot_step: "f_blocks (fst (fst (scan_slot slot n (ff, esc) p))) = f_blocks (fst ff)"
proof -
  obtain ff' found where fa: "field_at ff (ir_int_op IR_I64 0) (i_type (inst_at (fst ff) p)) = (ff', found)"
    by (cases "field_at ff (ir_int_op IR_I64 0) (i_type (inst_at (fst ff) p))")
  have off: "f_blocks (fst (fst (case x of IR_INT _ _ \<Rightarrow> a | IR_SYM _ _ \<Rightarrow> a | _ \<Rightarrow> (ff, True)))) = f_blocks (fst ff)"
    if "f_blocks (fst (fst a)) = f_blocks (fst ff)" for x and a :: scan
    using that by (cases x) simp_all
  show ?thesis
    using blocks_field_at [OF fa] blocks_scan_ptradd [of p "inst_at (fst ff) p" "(ff, False)"] fa
    by (simp add: scan_slot_def Let_def off)
qed

lemma blocks_scan_slot: "f_blocks (fst (fst (foldl (scan_slot slot n) st ps))) = f_blocks (fst (fst st))"
proof (induction ps arbitrary: st)
  case (Cons p ps)
  with blocks_scan_slot_step [of slot n "fst st" "snd st" p] show ?case by simp
qed simp

lemma split_at_left:
  assumes "b < length (f_blocks f)" and "i < length (insts_of f b)" and "split_at f b i = (f', i', ch)"
  shows "left f' b i' < left f b i"
proof (cases "i_result (insts_of f b ! i)")
  case None
  with assms show ?thesis by (auto simp: split_at_def left_def)
next
  case (Some n)
  obtain f1 fds esc where s: "foldl (scan_slot (b, i) n) ((f, []), False) (positions f) = ((f1, fds), esc)"
    by (metis prod.exhaust)
  have bl: "f_blocks f1 = f_blocks f" using blocks_scan_slot [of "(b, i)" n "((f, []), False)" "positions f"] s by simp
  then have same: "insts_of f1 b = insts_of f b" by (simp add: insts_of_def)
  show ?thesis
  proof (cases "ch")
    case False
    with assms Some s same show ?thesis
      by (auto simp: split_at_def left_def Let_def split: if_splits)
  next
    case True
    let ?rest = "drop_ptradds n (map (rewrite_access f1 fds n) (insts_of f b))"
    have f': "f' = set_insts (map_blocks (\<lambda>blk. blk\<lparr>b_insts := drop_ptradds n (b_insts blk)\<rparr>)
        (map_insts (rewrite_access f1 fds n) f1)) b (delete_inst ?rest i)" and "i' = i"
      using assms Some s True bl
      by (auto simp: split_at_def Let_def map_insts_def map_blocks_def insts_of_def split: if_splits)
    then have "insts_of f' b = delete_inst ?rest i"
      using assms(1) bl by (simp add: map_insts_def map_blocks_def)
    moreover have "length ?rest \<le> length (insts_of f b)"
      unfolding drop_ptradds_def by (rule order_trans [OF length_filter_le]) simp
    ultimately show ?thesis
      using assms(2) \<open>i' = i\<close> by (auto simp: left_def delete_inst_def)
  qed
qed

function split_block :: "ir_function \<Rightarrow> nat \<Rightarrow> nat \<Rightarrow> bool \<Rightarrow> ir_function \<times> bool" where
  "split_block f b i changed =
     (if b < length (f_blocks f) \<and> i < length (insts_of f b) then
        (case split_at f b i of (f', i', ch) \<Rightarrow> split_block f' b i' (ch \<or> changed))
      else (f, changed))"
  by pat_completeness auto
termination
  by (relation "measure (\<lambda>(f, b, i, changed). left f b i)") (auto dest: split_at_left [OF _ _ sym])

declare split_block.simps [simp del]

definition split_slots :: "ir_function \<Rightarrow> ir_function \<times> bool" where
  "split_slots f =
     foldl (\<lambda>(f', changed) b. split_block f' b 0 changed) (f, False) [0..<length (f_blocks f)]"

end
