(* ===== verification/Program.thy ===== *)
theory Program
  imports Slots
begin

text \<open>
  The rest of \<open>src/optimize.c\<close>: the new numbers of the temporaries, the loop over the passes, and the
  removal of what no entry of the program reaches.
\<close>

section \<open>New numbers for the temporaries\<close>

text \<open>The map of the source and the types, which a temporary joins at its first appearance.\<close>

type_synonym numbering = "(nat \<rightharpoonup> nat) \<times> ir_type list"

definition number_temp :: "ir_function \<Rightarrow> numbering \<Rightarrow> nat \<Rightarrow> numbering" where
  "number_temp f st n =
     (case st of (m, types) \<Rightarrow>
        if m n = None then (m(n \<mapsto> length types), types @ [f_temps f ! n]) else st)"

definition number_operand :: "ir_function \<Rightarrow> numbering \<Rightarrow> ir_operand \<Rightarrow> numbering" where
  "number_operand f st x = (case x of IR_TEMP _ n \<Rightarrow> number_temp f st n | _ \<Rightarrow> st)"

definition number_inst :: "ir_function \<Rightarrow> numbering \<Rightarrow> ir_inst \<Rightarrow> numbering" where
  "number_inst f st inst =
     (let st = (case i_result inst of None \<Rightarrow> st | Some r \<Rightarrow> number_temp f st r)
      in foldl (number_operand f) st (operands inst))"

text \<open>A parameter gets the next number without a test, as in the source.\<close>

definition number_param :: "ir_function \<Rightarrow> numbering \<Rightarrow> ir_param \<Rightarrow> numbering" where
  "number_param f st p =
     (case (st, p_temp p) of
        ((m, types), Some n) \<Rightarrow> (m(n \<mapsto> length types), types @ [f_temps f ! n])
      | (_, None) \<Rightarrow> st)"

definition temp_numbers :: "ir_function \<Rightarrow> numbering" where
  "temp_numbers f =
     foldl (number_inst f) (foldl (number_param f) (Map.empty, []) (f_params f))
       (concat (map b_insts (f_blocks f)))"

definition rename_operand :: "(nat \<rightharpoonup> nat) \<Rightarrow> ir_operand \<Rightarrow> ir_operand" where
  "rename_operand m x = (case x of IR_TEMP t n \<Rightarrow> IR_TEMP t (the (m n)) | _ \<Rightarrow> x)"

definition rename_inst :: "(nat \<rightharpoonup> nat) \<Rightarrow> ir_inst \<Rightarrow> ir_inst" where
  "rename_inst m inst =
     (map_operands (rename_operand m) inst)
       \<lparr>i_result := (case i_result inst of None \<Rightarrow> None | Some r \<Rightarrow> m r)\<rparr>"

definition renumber_temps :: "ir_function \<Rightarrow> ir_function" where
  "renumber_temps f =
     (case temp_numbers f of
        (m, types) \<Rightarrow>
          (map_insts (rename_inst m) f)
            \<lparr>f_params := map (\<lambda>p. p\<lparr>p_temp := Option.bind (p_temp p) m\<rparr>) (f_params f),
             f_temps := types\<rparr>)"

section \<open>The loop over the passes\<close>

definition optimize_round :: "c_float \<Rightarrow> ir_function \<Rightarrow> ir_function \<times> bool" where
  "optimize_round F f =
     (let (f, c1) = fold_constants F f;
          (f, c2) = apply_peephole_rules f;
          (f, c3) = split_slots f;
          (f, c4) = forward_stores f;
          (f, c5) = propagate_copies f;
          (f, c6) = remove_dead_code f
      in (f, c1 \<or> c2 \<or> c3 \<or> c4 \<or> c5 \<or> c6))"

partial_function (option) optimize_loop :: "c_float \<Rightarrow> ir_function \<Rightarrow> ir_function option" where
  "optimize_loop F f =
     (case optimize_round F f of (f', changed) \<Rightarrow> if changed then optimize_loop F f' else Some f')"

declare optimize_loop.simps [code]

definition ir_optimize_function :: "c_float \<Rightarrow> ir_function \<Rightarrow> ir_function option" where
  "ir_optimize_function F f = map_option renumber_temps (optimize_loop F f)"

section \<open>What the program reaches\<close>

text \<open>
  The functions and globals marked so far. \<open>mark_function\<close> recurses into the functions that a
  function names. Its depth is at most the number of functions, which is its fuel.
\<close>

type_synonym marks = "bool list \<times> bool list"

definition callees :: "ir_function \<Rightarrow> nat list" where
  "callees f =
     concat (map (\<lambda>x. case x of IR_FUNC _ n \<Rightarrow> [n] | _ \<Rightarrow> [])
       (concat (map operands (concat (map b_insts (f_blocks f))))))"

definition named_globals :: "ir_function \<Rightarrow> nat list" where
  "named_globals f =
     concat (map (\<lambda>x. case x of IR_GLOBAL _ n \<Rightarrow> [n] | _ \<Rightarrow> [])
       (concat (map operands (concat (map b_insts (f_blocks f))))))"

fun mark_function :: "nat \<Rightarrow> ir_module \<Rightarrow> marks \<Rightarrow> nat \<Rightarrow> marks" where
  "mark_function 0 m st n = st"
| "mark_function (Suc fuel) m st n =
     (case st of (live, globals) \<Rightarrow>
        if n < length live \<and> \<not> live ! n then
          let f = m_functions m ! n;
              globals = foldl (\<lambda>g i. g[i := True]) globals (named_globals f)
          in foldl (mark_function fuel m) (live[n := True], globals) (callees f)
        else st)"

definition mark_function_all :: "ir_module \<Rightarrow> marks \<Rightarrow> nat \<Rightarrow> marks" where
  "mark_function_all m st n = mark_function (Suc (length (m_functions m))) m st n"

text \<open>\<open>mark_const\<close>, with its flag \<open>grew\<close>.\<close>

fun mark_const :: "ir_module \<Rightarrow> marks \<times> bool \<Rightarrow> ir_const \<Rightarrow> marks \<times> bool" where
  "mark_const m ((live, globals), grew) (IR_CONST_ADDR _ n) =
     ((live, globals[n := True]), grew \<or> \<not> globals ! n)"
| "mark_const m ((live, globals), grew) (IR_CONST_FUNC _ n) =
     (if \<not> live ! n then (mark_function_all m (live, globals) n, True) else ((live, globals), grew))"
| "mark_const m st (IR_CONST_AGG _ _ items) = foldl (mark_const m) st items"
| "mark_const m st _ = st"

definition mark_reloc :: "ir_module \<Rightarrow> marks \<times> bool \<Rightarrow> ir_reloc \<Rightarrow> marks \<times> bool" where
  "mark_reloc m st r =
     (case st of ((live, globals), grew) \<Rightarrow>
        let n = r_global r
        in if r_fn r
           then (if \<not> live ! n then (mark_function_all m (live, globals) n, True) else st)
           else ((live, globals[n := True]), grew \<or> \<not> globals ! n))"

definition mark_global :: "ir_module \<Rightarrow> marks \<times> bool \<Rightarrow> nat \<Rightarrow> marks \<times> bool" where
  "mark_global m st i =
     (let g = m_globals m ! i
      in if \<not> snd (fst st) ! i then st
         else
           let st = foldl (mark_reloc m) st (g_relocs g)
           in (case g_value g of None \<Rightarrow> st | Some c \<Rightarrow> mark_const m st c))"

text \<open>The loop \<open>while (grew)\<close>.\<close>

partial_function (option) mark_globals :: "ir_module \<Rightarrow> marks \<Rightarrow> marks option" where
  "mark_globals m st =
     (case foldl (mark_global m) (st, False) [0..<length (m_globals m)] of
        (st', grew) \<Rightarrow> if grew then mark_globals m st' else Some st')"

declare mark_globals.simps [code]

definition has_main :: "ir_module \<Rightarrow> string \<Rightarrow> bool \<Rightarrow> bool" where
  "has_main m entry every \<longleftrightarrow>
     list_ex (\<lambda>f. \<not> every \<and> \<not> f_is_extern f \<and> f_module f = Some entry \<and> f_name f = ''main'')
       (m_functions m)"

definition is_entry :: "ir_module \<Rightarrow> string \<Rightarrow> bool \<Rightarrow> ir_function \<Rightarrow> bool" where
  "is_entry m entry every f \<longleftrightarrow>
     \<not> f_is_extern f \<and>
     (f_exported f \<or> (f_module f = Some entry \<and> (\<not> has_main m entry every \<or> f_name f = ''main'')))"

definition entry_marks :: "ir_module \<Rightarrow> string \<Rightarrow> bool \<Rightarrow> marks" where
  "entry_marks m entry every =
     (case foldl (\<lambda>st i. if is_entry m entry every (m_functions m ! i) then mark_function_all m st i else st)
             (replicate (length (m_functions m)) False, replicate (length (m_globals m)) False)
             [0..<length (m_functions m)] of
        (live, globals) \<Rightarrow>
          (live, map (\<lambda>(mark, g). mark \<or> g_exported g) (zip globals (m_globals m))))"

fun remap_const :: "(nat \<Rightarrow> nat) \<Rightarrow> (nat \<Rightarrow> nat) \<Rightarrow> ir_const \<Rightarrow> ir_const" where
  "remap_const g fm (IR_CONST_ADDR s n) = IR_CONST_ADDR s (g n)"
| "remap_const g fm (IR_CONST_FUNC s n) = IR_CONST_FUNC s (fm n)"
| "remap_const g fm (IR_CONST_AGG s t items) = IR_CONST_AGG s t (map (remap_const g fm) items)"
| "remap_const g fm c = c"

definition remap_reloc :: "(nat \<Rightarrow> nat) \<Rightarrow> (nat \<Rightarrow> nat) \<Rightarrow> ir_reloc \<Rightarrow> ir_reloc" where
  "remap_reloc g fm r = r\<lparr>r_global := (if r_fn r then fm (r_global r) else g (r_global r))\<rparr>"

definition remap_global :: "(nat \<Rightarrow> nat) \<Rightarrow> (nat \<Rightarrow> nat) \<Rightarrow> ir_global \<Rightarrow> ir_global" where
  "remap_global g fm gl =
     gl\<lparr>g_relocs := map (remap_reloc g fm) (g_relocs gl),
        g_value := map_option (remap_const g fm) (g_value gl)\<rparr>"

definition remap_reference :: "(nat \<Rightarrow> nat) \<Rightarrow> (nat \<Rightarrow> nat) \<Rightarrow> ir_operand \<Rightarrow> ir_operand" where
  "remap_reference g fm x =
     (case x of IR_FUNC t n \<Rightarrow> IR_FUNC t (fm n) | IR_GLOBAL t n \<Rightarrow> IR_GLOBAL t (g n) | _ \<Rightarrow> x)"

definition remove_marked :: "ir_module \<Rightarrow> marks \<Rightarrow> ir_module" where
  "remove_marked m st =
     (case st of (live, globals) \<Rightarrow>
        let fm = new_index live; g = new_index globals;
            fs = keep_marked live (m_functions m);
            gs = keep_marked globals (m_globals m);
            fs = map (\<lambda>(n, f). f\<lparr>f_index := n\<rparr>) (zip [0..<length fs] fs);
            gs = map (\<lambda>(n, gl). gl\<lparr>g_index := n\<rparr>) (zip [0..<length gs] gs)
        in m\<lparr>m_functions := map (map_insts (map_operands (remap_reference g fm))) fs,
             m_globals := map (remap_global g fm) gs\<rparr>)"

definition remove_unused_functions :: "ir_module \<Rightarrow> string \<Rightarrow> bool \<Rightarrow> ir_module option" where
  "remove_unused_functions m entry every =
     map_option (remove_marked m) (mark_globals m (entry_marks m entry every))"

section \<open>The entry points\<close>

text \<open>One function after the other, \<open>None\<close> when the passes over one of them do not end.\<close>

fun map_all :: "('a \<Rightarrow> 'b option) \<Rightarrow> 'a list \<Rightarrow> 'b list option" where
  "map_all g [] = Some []"
| "map_all g (x # xs) =
     (case g x of None \<Rightarrow> None | Some y \<Rightarrow> map_option (\<lambda>ys. y # ys) (map_all g xs))"

definition ir_optimize :: "c_float \<Rightarrow> ir_module \<Rightarrow> string \<Rightarrow> ir_module option" where
  "ir_optimize F m entry =
     Option.bind
       (map_all (\<lambda>f. if f_is_extern f then Some f else ir_optimize_function F f) (m_functions m))
       (\<lambda>fs. remove_unused_functions (m\<lparr>m_functions := fs\<rparr>) entry False)"

definition drop_body :: "ir_function \<Rightarrow> ir_function" where
  "drop_body f =
     f\<lparr>f_blocks := [], f_temps := [], f_params := map (\<lambda>p. p\<lparr>p_temp := None\<rparr>) (f_params f),
       f_is_extern := True\<rparr>"

definition ir_optimize_module :: "c_float \<Rightarrow> ir_module \<Rightarrow> string \<Rightarrow> ir_module option" where
  "ir_optimize_module F m module =
     Option.bind
       (map_all (\<lambda>f. if f_is_extern f then Some f
                     else if f_module f \<noteq> Some module then Some (drop_body f)
                     else ir_optimize_function F f) (m_functions m))
       (\<lambda>fs. remove_unused_functions (m\<lparr>m_functions := fs\<rparr>) module True)"

definition drop_assert :: "ir_function \<Rightarrow> ir_block \<Rightarrow> ir_block" where
  "drop_assert f b =
     (if b_insts b = [] then b
      else
        let l = last (b_insts b)
        in if i_op l \<noteq> IR_BRANCH \<or> \<not> b_assert_fail (f_blocks f ! as_index (i_c l)) then b
           else b\<lparr>b_insts := butlast (b_insts b) @
                    [l\<lparr>i_op := IR_JUMP, i_a := i_b l, i_b := IR_NONE, i_c := IR_NONE\<rparr>]\<rparr>)"

definition ir_drop_asserts :: "ir_module \<Rightarrow> ir_module" where
  "ir_drop_asserts m = m\<lparr>m_functions := map (\<lambda>f. map_blocks (drop_assert f) f) (m_functions m)\<rparr>"

end
