(* ===== verification/IrPrint.thy ===== *)
theory IrPrint
  imports Ir
begin

text \<open>
  \<open>src/ir_print.c\<close>: the text form of the IR, and the names of types and operations that the
  verifier puts in its messages. A printer of the source appends to the \<open>struct text\<close> it is given.
  Here it returns what it appends, and \<open>ir_print\<close> appends the whole.

  The conversions of \<open>printf\<close> that the source uses are written out: \<open>%d\<close>, \<open>%u\<close>, \<open>%zu\<close> and \<open>%02x\<close>. The
  text of a double, \<open>%.17g\<close>, is the parameter \<open>G\<close>. A name that is NULL, which no printer is given
  by a module that lowering builds, prints as the C library prints it.
\<close>

section \<open>Conversions of printf\<close>

fun digit_char :: "nat \<Rightarrow> char" where
  "digit_char n = char_of (if n < 10 then 48 + n else 87 + n)"

fun print_nat :: "nat \<Rightarrow> string" where
  "print_nat n = (if n < 10 then [digit_char n] else print_nat (n div 10) @ [digit_char (n mod 10)])"

declare print_nat.simps [simp del] digit_char.simps [simp del]

definition print_int :: "int \<Rightarrow> string" where
  "print_int i = (if i < 0 then CHR ''-'' # print_nat (nat (- i)) else print_nat (nat i))"

definition print_hex2 :: "byte \<Rightarrow> string" where
  "print_hex2 b = [digit_char (unat b div 16), digit_char (unat b mod 16)]"

definition print_name :: "string option \<Rightarrow> string" where
  "print_name s = (case s of None \<Rightarrow> ''(null)'' | Some s \<Rightarrow> s)"

section \<open>Names\<close>

definition ir_type_name :: "ir_type \<Rightarrow> string" where
  "ir_type_name t =
     (case t of IR_VOID \<Rightarrow> ''void'' | IR_I8 \<Rightarrow> ''i8'' | IR_I16 \<Rightarrow> ''i16'' | IR_I32 \<Rightarrow> ''i32''
      | IR_I64 \<Rightarrow> ''i64'' | IR_F32 \<Rightarrow> ''f32'' | IR_F64 \<Rightarrow> ''f64'' | IR_PTR \<Rightarrow> ''ptr''
      | IR_AGG \<Rightarrow> ''agg'' | IR_CLONG \<Rightarrow> ''clong'' | IR_CWCHAR \<Rightarrow> ''cwchar'')"

definition ir_op_name :: "ir_op \<Rightarrow> string" where
  "ir_op_name op =
     (case op of
        IR_ADD \<Rightarrow> ''add'' | IR_SUB \<Rightarrow> ''sub'' | IR_MUL \<Rightarrow> ''mul''
      | IR_SDIV \<Rightarrow> ''sdiv'' | IR_UDIV \<Rightarrow> ''udiv'' | IR_SREM \<Rightarrow> ''srem''
      | IR_UREM \<Rightarrow> ''urem'' | IR_AND \<Rightarrow> ''and'' | IR_OR \<Rightarrow> ''or''
      | IR_XOR \<Rightarrow> ''xor'' | IR_SHL \<Rightarrow> ''shl'' | IR_SHR_S \<Rightarrow> ''sshr''
      | IR_SHR_U \<Rightarrow> ''ushr'' | IR_FADD \<Rightarrow> ''fadd'' | IR_FSUB \<Rightarrow> ''fsub''
      | IR_FMUL \<Rightarrow> ''fmul'' | IR_FDIV \<Rightarrow> ''fdiv'' | IR_NEG \<Rightarrow> ''neg''
      | IR_NOT \<Rightarrow> ''not'' | IR_FNEG \<Rightarrow> ''fneg'' | IR_COPY \<Rightarrow> ''copy''
      | IR_EQ \<Rightarrow> ''eq'' | IR_NE \<Rightarrow> ''ne'' | IR_SLT \<Rightarrow> ''slt'' | IR_SLE \<Rightarrow> ''sle''
      | IR_SGT \<Rightarrow> ''sgt'' | IR_SGE \<Rightarrow> ''sge'' | IR_ULT \<Rightarrow> ''ult''
      | IR_ULE \<Rightarrow> ''ule'' | IR_UGT \<Rightarrow> ''ugt'' | IR_UGE \<Rightarrow> ''uge''
      | IR_FEQ \<Rightarrow> ''feq'' | IR_FNE \<Rightarrow> ''fne'' | IR_FLT \<Rightarrow> ''flt''
      | IR_FLE \<Rightarrow> ''fle'' | IR_FGT \<Rightarrow> ''fgt'' | IR_FGE \<Rightarrow> ''fge''
      | IR_TRUNC \<Rightarrow> ''trunc'' | IR_SEXT \<Rightarrow> ''sext'' | IR_ZEXT \<Rightarrow> ''zext''
      | IR_SITOF \<Rightarrow> ''sitof'' | IR_UITOF \<Rightarrow> ''uitof'' | IR_FTOSI \<Rightarrow> ''ftosi''
      | IR_FTOUI \<Rightarrow> ''ftoui'' | IR_FEXT \<Rightarrow> ''fext'' | IR_FTRUNC \<Rightarrow> ''ftrunc''
      | IR_SLOT \<Rightarrow> ''slot'' | IR_LOAD \<Rightarrow> ''load'' | IR_STORE \<Rightarrow> ''store''
      | IR_PTRADD \<Rightarrow> ''ptradd'' | IR_MEMCOPY \<Rightarrow> ''memcopy'' | IR_ADDR \<Rightarrow> ''addr''
      | IR_BITLOAD \<Rightarrow> ''bitload'' | IR_BITSTORE \<Rightarrow> ''bitstore''
      | IR_CALL \<Rightarrow> ''call'' | IR_JUMP \<Rightarrow> ''jump'' | IR_BRANCH \<Rightarrow> ''branch''
      | IR_RET \<Rightarrow> ''ret'')"

section \<open>Values\<close>

definition print_symbol :: "string option \<Rightarrow> string \<Rightarrow> string" where
  "print_symbol module name =
     (case module of Some md \<Rightarrow> ''@'' @ md @ ''.'' @ name | None \<Rightarrow> ''@'' @ name)"

definition ir_vtype_print :: "ir_module \<Rightarrow> ir_vtype \<Rightarrow> string" where
  "ir_vtype_print m v =
     (if vt_type v = IR_AGG then agg_name (m_aggs m ! vt_agg v) else ir_type_name (vt_type v))"

definition print_integer :: "ir_type \<Rightarrow> u64 \<Rightarrow> string" where
  "print_integer t v =
     (if t \<in> {IR_I64, IR_PTR, IR_CLONG, IR_CWCHAR} then print_int (sint v)
      else if t = IR_I32 then print_int (sint (ucast v :: 32 word))
      else if t = IR_I16 then print_int (sint (ucast v :: 16 word))
      else print_int (sint (ucast v :: 8 word)))"

text \<open>
  A symbolic operation prints its operands, which stand before it in the table. The fuel bounds
  the depth, and the length of the table is enough of it.
\<close>

fun sym_print :: "nat \<Rightarrow> ir_module \<Rightarrow> nat \<Rightarrow> string" where
  "sym_print 0 m n = []"
| "sym_print (Suc fuel) m n =
     (let s = m_syms m ! n
      in case sy_kind s of
           IR_SYM_INT \<Rightarrow> print_integer (sy_type s) (sy_value s)
         | IR_SYM_SIZE_OF \<Rightarrow> ''size_of '' @ ir_vtype_print m (sy_of s)
         | IR_SYM_OFFSET_OF \<Rightarrow>
             let t = m_aggs m ! vt_agg (sy_of s)
             in ''offset_of '' @ agg_name t @ ''.'' @ print_name (fd_name (agg_fields t ! sy_field s))
         | IR_SYM_OP \<Rightarrow>
             ir_op_name (sy_op s) @ '' '' @ ir_type_name (sy_type s) @ ''('' @
             sym_print fuel m (sy_a s) @
             (if sy_b s \<noteq> IR_NO_AGG then '', '' @ sym_print fuel m (sy_b s) else []) @ '')'')"

definition ir_sym_print :: "ir_module \<Rightarrow> nat \<Rightarrow> string" where
  "ir_sym_print m n = sym_print (length (m_syms m)) m n"

definition global_symbol :: "ir_module \<Rightarrow> nat \<Rightarrow> string" where
  "global_symbol m n = print_symbol (g_module (m_globals m ! n)) (g_name (m_globals m ! n))"

definition function_symbol :: "ir_module \<Rightarrow> nat \<Rightarrow> string" where
  "function_symbol m n = print_symbol (f_module (m_functions m ! n)) (f_name (m_functions m ! n))"

text \<open>Items after one another: the first after \<open>first\<close>, each other after a comma.\<close>

fun print_items :: "string \<Rightarrow> string list \<Rightarrow> string" where
  "print_items first [] = []"
| "print_items first (s # ss) = first @ s @ concat (map (\<lambda>s. '', '' @ s) ss)"

fun print_constant :: "(double \<Rightarrow> string) \<Rightarrow> ir_module \<Rightarrow> ir_const \<Rightarrow> string" where
  "print_constant G m (IR_CONST_NONE _) = ''-''"
| "print_constant G m (IR_CONST_INT t v) = ir_type_name t @ '' '' @ print_integer t v"
| "print_constant G m (IR_CONST_FLOAT t v) = ir_type_name t @ '' '' @ G v"
| "print_constant G m (IR_CONST_SYM _ n) = ir_sym_print m n"
| "print_constant G m (IR_CONST_ADDR _ n) = global_symbol m n"
| "print_constant G m (IR_CONST_FUNC _ n) = function_symbol m n"
| "print_constant G m (IR_CONST_AGG _ t items) =
     ir_vtype_print m t @ '' {'' @ print_items '' '' (map (print_constant G m) items) @
     (if items = [] then ''}'' else '' }'')"

definition print_operand :: "(double \<Rightarrow> string) \<Rightarrow> ir_module \<Rightarrow> ir_operand \<Rightarrow> string" where
  "print_operand G m x =
     (case x of
        IR_NONE \<Rightarrow> []
      | IR_TEMP _ n \<Rightarrow> ''%'' @ print_nat n
      | IR_INT t v \<Rightarrow> print_integer t v
      | IR_SYM _ n \<Rightarrow> ir_sym_print m n
      | IR_FLOAT _ v \<Rightarrow> G v
      | IR_GLOBAL _ n \<Rightarrow> global_symbol m n
      | IR_FUNC _ n \<Rightarrow> function_symbol m n
      | IR_BLOCK _ n \<Rightarrow> ''b'' @ print_nat n)"

section \<open>Functions\<close>

definition param_type :: "ir_module \<Rightarrow> ir_param \<Rightarrow> string" where
  "param_type m p =
     (if p_type p = IR_AGG then ''agg '' @ agg_name (m_aggs m ! p_agg p) else ir_type_name (p_type p)) @
     (if p_ext p \<noteq> IR_EXT_NONE then if p_ext p = IR_EXT_SIGN then '' signext'' else '' zeroext'' else [])"

text \<open>The number of an absent temporary is the largest \<open>uint32_t\<close>.\<close>

definition temp_number :: "nat option \<Rightarrow> nat" where
  "temp_number t = (case t of None \<Rightarrow> 2 ^ 32 - 1 | Some n \<Rightarrow> n)"

definition signature :: "ir_module \<Rightarrow> ir_function \<Rightarrow> string" where
  "signature m f =
     (if f_exported f then ''export '' else []) @ (if f_is_extern f then ''extern fn '' else ''fn '') @
     (case f_module f of Some md \<Rightarrow> md @ ''.'' | None \<Rightarrow> []) @ f_name f @ ''('' @
     print_items []
       (map (\<lambda>p. (if f_is_extern f then [] else ''%'' @ print_nat (temp_number (p_temp p)) @ '': '') @ param_type m p)
         (f_params f)) @
     (if f_variadic f then if f_params f \<noteq> [] then '', ...'' else ''...'' else []) @ '')'' @
     (if f_result f = IR_AGG then '' -> agg '' @ agg_name (m_aggs m ! f_result_agg f)
      else if f_result f \<noteq> IR_VOID then '' -> '' @ ir_type_name (f_result f) else [])"

definition instruction :: "(double \<Rightarrow> string) \<Rightarrow> ir_module \<Rightarrow> ir_inst \<Rightarrow> string" where
  "instruction G m inst =
     (let opd = print_operand G m; op = i_op inst; ty = '' '' @ ir_type_name (i_type inst) @ '' ''
      in ''    '' @ (case i_result inst of Some r \<Rightarrow> ''%'' @ print_nat r @ '' = '' | None \<Rightarrow> []) @
         ir_op_name op @
         (if op = IR_SLOT then '' '' @ ir_vtype_print m (i_of inst)
          else if op = IR_PTRADD \<or> op = IR_BRANCH then
            '' '' @ opd (i_a inst) @ '', '' @ opd (i_b inst) @
            (if op = IR_BRANCH then '', '' @ opd (i_c inst) else [])
          else if op = IR_MEMCOPY then
            '' '' @ opd (i_a inst) @ '', '' @ opd (i_b inst) @ '', '' @ ir_vtype_print m (i_of inst)
          else if op = IR_ADDR \<or> op = IR_JUMP then '' '' @ opd (i_a inst)
          else if op = IR_BITLOAD \<or> op = IR_BITSTORE then
            let t = m_aggs m ! vt_agg (i_of inst)
            in ty @ opd (i_a inst) @ (if op = IR_BITSTORE then '', '' @ opd (i_b inst) else []) @
               '', '' @ agg_name t @ ''.'' @ print_name (fd_name (agg_fields t ! i_field inst))
          else if op = IR_CALL then
            ty @ opd (i_a inst) @
            (case i_b inst of IR_FUNC _ _ \<Rightarrow> '' via '' @ opd (i_b inst) | _ \<Rightarrow> []) @
            ''('' @ print_items [] (map opd (i_args inst)) @ '')''
          else if op = IR_RET then (if i_type inst \<noteq> IR_VOID then ty @ opd (i_a inst) else [])
          else ty @ opd (i_a inst) @ (if i_b inst \<noteq> IR_NONE then '', '' @ opd (i_b inst) else [])) @
         [CHR 0x0A])"

section \<open>Modules\<close>

definition print_field :: "ir_module \<Rightarrow> ir_field \<Rightarrow> string" where
  "print_field m fd =
     '' '' @ print_name (fd_name fd) @ '': '' @ ir_vtype_print m (fd_type fd) @
     (if fd_bits fd \<noteq> 0
      then '' : '' @ print_nat (fd_bits fd) @ '' '' @ (if fd_ext fd = IR_EXT_SIGN then ''signext'' else ''zeroext'')
      else if fd_name fd = Some ''_'' then '' : 0'' else [])"

text \<open>Here the separator is a comma alone: each field starts with its own blank.\<close>

fun print_fields :: "ir_module \<Rightarrow> ir_field list \<Rightarrow> string" where
  "print_fields m [] = []"
| "print_fields m (fd # fds) = print_field m fd @ concat (map (\<lambda>fd. '','' @ print_field m fd) fds)"

definition aggtype :: "ir_module \<Rightarrow> ir_aggtype \<Rightarrow> string" where
  "aggtype m t =
     ''type '' @ agg_name t @ '' = '' @
     (if agg_kind t = IR_AGG_ARRAY
      then ''array '' @ ir_sym_print m (agg_length t) @ '' of '' @
           ir_vtype_print m (fd_type (agg_fields t ! 0)) @ [CHR 0x0A]
      else (if agg_packed t then ''packed '' else []) @
           (if agg_kind t = IR_AGG_UNION then ''union'' else ''struct'') @
           (if agg_align t \<noteq> 0 then '' align('' @ print_nat (unat (agg_align t)) @ '')'' else []) @
           '' {'' @ print_fields m (agg_fields t) @ '' }'' @ [CHR 0x0A])"

text \<open>
  The loop over the bytes goes to \<open>size\<close>, which is the number of bytes of a global that holds them.
  The symbol of a relocation is looked up among the globals, also where \<open>fn\<close> says that the index
  is a function's.
\<close>

definition print_reloc :: "ir_module \<Rightarrow> ir_reloc \<Rightarrow> string" where
  "print_reloc m r = '' reloc '' @ print_nat (unat (r_offset r)) @ '' '' @ global_symbol m (r_global r)"

definition print_global :: "(double \<Rightarrow> string) \<Rightarrow> ir_module \<Rightarrow> ir_global \<Rightarrow> string" where
  "print_global G m g =
     ''global '' @ print_name (g_module g) @ ''.'' @ g_name g @
     (case g_value g of
        Some c \<Rightarrow> '' '' @ print_constant G m c @ [CHR 0x0A]
      | None \<Rightarrow>
          '' size '' @ print_nat (unat (g_size g)) @ '' align '' @ print_nat (unat (g_align g)) @ '' bytes'' @
          concat (map (\<lambda>b. '' '' @ print_hex2 b) (take (unat (g_size g)) (g_bytes g))) @
          concat (map (print_reloc m) (g_relocs g)) @ [CHR 0x0A])"

definition print_block :: "(double \<Rightarrow> string) \<Rightarrow> ir_module \<Rightarrow> nat \<times> ir_block \<Rightarrow> string" where
  "print_block G m b =
     ''b'' @ print_nat (fst b) @ '':'' @ [CHR 0x0A] @ concat (map (instruction G m) (b_insts (snd b)))"

definition print_function :: "(double \<Rightarrow> string) \<Rightarrow> ir_module \<Rightarrow> ir_function \<Rightarrow> string" where
  "print_function G m f =
     signature m f @ '' {'' @ [CHR 0x0A] @
     concat (map (print_block G m) (zip [0..<length (f_blocks f)] (f_blocks f))) @ ''}'' @ [CHR 0x0A]"

definition print_module :: "(double \<Rightarrow> string) \<Rightarrow> ir_module \<Rightarrow> string" where
  "print_module G m =
     concat (map (aggtype m) (m_aggs m)) @
     concat (map (\<lambda>f. signature m f @ [CHR 0x0A]) (filter f_is_extern (m_functions m))) @
     concat (map (print_global G m) (m_globals m)) @
     concat (map (print_function G m) (filter (\<lambda>f. \<not> f_is_extern f) (m_functions m)))"

definition ir_print :: "(double \<Rightarrow> string) \<Rightarrow> text_buf \<Rightarrow> ir_module \<Rightarrow> text_buf" where
  "ir_print G t m = text_append_bytes t (bytes_of (print_module G m))"

end
