(* ===== verification/IrVerify.thy ===== *)
theory IrVerify
  imports IrPrint
begin

text \<open>
  \<open>src/ir_verify.c\<close>: what every later stage relies on. The verifier is a record with the module, the
  function and the block it is at, the text of the errors and the flag \<open>ok\<close>. A check returns the
  verifier changed, with its result where it has one.

  The sets of temporaries are arrays of 64-bit words, as in the source. The data flow loop runs
  until nothing changes, so it is a \<^theory_text>\<open>partial_function\<close>.
\<close>

section \<open>Errors\<close>

record verifier =
  v_m :: ir_module
  v_f :: ir_function
  v_b :: ir_block
  v_errors :: text_buf
  v_ok :: bool

text \<open>The message goes through a buffer of 160 bytes with its NUL.\<close>

definition verify_fail :: "verifier \<Rightarrow> string \<Rightarrow> verifier" where
  "verify_fail v message =
     v\<lparr>v_errors := text_append_bytes (v_errors v)
         (bytes_of (print_name (f_module (v_f v)) @ ''.'' @ f_name (v_f v) @ '' b'' @
            print_nat (b_index (v_b v)) @ '': '' @ take 159 message @ [CHR 0x0A])),
       v_ok := False\<rparr>"

definition is_terminator :: "ir_op \<Rightarrow> bool" where
  "is_terminator op \<longleftrightarrow> op = IR_JUMP \<or> op = IR_BRANCH \<or> op = IR_RET"

section \<open>Operands\<close>

definition operand_ok :: "verifier \<Rightarrow> ir_inst \<Rightarrow> ir_operand \<Rightarrow> verifier \<times> bool" where
  "operand_ok v inst x =
     (case x of
        IR_TEMP _ n \<Rightarrow>
          if n \<ge> length (f_temps (v_f v))
          then (verify_fail v (ir_op_name (i_op inst) @ '' uses %'' @ print_nat n @ '', which does not exist''), False)
          else (v, True)
      | IR_BLOCK _ n \<Rightarrow>
          if n \<ge> length (f_blocks (v_f v))
          then (verify_fail v (ir_op_name (i_op inst) @ '' names b'' @ print_nat n @ '', which does not exist''), False)
          else (v, True)
      | IR_FUNC _ n \<Rightarrow> (v, n < length (m_functions (v_m v)))
      | IR_GLOBAL _ n \<Rightarrow> (v, n < length (m_globals (v_m v)))
      | IR_SYM _ n \<Rightarrow>
          if n \<ge> length (m_syms (v_m v))
          then (verify_fail v (ir_op_name (i_op inst) @ '' uses a symbolic value that does not exist''), False)
          else (v, True)
      | _ \<Rightarrow> (v, True))"

definition vtype_ok :: "verifier \<Rightarrow> ir_inst \<Rightarrow> verifier" where
  "vtype_ok v inst =
     (if vt_type (i_of inst) = IR_VOID \<or>
         (vt_type (i_of inst) = IR_AGG \<and> vt_agg (i_of inst) \<ge> length (m_aggs (v_m v)))
      then verify_fail v (ir_op_name (i_op inst) @ '' names a type that does not exist'')
      else v)"

definition type_of :: "ir_function \<Rightarrow> ir_operand \<Rightarrow> ir_type" where
  "type_of f x = (case x of IR_TEMP _ n \<Rightarrow> f_temps f ! n | _ \<Rightarrow> op_type x)"

definition same_type :: "verifier \<Rightarrow> ir_inst \<Rightarrow> ir_operand \<Rightarrow> ir_type \<Rightarrow> verifier" where
  "same_type v inst x expected =
     (if x = IR_NONE then v
      else
        (case operand_ok v inst x of
           (v, good) \<Rightarrow>
             if good \<and> type_of (v_f v) x \<noteq> expected
             then verify_fail v (ir_op_name (i_op inst) @ '' '' @ ir_type_name expected @
                    '' has an operand of type '' @ ir_type_name (type_of (v_f v) x))
             else v))"

section \<open>Instructions\<close>

definition binary_ops :: "ir_op list" where
  "binary_ops = [IR_ADD, IR_SUB, IR_MUL, IR_SDIV, IR_UDIV, IR_SREM, IR_UREM, IR_AND, IR_OR, IR_XOR,
     IR_SHL, IR_SHR_S, IR_SHR_U, IR_FADD, IR_FSUB, IR_FMUL, IR_FDIV]"

definition unary_ops :: "ir_op list" where
  "unary_ops = [IR_NEG, IR_NOT, IR_FNEG, IR_COPY]"

definition compare_ops :: "ir_op list" where
  "compare_ops = [IR_EQ, IR_NE, IR_SLT, IR_SLE, IR_SGT, IR_SGE, IR_ULT, IR_ULE, IR_UGT, IR_UGE,
     IR_FEQ, IR_FNE, IR_FLT, IR_FLE, IR_FGT, IR_FGE]"

definition check_compare :: "verifier \<Rightarrow> ir_inst \<Rightarrow> verifier" where
  "check_compare v inst =
     (let v =
        (case operand_ok v inst (i_a inst) of
           (v, False) \<Rightarrow> v
         | (v, True) \<Rightarrow>
             (case operand_ok v inst (i_b inst) of
                (v, good) \<Rightarrow>
                  if good \<and> type_of (v_f v) (i_a inst) \<noteq> type_of (v_f v) (i_b inst)
                  then verify_fail v (ir_op_name (i_op inst) @ '' compares '' @
                         ir_type_name (type_of (v_f v) (i_a inst)) @ '' with '' @
                         ir_type_name (type_of (v_f v) (i_b inst)))
                  else v))
      in if i_type inst \<noteq> IR_I8
         then verify_fail v (ir_op_name (i_op inst) @ '' gives i8, not '' @ ir_type_name (i_type inst))
         else v)"

definition is_bitfield :: "ir_module \<Rightarrow> ir_inst \<Rightarrow> bool" where
  "is_bitfield m inst \<longleftrightarrow>
     vt_type (i_of inst) = IR_AGG \<and> vt_agg (i_of inst) < length (m_aggs m) \<and>
     i_field inst < length (agg_fields (m_aggs m ! vt_agg (i_of inst))) \<and>
     fd_bits (agg_fields (m_aggs m ! vt_agg (i_of inst)) ! i_field inst) \<noteq> 0"

definition check_bits :: "verifier \<Rightarrow> ir_inst \<Rightarrow> verifier" where
  "check_bits v inst =
     (let v = same_type v inst (if i_op inst = IR_BITLOAD then i_a inst else i_b inst) IR_PTR;
          v = (if i_op inst = IR_BITSTORE then same_type v inst (i_a inst) (i_type inst) else v)
      in if is_bitfield (v_m v) inst then v
         else verify_fail v (ir_op_name (i_op inst) @ '' names a field that is not a bitfield''))"

text \<open>
  A direct call names its callee in \<open>a\<close>, a call through a pointer its signature in \<open>b\<close>.
\<close>

definition is_func :: "ir_operand \<Rightarrow> bool" where
  "is_func x \<longleftrightarrow> (case x of IR_FUNC _ _ \<Rightarrow> True | _ \<Rightarrow> False)"

definition named_callee :: "ir_inst \<Rightarrow> ir_operand" where
  "named_callee inst = (if is_func (i_b inst) then i_b inst else i_a inst)"

definition arity_ok :: "ir_function \<Rightarrow> ir_inst \<Rightarrow> bool" where
  "arity_ok callee inst \<longleftrightarrow>
     (if f_variadic callee then length (i_args inst) \<ge> length (f_params callee)
      else length (i_args inst) = length (f_params callee))"

definition check_call :: "verifier \<Rightarrow> ir_inst \<Rightarrow> verifier" where
  "check_call v inst =
     (let named = named_callee inst;
          v = (if \<not> is_func (i_a inst) then same_type v inst (i_a inst) IR_PTR else v)
      in if is_func named then
           (case operand_ok v inst named of
              (v, good) \<Rightarrow>
                let callee = m_functions (v_m v) ! as_index named
                in if good \<and> \<not> arity_ok callee inst
                   then verify_fail v (''call passes '' @ print_nat (length (i_args inst)) @ '' arguments to '' @
                          f_name callee @ '', which takes '' @ print_nat (length (f_params callee)))
                   else v)
         else v)"

definition check_ret :: "verifier \<Rightarrow> ir_inst \<Rightarrow> verifier" where
  "check_ret v inst =
     (let result = (if f_result (v_f v) = IR_AGG then IR_PTR else f_result (v_f v))
      in if i_type inst \<noteq> result
         then verify_fail v (''ret '' @ ir_type_name (i_type inst) @ '' in a function that returns '' @
                ir_type_name result)
         else if i_type inst \<noteq> IR_VOID then same_type v inst (i_a inst) (i_type inst)
         else v)"

definition check_inst :: "verifier \<Rightarrow> ir_inst \<Rightarrow> verifier" where
  "check_inst v inst =
     (let op = i_op inst
      in if op \<in> set binary_ops then
           same_type (same_type v inst (i_a inst) (i_type inst)) inst (i_b inst) (i_type inst)
         else if op \<in> set unary_ops then same_type v inst (i_a inst) (i_type inst)
         else if op \<in> set compare_ops then check_compare v inst
         else if op = IR_LOAD then same_type v inst (i_a inst) IR_PTR
         else if op = IR_STORE then
           same_type (same_type v inst (i_a inst) (i_type inst)) inst (i_b inst) IR_PTR
         else if op = IR_PTRADD then
           same_type (same_type v inst (i_a inst) IR_PTR) inst (i_b inst) IR_I64
         else if op = IR_MEMCOPY then
           vtype_ok (same_type (same_type v inst (i_a inst) IR_PTR) inst (i_b inst) IR_PTR) inst
         else if op = IR_SLOT then vtype_ok v inst
         else if op = IR_BITLOAD \<or> op = IR_BITSTORE then check_bits v inst
         else if op = IR_CALL then check_call v inst
         else if op = IR_JUMP then fst (operand_ok v inst (i_a inst))
         else if op = IR_BRANCH then
           fst (operand_ok (fst (operand_ok (same_type v inst (i_a inst) IR_I8) inst (i_b inst))) inst (i_c inst))
         else if op = IR_RET then check_ret v inst
         else fst (operand_ok v inst (i_a inst)))"

section \<open>Definitions before uses\<close>

type_synonym temps = "u64 list"

definition is_set :: "temps \<Rightarrow> nat \<Rightarrow> bool" where
  "is_set s n \<longleftrightarrow> bit (s ! (n div 64)) (n mod 64)"

definition set_bit_in :: "temps \<Rightarrow> nat \<Rightarrow> temps" where
  "set_bit_in s n = s[n div 64 := s ! (n div 64) OR push_bit (n mod 64) 1]"

definition check_use :: "temps \<Rightarrow> ir_inst \<Rightarrow> verifier \<Rightarrow> ir_operand \<Rightarrow> verifier" where
  "check_use defined inst v x =
     (case x of
        IR_TEMP _ n \<Rightarrow>
          if n < length (f_temps (v_f v)) \<and> \<not> is_set defined n
          then verify_fail v (ir_op_name (i_op inst) @ '' uses %'' @ print_nat n @
                 '' before a definition on some path'')
          else v
      | _ \<Rightarrow> v)"

text \<open>Whether the block jumps to block \<open>b\<close>, as the last instruction says.\<close>

definition jumps_to :: "ir_block \<Rightarrow> nat \<Rightarrow> bool" where
  "jumps_to p b \<longleftrightarrow>
     b_insts p \<noteq> [] \<and>
     (let l = last (b_insts p)
      in (i_op l = IR_JUMP \<and> as_index (i_a l) = b) \<or>
         (i_op l = IR_BRANCH \<and> (as_index (i_b l) = b \<or> as_index (i_c l) = b)))"

definition set_param :: "temps \<Rightarrow> ir_param \<Rightarrow> temps" where
  "set_param s p = (case p_temp p of None \<Rightarrow> s | Some n \<Rightarrow> set_bit_in s n)"

text \<open>\<open>out\<close> is the array of the source cut into one row per block.\<close>

definition meet_row :: "ir_block \<Rightarrow> nat \<Rightarrow> temps \<Rightarrow> temps \<Rightarrow> temps" where
  "meet_row p b s row = (if jumps_to p b then map2 (AND) s row else s)"

definition entry_set :: "ir_function \<Rightarrow> nat \<Rightarrow> temps list \<Rightarrow> nat \<Rightarrow> temps" where
  "entry_set f b rows words =
     (let s = replicate words (if b = 0 then 0 else - 1);
          s = (if b = 0 then foldl set_param s (f_params f) else s)
      in foldl (\<lambda>s (p, row). meet_row p b s row) s (zip (f_blocks f) rows))"

definition set_result :: "ir_function \<Rightarrow> temps \<Rightarrow> ir_inst \<Rightarrow> temps" where
  "set_result f s inst =
     (case i_result inst of
        None \<Rightarrow> s
      | Some r \<Rightarrow> if r < length (f_temps f) then set_bit_in s r else s)"

definition exit_set :: "ir_function \<Rightarrow> nat \<Rightarrow> temps list \<Rightarrow> nat \<Rightarrow> temps" where
  "exit_set f b rows words =
     foldl (set_result f) (entry_set f b rows words) (b_insts (f_blocks f ! b))"

definition flow_block :: "ir_function \<Rightarrow> nat \<Rightarrow> temps list \<times> bool \<Rightarrow> nat \<Rightarrow> temps list \<times> bool" where
  "flow_block f words st b =
     (case st of (rows, changed) \<Rightarrow>
        let s = exit_set f b rows words
        in if s \<noteq> rows ! b then (rows[b := s], True) else (rows, changed))"

partial_function (option) flow_loop :: "ir_function \<Rightarrow> nat \<Rightarrow> temps list \<Rightarrow> temps list option" where
  "flow_loop f words rows =
     (case foldl (flow_block f words) (rows, False) [0..<length (f_blocks f)] of
        (rows, changed) \<Rightarrow> if changed then flow_loop f words rows else Some rows)"

declare flow_loop.simps [code]

definition set_words :: "ir_function \<Rightarrow> nat" where
  "set_words f = length (f_temps f) div 64 + 1"

definition flow :: "ir_function \<Rightarrow> temps list option" where
  "flow f = flow_loop f (set_words f) (replicate (length (f_blocks f)) (replicate (set_words f) (- 1)))"

definition check_uses :: "verifier \<times> temps \<Rightarrow> ir_inst \<Rightarrow> verifier \<times> temps" where
  "check_uses st inst =
     (case st of (v, s) \<Rightarrow>
        (foldl (check_use s inst) v (i_a inst # i_b inst # i_c inst # i_args inst), set_result (v_f v) s inst))"

definition check_block_uses :: "temps list \<Rightarrow> verifier \<Rightarrow> nat \<Rightarrow> verifier" where
  "check_block_uses rows v b =
     (let blk = f_blocks (v_f v) ! b
      in fst (foldl check_uses (v\<lparr>v_b := blk\<rparr>, entry_set (v_f v) b rows (set_words (v_f v))) (b_insts blk)))"

definition check_definitions :: "verifier \<Rightarrow> verifier option" where
  "check_definitions v =
     map_option (\<lambda>rows. foldl (check_block_uses rows) v [0..<length (f_blocks (v_f v))]) (flow (v_f v))"

section \<open>The module\<close>

definition verify_inst :: "nat \<Rightarrow> verifier \<Rightarrow> nat \<times> ir_inst \<Rightarrow> verifier" where
  "verify_inst count v p =
     (case p of (k, inst) \<Rightarrow>
        let v = check_inst v inst
        in if is_terminator (i_op inst) \<and> k + 1 < count
           then verify_fail v (ir_op_name (i_op inst) @ '' is not the last instruction'') else v)"

definition verify_block :: "verifier \<Rightarrow> ir_block \<Rightarrow> verifier" where
  "verify_block v b =
     (let insts = b_insts b;
          v = foldl (verify_inst (length insts)) (v\<lparr>v_b := b\<rparr>) (zip [0..<length insts] insts)
      in if insts = [] \<or> \<not> is_terminator (i_op (last insts))
         then verify_fail v ''the block does not end with a terminator'' else v)"

definition verify_function :: "verifier \<Rightarrow> ir_function \<Rightarrow> verifier option" where
  "verify_function v f =
     (let v = v\<lparr>v_f := f\<rparr>
      in if f_is_extern f then Some v
         else
           let v = foldl verify_block v (f_blocks f)
           in if v_ok v then check_definitions v else Some v)"

fun verify_functions :: "verifier \<Rightarrow> ir_function list \<Rightarrow> verifier option" where
  "verify_functions v [] = Some v"
| "verify_functions v (f # fs) = Option.bind (verify_function v f) (\<lambda>v. verify_functions v fs)"

text \<open>The function and the block of the verifier are NULL at first, and no check reads them then.\<close>

definition no_block :: ir_block where
  "no_block = \<lparr>b_index = 0, b_insts = [], b_assert_fail = False, b_loop_depth = 0\<rparr>"

definition no_function :: ir_function where
  "no_function = \<lparr>f_index = 0, f_module = None, f_name = [], f_params = [], f_result = IR_VOID,
     f_result_agg = IR_NO_AGG, f_is_extern = False, f_variadic = False, f_exported = False,
     f_blocks = [], f_temps = []\<rparr>"

definition ir_verify :: "ir_module \<Rightarrow> text_buf \<Rightarrow> (bool \<times> text_buf) option" where
  "ir_verify m errors =
     map_option (\<lambda>v. (v_ok v, v_errors v))
       (verify_functions \<lparr>v_m = m, v_f = no_function, v_b = no_block, v_errors = errors, v_ok = True\<rparr>
         (m_functions m))"

end
