(* ===== verification/IrVerifyProps.thy ===== *)
theory IrVerifyProps
  imports IrVerify
begin

text \<open>
  The data flow of the verifier is exact. A path of the program collects the temporaries it
  defines (\<open>reaches\<close>), and \<open>check_definitions\<close> reports nothing exactly when every path to a use
  passes a definition. The loop ends: the sets start full and only shrink.
\<close>

section \<open>Sets of temporaries\<close>

definition members :: "temps \<Rightarrow> nat set" where
  "members s = {n. n < 64 * length s \<and> is_set s n}"

lemma members_set_bit: "members (set_bit_in s n) = members s \<union> ({n} \<inter> {..<64 * length s})"
proof -
  have "is_set (set_bit_in s n) k \<longleftrightarrow> is_set s k \<or> k = n" if "k < 64 * length s" "n < 64 * length s" for k
  proof -
    have "n div 64 < length s" using that by (simp add: less_mult_imp_div_less mult.commute)
    moreover have "k = n \<longleftrightarrow> k div 64 = n div 64 \<and> k mod 64 = n mod 64" by (metis div_mult_mod_eq)
    ultimately show ?thesis
      by (auto simp: is_set_def set_bit_in_def nth_list_update bit_or_iff bit_push_bit_iff bit_1_iff bit_exp_iff)
  qed
  moreover have "set_bit_in s n = s" if "\<not> n < 64 * length s"
    using that by (auto simp: set_bit_in_def div_less_iff_less_mult mult.commute intro!: list_update_beyond)
  moreover have "length (set_bit_in s n) = length s" by (simp add: set_bit_in_def)
  ultimately show ?thesis by (cases "n < 64 * length s") (auto simp: members_def)
qed

lemma length_set_bit_in [simp]: "length (set_bit_in s n) = length s"
  by (simp add: set_bit_in_def)

lemma members_and:
  assumes "length s = length row"
  shows "members (map2 (AND) s row) = members s \<inter> members row"
proof -
  have "is_set (map2 (AND) s row) n \<longleftrightarrow> is_set s n \<and> is_set row n" if "n < 64 * length s" for n
  proof -
    have "n div 64 < length s" using that by (simp add: less_mult_imp_div_less mult.commute)
    then show ?thesis using assms by (simp add: is_set_def bit_and_iff)
  qed
  with assms show ?thesis by (auto simp: members_def)
qed

lemma members_none: "members (replicate w 0) = {}"
  by (auto simp: members_def is_set_def less_mult_imp_div_less mult.commute)

lemma members_all: "members (replicate w (- 1)) = {..<64 * w}"
  by (auto simp: members_def is_set_def less_mult_imp_div_less mult.commute)

lemma members_eq:
  assumes "length s = length s'" and "members s = members s'"
  shows "s = s'"
proof (rule nth_equalityI)
  fix i assume i: "i < length s"
  show "s ! i = s' ! i"
  proof (rule bit_word_eqI)
    fix k assume "k < LENGTH(64)"
    then have k: "k < 64" by simp
    then have "i * 64 + k < 64 * length s" using i by linarith
    then have "is_set s (i * 64 + k) \<longleftrightarrow> is_set s' (i * 64 + k)"
      using assms unfolding members_def by (metis (mono_tags, lifting) mem_Collect_eq)
    then show "bit (s ! i) k \<longleftrightarrow> bit (s' ! i) k" using k by (simp add: is_set_def)
  qed
qed (rule assms(1))

lemma finite_members [simp]: "finite (members s)"
  by (rule finite_subset [of _ "{..<64 * length s}"]) (auto simp: members_def)

section \<open>One block\<close>

definition results :: "ir_inst list \<Rightarrow> nat set" where
  "results insts = {r. Some r \<in> i_result ` set insts}"

definition param_temps :: "ir_function \<Rightarrow> nat set" where
  "param_temps f = {n. Some n \<in> p_temp ` set (f_params f)}"

lemma results_simps [simp]:
  "results [] = {}"
  "results (inst # insts) = set_option (i_result inst) \<union> results insts"
  "results (xs @ ys) = results xs \<union> results ys"
  by (auto simp: results_def set_eq_iff elem_set eq_commute)

lemma length_set_param [simp]: "length (foldl set_param s ps) = length s"
  by (induction ps arbitrary: s) (simp_all add: set_param_def split: option.split)

lemma members_params:
  "members (foldl set_param s ps) = members s \<union> ({n. Some n \<in> p_temp ` set ps} \<inter> {..<64 * length s})"
proof (induction ps arbitrary: s)
  case (Cons p ps)
  have l: "length (set_param s p) = length s" by (simp add: set_param_def split: option.split)
  have "members (set_param s p) = members s \<union> (set_option (p_temp p) \<inter> {..<64 * length s})"
    by (cases "p_temp p") (simp_all add: set_param_def members_set_bit)
  then show ?case using Cons [of "set_param s p"] l by (auto simp: elem_set eq_commute)
qed simp

lemma length_meet [simp]:
  "(\<And>row. row \<in> snd ` set ps \<Longrightarrow> length row = length s) \<Longrightarrow>
     length (foldl (\<lambda>s (p, row). meet_row p b s row) s ps) = length s"
proof (induction ps arbitrary: s)
  case (Cons a ps)
  then have "length (meet_row (fst a) b s (snd a)) = length s" by (simp add: meet_row_def)
  with Cons show ?case by (simp add: case_prod_beta)
qed simp

lemma members_meet:
  "(\<And>row. row \<in> snd ` set ps \<Longrightarrow> length row = length s) \<Longrightarrow>
     members (foldl (\<lambda>s (p, row). meet_row p b s row) s ps) =
     {n \<in> members s. \<forall>(p, row)\<in>set ps. jumps_to p b \<longrightarrow> n \<in> members row}"
proof (induction ps arbitrary: s)
  case (Cons a ps)
  have "length (meet_row (fst a) b s (snd a)) = length s" using Cons.prems by (simp add: meet_row_def)
  moreover have "members (meet_row (fst a) b s (snd a)) =
      {n \<in> members s. jumps_to (fst a) b \<longrightarrow> n \<in> members (snd a)}"
    using Cons.prems [of "snd a"] by (auto simp: meet_row_def members_and)
  ultimately show ?case
    using Cons.IH [of "meet_row (fst a) b s (snd a)"] Cons.prems by (auto simp: case_prod_beta)
qed simp

definition rows_ok :: "ir_function \<Rightarrow> temps list \<Rightarrow> bool" where
  "rows_ok f rows \<longleftrightarrow>
     length rows = length (f_blocks f) \<and> (\<forall>row\<in>set rows. length row = set_words f)"

definition edge :: "ir_function \<Rightarrow> nat \<Rightarrow> nat \<Rightarrow> bool" where
  "edge f p b \<longleftrightarrow> p < length (f_blocks f) \<and> b < length (f_blocks f) \<and> jumps_to (f_blocks f ! p) b"

definition base_set :: "ir_function \<Rightarrow> nat \<Rightarrow> nat set" where
  "base_set f b = {..<64 * set_words f} \<inter> (if b = 0 then param_temps f else UNIV)"

lemma entry_set_props:
  assumes "rows_ok f rows"
  shows "length (entry_set f b rows (set_words f)) = set_words f"
    and "b < length (f_blocks f) \<Longrightarrow> members (entry_set f b rows (set_words f)) =
      {n \<in> base_set f b. \<forall>p. edge f p b \<longrightarrow> n \<in> members (rows ! p)}"
proof -
  let ?s = "let s = replicate (set_words f) (if b = 0 then 0 else - 1)
            in if b = 0 then foldl set_param s (f_params f) else s"
  have l: "length ?s = set_words f" by (simp add: Let_def)
  have rows: "row \<in> snd ` set (zip (f_blocks f) rows) \<Longrightarrow> length row = length ?s" for row
    using assms l by (auto simp: rows_ok_def dest: set_zip_rightD)
  have e: "entry_set f b rows (set_words f) =
      foldl (\<lambda>s (p, row). meet_row p b s row) ?s (zip (f_blocks f) rows)"
    by (simp add: entry_set_def Let_def)
  show "length (entry_set f b rows (set_words f)) = set_words f" unfolding e using rows l by simp
  assume b: "b < length (f_blocks f)"
  have "members ?s = base_set f b"
    by (auto simp: Let_def members_params members_none members_all base_set_def param_temps_def)
  moreover have "(\<forall>(p, row)\<in>set (zip (f_blocks f) rows). jumps_to p b \<longrightarrow> n \<in> members row) \<longleftrightarrow>
      (\<forall>p. edge f p b \<longrightarrow> n \<in> members (rows ! p))" for n
    using assms b by (auto simp: set_zip edge_def rows_ok_def)
  ultimately show "members (entry_set f b rows (set_words f)) =
      {n \<in> base_set f b. \<forall>p. edge f p b \<longrightarrow> n \<in> members (rows ! p)}"
    unfolding e using members_meet [OF rows] by simp
qed

definition block_results :: "ir_function \<Rightarrow> ir_inst list \<Rightarrow> nat set" where
  "block_results f insts = results insts \<inter> {..<length (f_temps f)}"

lemma temps_fit: "n < length (f_temps f) \<Longrightarrow> n < 64 * set_words f"
proof -
  assume "n < length (f_temps f)"
  moreover have "length (f_temps f) < 64 * (length (f_temps f) div 64) + 64" by presburger
  ultimately show ?thesis by (simp add: set_words_def)
qed

lemma set_results_both:
  "length s = set_words f \<Longrightarrow>
     length (foldl (set_result f) s insts) = set_words f \<and>
     members (foldl (set_result f) s insts) = members s \<union> block_results f insts"
proof (induction insts arbitrary: s)
  case (Cons inst insts)
  have "length (set_result f s inst) = set_words f"
    using Cons.prems by (simp add: set_result_def split: option.split)
  moreover have "members (set_result f s inst) = members s \<union> (set_option (i_result inst) \<inter> {..<length (f_temps f)})"
    using Cons.prems by (cases "i_result inst") (auto simp: set_result_def members_set_bit temps_fit)
  ultimately show ?case using Cons.IH [of "set_result f s inst"] by (auto simp: block_results_def)
qed (simp add: block_results_def)

lemmas set_results = set_results_both [THEN conjunct1] set_results_both [THEN conjunct2]

lemma exit_set_props:
  assumes "rows_ok f rows"
  shows "length (exit_set f b rows (set_words f)) = set_words f"
    and "b < length (f_blocks f) \<Longrightarrow> members (exit_set f b rows (set_words f)) =
      {n \<in> base_set f b. \<forall>p. edge f p b \<longrightarrow> n \<in> members (rows ! p)} \<union>
      block_results f (b_insts (f_blocks f ! b))"
  unfolding exit_set_def using set_results entry_set_props [OF assms] by simp_all

section \<open>Paths\<close>

text \<open>
  A path that stands at the entry of block \<open>b\<close> after it defined the temporaries \<open>D\<close>.
\<close>

inductive reaches :: "ir_function \<Rightarrow> nat \<Rightarrow> nat set \<Rightarrow> bool" for f where
  start: "reaches f 0 (param_temps f)"
| jump: "reaches f p D \<Longrightarrow> edge f p b \<Longrightarrow> reaches f b (D \<union> results (b_insts (f_blocks f ! p)))"

definition must :: "ir_function \<Rightarrow> nat \<Rightarrow> nat set" where
  "must f b = {n. n < 64 * set_words f \<and> (\<forall>D. reaches f b D \<longrightarrow> n \<in> D)}"

definition must_out :: "ir_function \<Rightarrow> nat \<Rightarrow> nat set" where
  "must_out f b = must f b \<union> block_results f (b_insts (f_blocks f ! b))"

text \<open>The sets of the loop: full at first, always above the meet over all paths.\<close>

definition flow_inv :: "ir_function \<Rightarrow> temps list \<Rightarrow> bool" where
  "flow_inv f rows \<longleftrightarrow> rows_ok f rows \<and>
     (\<forall>b<length (f_blocks f).
        members (exit_set f b rows (set_words f)) \<subseteq> members (rows ! b) \<and>
        (\<forall>n\<in>must_out f b. n < length (f_temps f) \<longrightarrow> n \<in> members (rows ! b)))"

definition flow_size :: "temps list \<Rightarrow> nat" where
  "flow_size rows = sum_list (map (card \<circ> members) rows)"

lemma flow_size_update:
  assumes "b < length rows" and "members s \<subset> members (rows ! b)"
  shows "flow_size (rows[b := s]) < flow_size rows"
  using assms
proof (induction rows arbitrary: b)
  case (Cons r rows)
  then show ?case
  proof (cases b)
    case 0
    with Cons.prems have "card (members s) < card (members r)" by (simp add: psubset_card_mono)
    with 0 show ?thesis by (simp add: flow_size_def)
  next
    case (Suc b')
    with Cons.IH [of b'] Cons.prems show ?thesis by (simp add: flow_size_def)
  qed
qed simp

lemma must_edge:
  assumes "edge f p b" and "n \<in> must f b" and "n < length (f_temps f)"
  shows "n \<in> must_out f p"
proof (rule ccontr)
  assume "n \<notin> must_out f p"
  then obtain D where D: "reaches f p D" "n \<notin> D" "n \<notin> results (b_insts (f_blocks f ! p))"
    using assms(3) temps_fit by (auto simp: must_out_def must_def block_results_def)
  then have "reaches f b (D \<union> results (b_insts (f_blocks f ! p)))" using assms(1) by (blast intro: jump)
  with assms(2) D show False by (auto simp: must_def)
qed

lemma must_base: "n \<in> must f b \<Longrightarrow> n \<in> base_set f b"
  using start by (auto simp: must_def base_set_def)

lemma must_exit:
  assumes "flow_inv f rows" and "b < length (f_blocks f)" and "n \<in> must_out f b" and "n < length (f_temps f)"
  shows "n \<in> members (exit_set f b rows (set_words f))"
proof (cases "n \<in> block_results f (b_insts (f_blocks f ! b))")
  case True
  then show ?thesis using exit_set_props(2) assms by (auto simp: flow_inv_def)
next
  case False
  then have m: "n \<in> must f b" using assms(3) by (simp add: must_out_def)
  have "n \<in> members (rows ! p)" if "edge f p b" for p
    using must_edge [OF that m assms(4)] assms(1,4) that by (auto simp: flow_inv_def edge_def)
  then show ?thesis using must_base [OF m] exit_set_props(2) assms by (auto simp: flow_inv_def)
qed

lemma flow_inv_update:
  assumes "flow_inv f rows" and b: "b < length (f_blocks f)"
  defines "s \<equiv> exit_set f b rows (set_words f)"
  shows "flow_inv f (rows[b := s])"
proof -
  have ok: "rows_ok f rows" using assms(1) by (simp add: flow_inv_def)
  have sub: "members s \<subseteq> members (rows ! b)" using assms(1) b by (simp add: flow_inv_def s_def)
  have ok': "rows_ok f (rows[b := s])"
    using ok exit_set_props(1) [OF ok] by (auto simp: rows_ok_def s_def dest!: set_update_subset_insert [THEN subsetD])
  have len: "b < length rows" using ok b by (simp add: rows_ok_def)
  have less: "members (rows[b := s] ! p) \<subseteq> members (rows ! p)" for p
    using sub len by (cases "p = b") auto
  have mono: "members (exit_set f c (rows[b := s]) (set_words f)) \<subseteq> members (exit_set f c rows (set_words f))"
    if "c < length (f_blocks f)" for c
    using less by (auto simp: exit_set_props(2) [OF ok that] exit_set_props(2) [OF ok' that])
  have "members (exit_set f c (rows[b := s]) (set_words f)) \<subseteq> members (rows[b := s] ! c)"
    if "c < length (f_blocks f)" for c
    using mono [OF that] assms(1) that len by (cases "c = b") (auto simp: flow_inv_def s_def)
  moreover have "n \<in> members (rows[b := s] ! c)"
    if "c < length (f_blocks f)" "n \<in> must_out f c" "n < length (f_temps f)" for c n
    using must_exit [OF assms(1) that] assms(1) that len by (cases "c = b") (auto simp: flow_inv_def s_def)
  ultimately show ?thesis using ok' by (simp add: flow_inv_def)
qed

lemma flow_pass:
  assumes "flow_inv f rows" and "\<forall>b\<in>set bs. b < length (f_blocks f)"
    and "foldl (flow_block f (set_words f)) (rows, ch) bs = (rows', ch')"
  shows "flow_inv f rows' \<and> flow_size rows' \<le> flow_size rows \<and>
    (if ch' then ch \<or> flow_size rows' < flow_size rows
     else \<not> ch \<and> rows' = rows \<and> (\<forall>b\<in>set bs. exit_set f b rows (set_words f) = rows ! b))"
  using assms
proof (induction bs arbitrary: rows ch)
  case (Cons b bs)
  let ?s = "exit_set f b rows (set_words f)"
  have b: "b < length (f_blocks f)" and ok: "rows_ok f rows" using Cons.prems by (auto simp: flow_inv_def)
  show ?case
  proof (cases "?s = rows ! b")
    case True
    then have "flow_block f (set_words f) (rows, ch) b = (rows, ch)" by (simp add: flow_block_def)
    with Cons.IH [of rows ch] Cons.prems True show ?thesis by (cases ch') auto
  next
    case False
    then have step: "flow_block f (set_words f) (rows, ch) b = (rows[b := ?s], True)"
      by (simp add: flow_block_def Let_def)
    have "members ?s \<subset> members (rows ! b)"
    proof
      show "members ?s \<subseteq> members (rows ! b)" using Cons.prems(1) b by (simp add: flow_inv_def)
      have "length ?s = length (rows ! b)"
        using exit_set_props(1) [OF ok] ok b by (simp add: rows_ok_def)
      with False show "members ?s \<noteq> members (rows ! b)" by (metis members_eq)
    qed
    then have "flow_size (rows[b := ?s]) < flow_size rows"
      using flow_size_update b ok by (simp add: rows_ok_def)
    with Cons.IH [OF flow_inv_update [OF Cons.prems(1) b], of True] Cons.prems(2,3) step show ?thesis
      by (cases ch') auto
  qed
qed auto

lemma flow_loop_returns:
  "flow_inv f rows \<Longrightarrow>
     \<exists>rows'. flow_loop f (set_words f) rows = Some rows' \<and> flow_inv f rows' \<and>
       (\<forall>b<length (f_blocks f). exit_set f b rows' (set_words f) = rows' ! b)"
proof (induction "flow_size rows" arbitrary: rows rule: less_induct)
  case less
  obtain rows' ch where p: "foldl (flow_block f (set_words f)) (rows, False) [0..<length (f_blocks f)] = (rows', ch)"
    by (cases "foldl (flow_block f (set_words f)) (rows, False) [0..<length (f_blocks f)]")
  have pass: "flow_inv f rows' \<and> flow_size rows' \<le> flow_size rows \<and>
    (if ch then False \<or> flow_size rows' < flow_size rows
     else \<not> False \<and> rows' = rows \<and> (\<forall>b\<in>set [0..<length (f_blocks f)]. exit_set f b rows (set_words f) = rows ! b))"
    by (rule flow_pass [OF less.prems _ p]) simp
  show ?case
  proof (cases ch)
    case True
    with less.hyps [of rows'] pass p show ?thesis by (simp add: flow_loop.simps [of f "set_words f" rows])
  next
    case False
    with pass p show ?thesis by (auto simp add: flow_loop.simps [of f "set_words f" rows])
  qed
qed

lemma flow_inv_start: "flow_inv f (replicate (length (f_blocks f)) (replicate (set_words f) (- 1)))"
proof -
  let ?rows = "replicate (length (f_blocks f)) (replicate (set_words f) (- 1))"
  have ok: "rows_ok f ?rows" by (auto simp: rows_ok_def)
  have "members (exit_set f b ?rows (set_words f)) \<subseteq> {..<64 * set_words f}" if "b < length (f_blocks f)" for b
    using exit_set_props(2) [OF ok that] temps_fit by (auto simp: base_set_def block_results_def)
  then show ?thesis using ok temps_fit by (auto simp: flow_inv_def members_all)
qed

lemma flow_returns:
  "\<exists>rows. flow f = Some rows \<and> flow_inv f rows \<and>
     (\<forall>b<length (f_blocks f). exit_set f b rows (set_words f) = rows ! b)"
  unfolding flow_def by (rule flow_loop_returns [OF flow_inv_start])

lemma must_of_path:
  assumes "flow_inv f rows" and stable: "\<And>b. b < length (f_blocks f) \<Longrightarrow> exit_set f b rows (set_words f) = rows ! b"
    and "reaches f b D" and "b < length (f_blocks f)"
  shows "members (entry_set f b rows (set_words f)) \<subseteq> D"
  using assms(3,4)
proof induction
  case start
  then show ?case using entry_set_props(2) assms(1) by (auto simp: flow_inv_def base_set_def)
next
  case (jump p D b)
  have ok: "rows_ok f rows" and p: "p < length (f_blocks f)" using assms(1) jump by (auto simp: flow_inv_def edge_def)
  have "members (rows ! p) = members (entry_set f p rows (set_words f)) \<union> block_results f (b_insts (f_blocks f ! p))"
    using stable [OF p] exit_set_props(2) [OF ok p] entry_set_props(2) [OF ok p] by simp
  then have "members (rows ! p) \<subseteq> D \<union> results (b_insts (f_blocks f ! p))"
    using jump.IH p by (auto simp: block_results_def)
  moreover have "members (entry_set f b rows (set_words f)) \<subseteq> members (rows ! p)"
    using entry_set_props(2) [OF ok jump.prems] jump.hyps by auto
  ultimately show ?case by blast
qed

lemma entry_set_exact:
  assumes "flow_inv f rows" and "\<And>b. b < length (f_blocks f) \<Longrightarrow> exit_set f b rows (set_words f) = rows ! b"
    and "b < length (f_blocks f)" and n: "n < length (f_temps f)"
  shows "n \<in> members (entry_set f b rows (set_words f)) \<longleftrightarrow> (\<forall>D. reaches f b D \<longrightarrow> n \<in> D)"
proof
  show "n \<in> members (entry_set f b rows (set_words f)) \<Longrightarrow> \<forall>D. reaches f b D \<longrightarrow> n \<in> D"
    using must_of_path [OF assms(1,2) _ assms(3)] by blast
  assume "\<forall>D. reaches f b D \<longrightarrow> n \<in> D"
  then have m: "n \<in> must f b" using temps_fit [OF n] by (simp add: must_def)
  have "n \<in> members (rows ! p)" if "edge f p b" for p
    using must_edge [OF that m n] assms(1) n that by (auto simp: flow_inv_def edge_def)
  then show "n \<in> members (entry_set f b rows (set_words f))"
    using must_base [OF m] entry_set_props(2) [OF _ assms(3)] assms(1) by (auto simp: flow_inv_def)
qed

section \<open>The contract of a check\<close>

text \<open>
  A check keeps the module and the function, only appends to the errors, and clears \<open>ok\<close> exactly
  when it appends.
\<close>

definition grows :: "verifier \<Rightarrow> verifier \<Rightarrow> bool" where
  "grows v v' \<longleftrightarrow> v_m v' = v_m v \<and> v_f v' = v_f v \<and> prefix (data (v_errors v)) (data (v_errors v')) \<and>
     (v_ok v' \<longleftrightarrow> v_ok v \<and> data (v_errors v') = data (v_errors v))"

lemma grows_refl [simp, intro]: "grows v v"
  by (simp add: grows_def)

lemma grows_block [simp]: "grows v (v\<lparr>v_b := b\<rparr>)"
  by (simp add: grows_def)

lemma grows_trans: "grows v v' \<Longrightarrow> grows v' v'' \<Longrightarrow> grows v v''"
  by (auto simp: grows_def prefix_order.antisym dest: prefix_order.trans)

lemma bytes_of_nonempty: "bytes_of (xs @ ys @ zs @ [c]) \<noteq> []"
  by (simp add: bytes_of_def)

lemma fail_grows [simp]: "grows v (verify_fail v s)"
  by (simp add: grows_def verify_fail_def bytes_of_def)

lemma fail_simps [simp]:
  "v_m (verify_fail v s) = v_m v" "v_f (verify_fail v s) = v_f v" "v_ok (verify_fail v s) = False"
  by (simp_all add: verify_fail_def)

lemma grows_fail [simp]: "grows v w \<Longrightarrow> grows v (verify_fail w s)"
  by (rule grows_trans [OF _ fail_grows])

text \<open>What a check keeps, as rewrite rules.\<close>

lemma growsD: "grows v v' \<Longrightarrow> v_m v' = v_m v \<and> v_f v' = v_f v"
  by (simp add: grows_def)

lemma grows_foldl: "(\<And>v x. grows v (g v x)) \<Longrightarrow> grows v (foldl g v xs)"
proof (induction xs arbitrary: v)
  case (Cons x xs)
  then show ?case by (auto intro: grows_trans [of v "g v x"])
qed simp

lemma operand_ok_grows [simp]: "grows v (fst (operand_ok v inst x))"
  by (simp add: operand_ok_def split: ir_operand.split)

lemma vtype_ok_grows [simp]: "grows v (vtype_ok v inst)"
  by (simp add: vtype_ok_def)

lemma operand_ok_grows' [simp]: "grows v w \<Longrightarrow> grows v (fst (operand_ok w inst x))"
  by (rule grows_trans [OF _ operand_ok_grows])

lemma vtype_ok_grows' [simp]: "grows v w \<Longrightarrow> grows v (vtype_ok w inst)"
  by (rule grows_trans [OF _ vtype_ok_grows])

section \<open>What the checks decide\<close>

text \<open>
  An operand that the source reports when it does not exist, and one that exists. They differ for
  functions and globals, which are out of range without a report.
\<close>

definition in_table :: "ir_module \<Rightarrow> ir_function \<Rightarrow> ir_operand \<Rightarrow> bool" where
  "in_table m f x \<longleftrightarrow>
     (case x of IR_TEMP _ n \<Rightarrow> n < length (f_temps f) | IR_BLOCK _ n \<Rightarrow> n < length (f_blocks f)
      | IR_SYM _ n \<Rightarrow> n < length (m_syms m) | _ \<Rightarrow> True)"

definition operand_exists :: "ir_module \<Rightarrow> ir_function \<Rightarrow> ir_operand \<Rightarrow> bool" where
  "operand_exists m f x \<longleftrightarrow>
     in_table m f x \<and>
     (case x of IR_FUNC _ n \<Rightarrow> n < length (m_functions m) | IR_GLOBAL _ n \<Rightarrow> n < length (m_globals m)
      | _ \<Rightarrow> True)"

definition typed_as :: "ir_module \<Rightarrow> ir_function \<Rightarrow> ir_operand \<Rightarrow> ir_type \<Rightarrow> bool" where
  "typed_as m f x t \<longleftrightarrow>
     x = IR_NONE \<or> (in_table m f x \<and> (operand_exists m f x \<longrightarrow> type_of f x = t))"

definition vtype_exists :: "ir_module \<Rightarrow> ir_inst \<Rightarrow> bool" where
  "vtype_exists m inst \<longleftrightarrow> vt_type (i_of inst) \<noteq> IR_VOID \<and>
     (vt_type (i_of inst) = IR_AGG \<longrightarrow> vt_agg (i_of inst) < length (m_aggs m))"

lemma snd_operand_ok [simp]: "snd (operand_ok v inst x) = operand_exists (v_m v) (v_f v) x"
  by (simp add: operand_ok_def operand_exists_def in_table_def not_le split: ir_operand.split)

lemma ok_operand_ok [simp]: "v_ok (fst (operand_ok v inst x)) \<longleftrightarrow> v_ok v \<and> in_table (v_m v) (v_f v) x"
  by (simp add: operand_ok_def in_table_def not_le split: ir_operand.split)

lemma keeps_operand_ok [simp]:
  "v_m (fst (operand_ok v inst x)) = v_m v" "v_f (fst (operand_ok v inst x)) = v_f v"
  using growsD [OF operand_ok_grows] by simp_all

lemma same_type_fst:
  "same_type v inst x t =
     (if x = IR_NONE then v
      else let w = fst (operand_ok v inst x)
           in if operand_exists (v_m v) (v_f v) x \<and> type_of (v_f v) x \<noteq> t
              then verify_fail w (ir_op_name (i_op inst) @ '' '' @ ir_type_name t @
                     '' has an operand of type '' @ ir_type_name (type_of (v_f v) x))
              else w)"
  using snd_operand_ok [of v inst x] keeps_operand_ok [of v inst x]
  by (simp add: same_type_def case_prod_beta Let_def del: snd_operand_ok keeps_operand_ok)

lemma same_type_grows [simp]: "grows v (same_type v inst x t)"
  by (simp add: same_type_fst Let_def)

lemma same_type_grows' [simp]: "grows v w \<Longrightarrow> grows v (same_type w inst x t)"
  by (rule grows_trans [OF _ same_type_grows])

lemma keeps_same_type [simp]:
  "v_m (same_type v inst x t) = v_m v" "v_f (same_type v inst x t) = v_f v"
  using growsD [OF same_type_grows] by simp_all

lemma ok_same_type [simp]:
  "v_ok (same_type v inst x t) \<longleftrightarrow> v_ok v \<and> typed_as (v_m v) (v_f v) x t"
  by (auto simp: same_type_fst Let_def typed_as_def operand_exists_def)

lemma ok_vtype_ok [simp]: "v_ok (vtype_ok v inst) \<longleftrightarrow> v_ok v \<and> vtype_exists (v_m v) inst"
  by (auto simp: vtype_ok_def vtype_exists_def)

definition compare_ok :: "ir_module \<Rightarrow> ir_function \<Rightarrow> ir_inst \<Rightarrow> bool" where
  "compare_ok m f inst \<longleftrightarrow> i_type inst = IR_I8 \<and> in_table m f (i_a inst) \<and>
     (operand_exists m f (i_a inst) \<longrightarrow> in_table m f (i_b inst) \<and>
        (operand_exists m f (i_b inst) \<longrightarrow> type_of f (i_a inst) = type_of f (i_b inst)))"

lemma check_compare_fst:
  "check_compare v inst =
     (let w = fst (operand_ok v inst (i_a inst));
          w = (if operand_exists (v_m v) (v_f v) (i_a inst) then
                 let w' = fst (operand_ok w inst (i_b inst))
                 in if operand_exists (v_m v) (v_f v) (i_b inst) \<and>
                       type_of (v_f v) (i_a inst) \<noteq> type_of (v_f v) (i_b inst)
                    then verify_fail w' (ir_op_name (i_op inst) @ '' compares '' @
                           ir_type_name (type_of (v_f v) (i_a inst)) @ '' with '' @
                           ir_type_name (type_of (v_f v) (i_b inst)))
                    else w'
               else w)
      in if i_type inst \<noteq> IR_I8
         then verify_fail w (ir_op_name (i_op inst) @ '' gives i8, not '' @ ir_type_name (i_type inst))
         else w)"
proof -
  obtain w g where a: "operand_ok v inst (i_a inst) = (w, g)" by (cases "operand_ok v inst (i_a inst)")
  obtain w' g' where b: "operand_ok w inst (i_b inst) = (w', g')" by (cases "operand_ok w inst (i_b inst)")
  have "g = operand_exists (v_m v) (v_f v) (i_a inst)" "v_m w = v_m v" "v_f w = v_f v"
    using snd_operand_ok [of v inst "i_a inst"] keeps_operand_ok [of v inst "i_a inst"] a by simp_all
  moreover have "g' = operand_exists (v_m w) (v_f w) (i_b inst)" "v_f w' = v_f w"
    using snd_operand_ok [of w inst "i_b inst"] keeps_operand_ok [of w inst "i_b inst"] b by simp_all
  ultimately show ?thesis using a b by (simp add: check_compare_def Let_def split: bool.split)
qed

lemma check_compare_grows [simp]: "grows v (check_compare v inst)"
  unfolding check_compare_fst Let_def
  by simp

lemma ok_check_compare [simp]:
  "v_ok (check_compare v inst) \<longleftrightarrow> v_ok v \<and> compare_ok (v_m v) (v_f v) inst"
  unfolding check_compare_fst Let_def compare_ok_def by auto

definition bits_ok :: "ir_module \<Rightarrow> ir_function \<Rightarrow> ir_inst \<Rightarrow> bool" where
  "bits_ok m f inst \<longleftrightarrow> is_bitfield m inst \<and>
     typed_as m f (if i_op inst = IR_BITLOAD then i_a inst else i_b inst) IR_PTR \<and>
     (i_op inst = IR_BITSTORE \<longrightarrow> typed_as m f (i_a inst) (i_type inst))"

lemma check_bits_grows [simp]: "grows v (check_bits v inst)"
  unfolding check_bits_def Let_def
  by simp

lemma ok_check_bits [simp]: "v_ok (check_bits v inst) \<longleftrightarrow> v_ok v \<and> bits_ok (v_m v) (v_f v) inst"
  by (auto simp: check_bits_def bits_ok_def Let_def)

definition call_ok :: "ir_module \<Rightarrow> ir_function \<Rightarrow> ir_inst \<Rightarrow> bool" where
  "call_ok m f inst \<longleftrightarrow>
     (is_func (i_a inst) \<or> typed_as m f (i_a inst) IR_PTR) \<and>
     (is_func (named_callee inst) \<and> operand_exists m f (named_callee inst) \<longrightarrow>
        arity_ok (m_functions m ! as_index (named_callee inst)) inst)"

lemma is_func_in_table: "is_func x \<Longrightarrow> in_table m f x"
  by (cases x) (simp_all add: is_func_def in_table_def)

lemma operand_ok_func: "is_func x \<Longrightarrow> operand_ok v inst x = (v, operand_exists (v_m v) (v_f v) x)"
  by (cases x) (simp_all add: is_func_def operand_ok_def operand_exists_def in_table_def)

lemma check_call_grows [simp]: "grows v (check_call v inst)"
  unfolding check_call_def Let_def
  by (simp add: operand_ok_func)

lemma ok_check_call [simp]: "v_ok (check_call v inst) \<longleftrightarrow> v_ok v \<and> call_ok (v_m v) (v_f v) inst"
  by (auto simp: check_call_def call_ok_def Let_def operand_ok_func)

definition ret_ok :: "ir_module \<Rightarrow> ir_function \<Rightarrow> ir_inst \<Rightarrow> bool" where
  "ret_ok m f inst \<longleftrightarrow> i_type inst = (if f_result f = IR_AGG then IR_PTR else f_result f) \<and>
     (i_type inst \<noteq> IR_VOID \<longrightarrow> typed_as m f (i_a inst) (i_type inst))"

lemma check_ret_grows [simp]: "grows v (check_ret v inst)"
  by (simp add: check_ret_def Let_def)

lemma ok_check_ret [simp]: "v_ok (check_ret v inst) \<longleftrightarrow> v_ok v \<and> ret_ok (v_m v) (v_f v) inst"
  by (auto simp: check_ret_def ret_ok_def Let_def)

end
