(* ===== verification/IrVerifyMain.thy ===== *)
theory IrVerifyMain
  imports IrVerifyProps Folding
begin

text \<open>
  The verifier as a whole: what it accepts, stated over the module alone, that it always returns,
  and that it reports exactly when it refuses.
\<close>

section \<open>Instructions\<close>

definition inst_ok :: "ir_module \<Rightarrow> ir_function \<Rightarrow> ir_inst \<Rightarrow> bool" where
  "inst_ok m f inst \<longleftrightarrow>
     (let op = i_op inst; a = i_a inst; b = i_b inst; t = i_type inst
      in if op \<in> set binary_ops then typed_as m f a t \<and> typed_as m f b t
         else if op \<in> set unary_ops then typed_as m f a t
         else if op \<in> set compare_ops then compare_ok m f inst
         else if op = IR_LOAD then typed_as m f a IR_PTR
         else if op = IR_STORE then typed_as m f a t \<and> typed_as m f b IR_PTR
         else if op = IR_PTRADD then typed_as m f a IR_PTR \<and> typed_as m f b IR_I64
         else if op = IR_MEMCOPY then typed_as m f a IR_PTR \<and> typed_as m f b IR_PTR \<and> vtype_exists m inst
         else if op = IR_SLOT then vtype_exists m inst
         else if op = IR_BITLOAD \<or> op = IR_BITSTORE then bits_ok m f inst
         else if op = IR_CALL then call_ok m f inst
         else if op = IR_BRANCH then typed_as m f a IR_I8 \<and> in_table m f b \<and> in_table m f (i_c inst)
         else if op = IR_RET then ret_ok m f inst
         else in_table m f a)"

lemma check_inst_grows [simp]: "grows v (check_inst v inst)"
  unfolding check_inst_def Let_def by simp

lemma keeps_check_inst [simp]: "v_m (check_inst v inst) = v_m v" "v_f (check_inst v inst) = v_f v"
  using growsD [OF check_inst_grows] by simp_all

lemma ok_check_inst: "v_ok (check_inst v inst) \<longleftrightarrow> v_ok v \<and> inst_ok (v_m v) (v_f v) inst"
  unfolding check_inst_def inst_ok_def Let_def by simp

section \<open>Uses\<close>

text \<open>Every temporary is defined before the instructions use it, from the set \<open>D\<close> on.\<close>

fun uses_ok :: "ir_function \<Rightarrow> nat set \<Rightarrow> ir_inst list \<Rightarrow> bool" where
  "uses_ok f D [] \<longleftrightarrow> True"
| "uses_ok f D (inst # insts) \<longleftrightarrow>
     (\<forall>n<length (f_temps f). list_ex (\<lambda>x. is_temp x n) (operands inst) \<longrightarrow> n \<in> D) \<and>
     uses_ok f (D \<union> set_option (i_result inst)) insts"

definition defined_before_use :: "ir_function \<Rightarrow> bool" where
  "defined_before_use f \<longleftrightarrow>
     (\<forall>b<length (f_blocks f). \<forall>D. reaches f b D \<longrightarrow> uses_ok f D (b_insts (f_blocks f ! b)))"

lemma check_use_grows [simp]: "grows v (check_use s inst v x)"
  by (simp add: check_use_def split: ir_operand.split)

lemma foldl_check_use:
  assumes "length s = set_words (v_f v)"
  shows "v_ok (foldl (check_use s inst) v xs) \<longleftrightarrow> v_ok v \<and>
    (\<forall>n<length (f_temps (v_f v)). list_ex (\<lambda>x. is_temp x n) xs \<longrightarrow> n \<in> members s)"
  using assms
proof (induction xs arbitrary: v)
  case (Cons x xs)
  have f: "v_f (check_use s inst v x) = v_f v" using growsD [OF check_use_grows] by simp
  have "v_ok (check_use s inst v x) \<longleftrightarrow> v_ok v \<and>
      (\<forall>n<length (f_temps (v_f v)). is_temp x n \<longrightarrow> n \<in> members s)"
    using Cons.prems temps_fit
    by (cases x) (auto simp: check_use_def is_temp_def members_def)
  with Cons.IH [of "check_use s inst v x"] Cons.prems f show ?case by auto
qed simp

lemma check_uses_fst:
  "check_uses (v, s) inst = (foldl (check_use s inst) v (operands inst), set_result (v_f v) s inst)"
  by (simp add: check_uses_def operands_def)

lemma foldl_check_uses:
  "length s = set_words (v_f v) \<Longrightarrow>
     grows v (fst (foldl check_uses (v, s) insts)) \<and>
     (v_ok (fst (foldl check_uses (v, s) insts)) \<longleftrightarrow> v_ok v \<and> uses_ok (v_f v) (members s) insts)"
proof (induction insts arbitrary: v s)
  case (Cons inst insts)
  let ?v = "foldl (check_use s inst) v (operands inst)"
  let ?s = "set_result (v_f v) s inst"
  have g: "grows v ?v" by (rule grows_foldl) simp
  have f: "v_f ?v = v_f v" using growsD [OF g] by simp
  have l: "length ?s = set_words (v_f v)" using set_results(1) [of s "v_f v" "[inst]"] Cons.prems by simp
  have m: "members ?s = members s \<union> block_results (v_f v) [inst]"
    using set_results(2) [of s "v_f v" "[inst]"] Cons.prems by simp
  have eq: "uses_ok (v_f v) (members ?s) rest \<longleftrightarrow> uses_ok (v_f v) (members s \<union> set_option (i_result inst)) rest" for rest
  proof -
    have "uses_ok f A rest \<longleftrightarrow> uses_ok f B rest" if "A \<inter> {..<length (f_temps f)} = B \<inter> {..<length (f_temps f)}" for f A B
      using that
    proof (induction rest arbitrary: A B)
      case (Cons i rest)
      from Cons.IH [of "A \<union> set_option (i_result i)" "B \<union> set_option (i_result i)"] Cons.prems
      show ?case by (simp add: Int_Un_distrib2) blast
    qed simp
    from this [of "members ?s" "v_f v" "members s \<union> set_option (i_result inst)"]
    show ?thesis by (auto simp: m block_results_def)
  qed
  from Cons.IH [of ?s ?v] l f foldl_check_use [OF Cons.prems, of inst "operands inst"] g eq
  show ?case by (auto simp: check_uses_fst intro: grows_trans)
qed simp

lemma uses_ok_meet:
  "(\<And>n. n < length (f_temps f) \<Longrightarrow> n \<in> S \<longleftrightarrow> (\<forall>D\<in>P. n \<in> D)) \<Longrightarrow>
     uses_ok f S insts \<longleftrightarrow> (\<forall>D\<in>P. uses_ok f D insts)"
proof (induction insts arbitrary: S P)
  case (Cons inst insts)
  have "uses_ok f (S \<union> set_option (i_result inst)) insts \<longleftrightarrow>
      (\<forall>D\<in>(\<lambda>D. D \<union> set_option (i_result inst)) ` P. uses_ok f D insts)"
    by (rule Cons.IH) (auto simp: Cons.prems)
  with Cons.prems show ?case by auto
qed simp

lemma check_block_uses:
  assumes "flow_inv (v_f v) rows"
    and "\<And>b. b < length (f_blocks (v_f v)) \<Longrightarrow> exit_set (v_f v) b rows (set_words (v_f v)) = rows ! b"
    and b: "b < length (f_blocks (v_f v))"
  shows "grows v (check_block_uses rows v b)"
    and "v_ok (check_block_uses rows v b) \<longleftrightarrow> v_ok v \<and>
      (\<forall>D. reaches (v_f v) b D \<longrightarrow> uses_ok (v_f v) D (b_insts (f_blocks (v_f v) ! b)))"
proof -
  let ?f = "v_f v" let ?blk = "f_blocks ?f ! b"
  let ?s = "entry_set ?f b rows (set_words ?f)"
  have "length ?s = set_words ?f" using entry_set_props(1) assms(1) by (simp add: flow_inv_def)
  note * = foldl_check_uses [of ?s "v\<lparr>v_b := ?blk\<rparr>" "b_insts ?blk", simplified, OF this]
  from * show "grows v (check_block_uses rows v b)"
    by (auto simp: check_block_uses_def Let_def intro: grows_trans [OF grows_block])
  have "uses_ok ?f (members ?s) (b_insts ?blk) \<longleftrightarrow> (\<forall>D\<in>{D. reaches ?f b D}. uses_ok ?f D (b_insts ?blk))"
    by (rule uses_ok_meet) (simp add: entry_set_exact [OF assms(1,2) b])
  with * show "v_ok (check_block_uses rows v b) \<longleftrightarrow> v_ok v \<and>
      (\<forall>D. reaches (v_f v) b D \<longrightarrow> uses_ok (v_f v) D (b_insts (f_blocks (v_f v) ! b)))"
    by (simp add: check_block_uses_def Let_def)
qed

lemma check_definitions_exact:
  obtains v' where "check_definitions v = Some v'" and "grows v v'"
    and "v_ok v' \<longleftrightarrow> v_ok v \<and> defined_before_use (v_f v)"
proof -
  obtain rows where rows: "flow (v_f v) = Some rows" "flow_inv (v_f v) rows"
      "\<And>b. b < length (f_blocks (v_f v)) \<Longrightarrow> exit_set (v_f v) b rows (set_words (v_f v)) = rows ! b"
    using flow_returns [of "v_f v"] by blast
  let ?P = "\<lambda>b. \<forall>D. reaches (v_f v) b D \<longrightarrow> uses_ok (v_f v) D (b_insts (f_blocks (v_f v) ! b))"
  have "grows v (foldl (check_block_uses rows) v bs) \<and>
      (v_ok (foldl (check_block_uses rows) v bs) \<longleftrightarrow> v_ok v \<and> (\<forall>b\<in>set bs. ?P b))"
    if "\<forall>b\<in>set bs. b < length (f_blocks (v_f v))" for bs
    using that
  proof (induction bs rule: rev_induct)
    case (snoc b bs)
    let ?w = "foldl (check_block_uses rows) v bs"
    have "v_f ?w = v_f v" using snoc growsD by auto
    with check_block_uses [of ?w rows b] rows snoc show ?case by (auto intro: grows_trans)
  qed simp
  from this [of "[0..<length (f_blocks (v_f v))]"] show ?thesis
    by (intro that [of "foldl (check_block_uses rows) v [0..<length (f_blocks (v_f v))]"])
      (simp_all add: rows(1) check_definitions_def defined_before_use_def Ball_def)
qed

section \<open>Blocks, functions and modules\<close>

text \<open>The terminator of a block is its last instruction, and no other one is a terminator.\<close>

definition one_terminator :: "ir_inst list \<Rightarrow> bool" where
  "one_terminator insts \<longleftrightarrow>
     insts \<noteq> [] \<and> is_terminator (i_op (last insts)) \<and>
     list_all (\<lambda>inst. \<not> is_terminator (i_op inst)) (butlast insts)"

definition block_ok :: "ir_module \<Rightarrow> ir_function \<Rightarrow> ir_block \<Rightarrow> bool" where
  "block_ok m f b \<longleftrightarrow> one_terminator (b_insts b) \<and> list_all (inst_ok m f) (b_insts b)"

definition function_ok :: "ir_module \<Rightarrow> ir_function \<Rightarrow> bool" where
  "function_ok m f \<longleftrightarrow> f_is_extern f \<or> (list_all (block_ok m f) (f_blocks f) \<and> defined_before_use f)"

lemma verify_inst_grows [simp]: "grows v (verify_inst n v p)"
  by (simp add: verify_inst_def Let_def case_prod_beta)

lemma foldl_verify_inst:
  "k + length insts = n \<Longrightarrow>
     v_ok (foldl (verify_inst n) v (zip [k..<n] insts)) \<longleftrightarrow> v_ok v \<and>
     list_all (inst_ok (v_m v) (v_f v)) insts \<and> list_all (\<lambda>inst. \<not> is_terminator (i_op inst)) (butlast insts)"
proof (induction insts arbitrary: k v)
  case (Cons inst insts)
  let ?v = "verify_inst n v (k, inst)"
  have kn: "[k..<n] = k # [Suc k..<n]" using Cons.prems by (simp add: upt_conv_Cons)
  have f: "v_m ?v = v_m v" "v_f ?v = v_f v" using growsD [OF verify_inst_grows] by simp_all
  have "v_ok ?v \<longleftrightarrow> v_ok v \<and> inst_ok (v_m v) (v_f v) inst \<and> (insts \<noteq> [] \<longrightarrow> \<not> is_terminator (i_op inst))"
    using Cons.prems by (cases insts) (auto simp: verify_inst_def Let_def ok_check_inst)
  with Cons.IH [of "Suc k" ?v] Cons.prems f kn show ?case by auto
qed simp

lemma verify_block_grows [simp]: "grows v (verify_block v b)"
proof -
  have "grows (v\<lparr>v_b := b\<rparr>) (foldl (verify_inst n) (v\<lparr>v_b := b\<rparr>) ps)" for n ps
    by (rule grows_foldl) simp
  from grows_trans [OF grows_block this] show ?thesis by (simp add: verify_block_def Let_def)
qed

lemma ok_verify_block: "v_ok (verify_block v b) \<longleftrightarrow> v_ok v \<and> block_ok (v_m v) (v_f v) b"
  using foldl_verify_inst [of 0 "b_insts b" "length (b_insts b)" "v\<lparr>v_b := b\<rparr>"]
  by (auto simp: verify_block_def Let_def block_ok_def one_terminator_def)

lemma foldl_verify_block:
  "v_ok (foldl verify_block v bs) \<longleftrightarrow> v_ok v \<and> list_all (block_ok (v_m v) (v_f v)) bs"
proof (induction bs arbitrary: v)
  case (Cons b bs)
  have "v_m (verify_block v b) = v_m v" "v_f (verify_block v b) = v_f v"
    using growsD [OF verify_block_grows] by simp_all
  with Cons [of "verify_block v b"] show ?case by (auto simp: ok_verify_block)
qed simp

lemma verify_function_exact:
  obtains v' where "verify_function v f = Some v'" and "grows (v\<lparr>v_f := f\<rparr>) v'"
    and "v_ok v' \<longleftrightarrow> v_ok v \<and> function_ok (v_m v) f"
proof (cases "f_is_extern f")
  case True
  then show ?thesis using that [of "v\<lparr>v_f := f\<rparr>"] by (simp add: verify_function_def function_ok_def)
next
  case False
  let ?w = "foldl verify_block (v\<lparr>v_f := f\<rparr>) (f_blocks f)"
  have g: "grows (v\<lparr>v_f := f\<rparr>) ?w" by (rule grows_foldl) simp
  have w: "v_m ?w = v_m v" "v_f ?w = f" using growsD [OF g] by simp_all
  have ok: "v_ok ?w \<longleftrightarrow> v_ok v \<and> list_all (block_ok (v_m v) f) (f_blocks f)"
    using foldl_verify_block [of "v\<lparr>v_f := f\<rparr>"] by simp
  obtain v' where v': "check_definitions ?w = Some v'" "grows ?w v'"
      "v_ok v' \<longleftrightarrow> v_ok ?w \<and> defined_before_use (v_f ?w)"
    by (rule check_definitions_exact)
  show ?thesis
  proof (cases "v_ok ?w")
    case True
    then show ?thesis
      using that [of v'] v' False g ok w by (auto simp: verify_function_def Let_def function_ok_def intro: grows_trans)
  next
    case nok: False
    then show ?thesis
      using that [of ?w] False g ok by (auto simp: verify_function_def Let_def function_ok_def)
  qed
qed

definition grows_text :: "verifier \<Rightarrow> verifier \<Rightarrow> bool" where
  "grows_text v v' \<longleftrightarrow> v_m v' = v_m v \<and> prefix (data (v_errors v)) (data (v_errors v')) \<and>
     (v_ok v' \<longleftrightarrow> v_ok v \<and> data (v_errors v') = data (v_errors v))"

lemma verify_functions_exact:
  "\<exists>v'. verify_functions v fs = Some v' \<and> grows_text v v' \<and>
     (v_ok v' \<longleftrightarrow> v_ok v \<and> list_all (function_ok (v_m v)) fs)"
proof (induction fs arbitrary: v)
  case (Cons f fs)
  obtain w where w: "verify_function v f = Some w" "grows (v\<lparr>v_f := f\<rparr>) w"
      "v_ok w \<longleftrightarrow> v_ok v \<and> function_ok (v_m v) f"
    by (rule verify_function_exact)
  obtain v' where v': "verify_functions w fs = Some v'" "grows_text w v'"
      "v_ok v' \<longleftrightarrow> v_ok w \<and> list_all (function_ok (v_m w)) fs"
    using Cons by blast
  have "grows_text v v'" using w(2) v'(2)
    by (auto simp: grows_def grows_text_def dest: prefix_order.trans prefix_order.antisym)
  moreover have "v_m w = v_m v" using w(2) by (simp add: grows_def)
  ultimately show ?case using w v' by auto
qed (simp add: grows_text_def)

lemma ir_verify_exact:
  obtains good t where "ir_verify m errors = Some (good, t)"
    and "good \<longleftrightarrow> list_all (function_ok m) (m_functions m)"
    and "prefix (data errors) (data t)" and "good \<longleftrightarrow> data t = data errors"
proof -
  let ?v = "\<lparr>v_m = m, v_f = no_function, v_b = no_block, v_errors = errors, v_ok = True\<rparr>"
  obtain v' where "verify_functions ?v (m_functions m) = Some v'" "grows_text ?v v'"
      "v_ok v' \<longleftrightarrow> v_ok ?v \<and> list_all (function_ok (v_m ?v)) (m_functions m)"
    using verify_functions_exact by blast
  then show ?thesis by (intro that [of "v_ok v'" "v_errors v'"]) (simp_all add: ir_verify_def grows_text_def)
qed

section \<open>The properties\<close>

text \<open>
  C17. The verifier always returns: the sets of the data flow loop start full and only shrink.
\<close>

theorem ir_verify_returns: "\<exists>good t. ir_verify m errors = Some (good, t)"
  using ir_verify_exact by metis


text \<open>
  C32. The verifier refuses a module exactly when it appends to the text of the errors, and what was
  there before stays.
\<close>

theorem ir_verify_reports:
  assumes "ir_verify m errors = Some (good, t)"
  shows "prefix (data errors) (data t) \<and> (good \<longleftrightarrow> data t = data errors)"
  using assms ir_verify_exact [of m errors] by (metis option.inject prod.inject)

definition one_function :: "ir_block \<Rightarrow> ir_function" where
  "one_function b = no_function\<lparr>f_module := Some ''m'', f_name := ''f'', f_blocks := [b]\<rparr>"

definition one_function_module :: "ir_block \<Rightarrow> ir_module" where
  "one_function_module b = (ir_module_init ''m'')\<lparr>m_functions := [one_function b],
     m_globals := [\<lparr>g_index = 0, g_module = Some ''m'', g_name = ''g'', g_bytes = [], g_size = 0, g_align = 1,
        g_relocs = [], g_value = None, g_mutable = False, g_exported = False, g_is_extern = False\<rparr>]\<rparr>"

theorem ir_verify_reports_witness:
  "\<exists>t. ir_verify (one_function_module no_block) text_empty = Some (False, t) \<and>
     prefix [] (data t) \<and> \<not> data t = []"
proof -
  obtain t where t: "ir_verify (one_function_module no_block) text_empty = Some (False, t)"
    by (simp add: ir_verify_def one_function_module_def one_function_def ir_module_init_def no_function_def
        no_block_def verify_function_def verify_block_def Let_def)
  from ir_verify_reports [OF t] t show ?thesis by simp
qed

definition bad_call :: ir_block where
  "bad_call = no_block\<lparr>b_insts :=
     [(new_inst IR_CALL IR_VOID None)\<lparr>i_a := IR_FUNC IR_PTR 7, i_args := [IR_TEMP IR_I64 5]\<rparr>,
      new_inst IR_RET IR_VOID None]\<rparr>"

text \<open>No path leads back to the first block, so the only set on a path is that of the parameters.\<close>

lemma reaches_one_function:
  "\<not> jumps_to b 0 \<Longrightarrow> reaches (one_function b) k D \<Longrightarrow> k = 0 \<and> D = {}"
  by (erule reaches.cases) (auto simp: edge_def one_function_def no_function_def param_temps_def)


end
