(* ===== verification/IrPrintProps.thy ===== *)
theory IrPrintProps
  imports IrPrint FoldingProps
begin

text \<open>
  The text form of the IR says what it stands for: an integer reads back as the number its bits
  mean at the width of its type, and an operation has a name of its own.
\<close>

section \<open>Numbers\<close>

definition digit_value :: "char \<Rightarrow> nat" where
  "digit_value c = of_char c - 48"

definition read_nat :: "string \<Rightarrow> nat" where
  "read_nat s = foldl (\<lambda>n c. 10 * n + digit_value c) 0 s"

definition read_int :: "string \<Rightarrow> int" where
  "read_int s = (case s of [] \<Rightarrow> 0 | c # cs \<Rightarrow> if c = CHR ''-'' then - int (read_nat cs) else int (read_nat s))"

lemma digit_char_code: "n < 10 \<Longrightarrow> of_char (digit_char n) = (48 + n :: nat)"
  by (simp add: digit_char.simps)

lemma digit_value_char [simp]: "n < 10 \<Longrightarrow> digit_value (digit_char n) = n"
  by (simp add: digit_value_def digit_char_code)

lemma read_print_nat [simp]: "read_nat (print_nat n) = n"
proof (induction n rule: print_nat.induct)
  case (1 n)
  then show ?case
    by (cases "n < 10") (simp_all add: print_nat.simps [of n] read_nat_def)
qed

lemma print_nat_digit: "\<exists>c s. print_nat n = c # s \<and> c \<noteq> CHR ''-''"
proof (induction n rule: print_nat.induct)
  case (1 n)
  show ?case
  proof (cases "n < 10")
    case True
    have "of_char (digit_char n) \<noteq> (of_char CHR ''-'' :: nat)" by (simp add: digit_char_code True)
    then have "digit_char n \<noteq> CHR ''-''" by metis
    with True show ?thesis by (simp add: print_nat.simps [of n])
  next
    case False
    with 1 show ?thesis by (auto simp: print_nat.simps [of n])
  qed
qed

lemma read_print_int [simp]: "read_int (print_int i) = i"
proof (cases "i < 0")
  case True
  then show ?thesis by (simp add: print_int_def read_int_def)
next
  case False
  obtain c s where "print_nat (nat i) = c # s" "c \<noteq> CHR ''-''" using print_nat_digit by blast
  with False read_print_nat [of "nat i"] show ?thesis by (simp add: print_int_def read_int_def)
qed

lemma sint_sval: "sint (w :: 'a :: len word) = sval LENGTH('a) (unat w)"
proof -
  obtain n where n: "LENGTH('a) = Suc n" by (metis len_gt_0 gr0_implies_Suc)
  have lt: "uint w < 2 ^ Suc n" using uint_lt2p [of w] by (simp add: n)
  have "sint w = take_bit (Suc n) (uint w + 2 ^ n) - 2 ^ n"
    by (simp add: sint_uint n signed_take_bit_eq_take_bit_shift)
  also have "\<dots> = (if uint w < 2 ^ n then uint w else uint w - 2 ^ Suc n)"
  proof (cases "uint w < 2 ^ n")
    case True
    then show ?thesis by (simp add: take_bit_int_eq_self)
  next
    case False
    have "(uint w + 2 ^ n) mod 2 ^ Suc n = (uint w + 2 ^ n - 2 ^ Suc n) mod 2 ^ Suc n"
      by (simp only: minus_mod_self2)
    also have "\<dots> = uint w + 2 ^ n - 2 ^ Suc n"
      using False lt by (intro mod_pos_pos_trivial) auto
    finally have "(uint w + 2 ^ n) mod 2 ^ Suc n = uint w + 2 ^ n - 2 ^ Suc n" .
    with False show ?thesis by (simp add: take_bit_eq_mod)
  qed
  also have "\<dots> = sval LENGTH('a) (unat w)"
  proof -
    have u: "int (unat w) = uint w" by simp
    have "int (unat w) < int (2 ^ n) \<longleftrightarrow> uint w < 2 ^ n" unfolding u by simp
    then have "unat w < 2 ^ n \<longleftrightarrow> uint w < 2 ^ n" by (simp only: of_nat_less_iff)
    then show ?thesis unfolding sval_def u n by simp
  qed
  finally show ?thesis .
qed

lemma unat_narrow: "unat (ucast (v :: u64) :: 'a :: len word) = unat v mod 2 ^ LENGTH('a)"
  by (simp add: unsigned_ucast_eq take_bit_eq_mod)

definition int_types :: "ir_type list" where
  "int_types = [IR_I8, IR_I16, IR_I32, IR_I64, IR_PTR, IR_CLONG, IR_CWCHAR]"

text \<open>
  C31. An integer constant prints as the number that its bits mean at the width of its type: the
  text reads back as that number.
\<close>

theorem print_integer_reads_back:
  assumes "t \<in> set int_types"
  shows "read_int (print_integer t v) = sval (bits t) (unat v mod 2 ^ bits t)"
proof -
  have "unat v mod 2 ^ 64 = unat v" using unsigned_less [of v] by (intro mod_less) simp
  with assms show ?thesis
    by (auto simp: int_types_def print_integer_def bits_def sint_sval unat_narrow)
qed

theorem print_integer_reads_back_witness:
  "read_int (print_integer IR_I8 200) = - 56"
  using print_integer_reads_back [of IR_I8 200] by (simp add: int_types_def bits_def sval_def)

section \<open>Operations\<close>

definition all_ops :: "ir_op list" where
  "all_ops =
     [IR_ADD, IR_SUB, IR_MUL, IR_SDIV, IR_UDIV, IR_SREM, IR_UREM, IR_AND, IR_OR, IR_XOR, IR_SHL,
      IR_SHR_S, IR_SHR_U, IR_FADD, IR_FSUB, IR_FMUL, IR_FDIV, IR_NEG, IR_NOT, IR_FNEG, IR_COPY,
      IR_EQ, IR_NE, IR_SLT, IR_SLE, IR_SGT, IR_SGE, IR_ULT, IR_ULE, IR_UGT, IR_UGE, IR_FEQ, IR_FNE,
      IR_FLT, IR_FLE, IR_FGT, IR_FGE, IR_TRUNC, IR_SEXT, IR_ZEXT, IR_SITOF, IR_UITOF, IR_FTOSI,
      IR_FTOUI, IR_FEXT, IR_FTRUNC, IR_SLOT, IR_LOAD, IR_STORE, IR_PTRADD, IR_MEMCOPY, IR_ADDR,
      IR_BITLOAD, IR_BITSTORE, IR_CALL, IR_JUMP, IR_BRANCH, IR_RET]"

lemma in_all_ops: "op \<in> set all_ops"
  by (cases op) (simp_all add: all_ops_def)

lemma op_names_distinct: "distinct (map ir_op_name all_ops)"
  unfolding all_ops_def ir_op_name_def by simp

text \<open>
  No two operations print alike.
\<close>

theorem ir_op_name_inj: "ir_op_name x = ir_op_name y \<longleftrightarrow> x = y"
  using op_names_distinct in_all_ops [of x] in_all_ops [of y] by (metis distinct_map inj_onD)

section \<open>Relocations\<close>

text \<open>
  C40. A relocation to a function prints the symbol of the global with the index of the function,
  which is another symbol: \<open>ir_print\<close> does not look at \<open>fn\<close>.
\<close>

theorem print_reloc_wrong_symbol:
  "\<exists>m r. r_fn r \<and> r_global r < length (m_functions m) \<and> r_global r < length (m_globals m) \<and>
     print_reloc m r = '' reloc 8 @m.g'' \<and> function_symbol m (r_global r) = ''@m.f''"
proof -
  let ?f = "\<lparr>f_index = 0, f_module = Some ''m'', f_name = ''f'', f_params = [], f_result = IR_VOID,
     f_result_agg = IR_NO_AGG, f_is_extern = False, f_variadic = False, f_exported = False,
     f_blocks = [], f_temps = []\<rparr>"
  let ?g = "\<lparr>g_index = 0, g_module = Some ''m'', g_name = ''g'', g_bytes = [], g_size = 16, g_align = 8,
     g_relocs = [], g_value = None, g_mutable = False, g_exported = False, g_is_extern = False\<rparr>"
  let ?m = "(ir_module_init ''m'')\<lparr>m_functions := [?f], m_globals := [?g]\<rparr>"
  let ?r = "\<lparr>r_offset = 8, r_global = 0, r_fn = True\<rparr>"
  have "print_reloc ?m ?r = '' reloc 8 @m.g''"
    by (simp add: print_reloc_def global_symbol_def print_symbol_def print_nat.simps digit_char.simps char_of_def bit_0)
  moreover have "function_symbol ?m 0 = ''@m.f''" by (simp add: function_symbol_def print_symbol_def)
  ultimately show ?thesis by (intro exI [of _ ?m] exI [of _ ?r]) simp
qed

end
