(* ===== verification/Target.thy ===== *)
theory Target
  imports IrPrint Tokens
begin

text \<open>
  \<open>src/target.c\<close>, the six targets and the symbols of the object files, and \<open>src/modpath.c\<close>, the path
  of a module that a symbol carries. A function that appends to a \<open>struct text\<close> returns what it
  appends. The host that the compiler runs on, which the preprocessor decides, is not modelled.
\<close>

section \<open>Targets\<close>

datatype target =
    TARGET_LINUX_X86_64 | TARGET_LINUX_ARM64 | TARGET_MACOS_X86_64 | TARGET_MACOS_ARM64
  | TARGET_WINDOWS_X86_64 | TARGET_WINDOWS_ARM64 | TARGET_COUNT

datatype target_os = OS_LINUX | OS_MACOS | OS_WINDOWS
datatype target_arch = ARCH_X86_64 | ARCH_ARM64
datatype object_format = FORMAT_ELF | FORMAT_MACHO | FORMAT_COFF

datatype convention =
    CONVENTION_SYSV | CONVENTION_WINDOWS_X64 | CONVENTION_AAPCS64 | CONVENTION_APPLE_ARM64
  | CONVENTION_WINDOWS_ARM64

record target_info_t =
  ti_os :: target_os
  ti_arch :: target_arch
  ti_format :: object_format
  ti_convention :: convention
  ti_triple :: string
  ti_object_suffix :: string
  ti_executable_suffix :: string

text \<open>The value of \<open>enum target\<close>, the index into the tables.\<close>

fun target_index :: "target \<Rightarrow> nat" where
  "target_index TARGET_LINUX_X86_64 = 0"
| "target_index TARGET_LINUX_ARM64 = 1"
| "target_index TARGET_MACOS_X86_64 = 2"
| "target_index TARGET_MACOS_ARM64 = 3"
| "target_index TARGET_WINDOWS_X86_64 = 4"
| "target_index TARGET_WINDOWS_ARM64 = 5"
| "target_index TARGET_COUNT = 6"

definition targets :: "target list" where
  "targets = [TARGET_LINUX_X86_64, TARGET_LINUX_ARM64, TARGET_MACOS_X86_64, TARGET_MACOS_ARM64,
     TARGET_WINDOWS_X86_64, TARGET_WINDOWS_ARM64]"

definition target_names :: "string list" where
  "target_names = [''linux-x86_64'', ''linux-arm64'', ''macos-x86_64'', ''macos-arm64'',
     ''windows-x86_64'', ''windows-arm64'']"

definition infos :: "target_info_t list" where
  "infos =
     [\<lparr>ti_os = OS_LINUX, ti_arch = ARCH_X86_64, ti_format = FORMAT_ELF, ti_convention = CONVENTION_SYSV,
       ti_triple = ''x86_64-unknown-linux-gnu'', ti_object_suffix = ''.o'', ti_executable_suffix = []\<rparr>,
      \<lparr>ti_os = OS_LINUX, ti_arch = ARCH_ARM64, ti_format = FORMAT_ELF, ti_convention = CONVENTION_AAPCS64,
       ti_triple = ''aarch64-unknown-linux-gnu'', ti_object_suffix = ''.o'', ti_executable_suffix = []\<rparr>,
      \<lparr>ti_os = OS_MACOS, ti_arch = ARCH_X86_64, ti_format = FORMAT_MACHO, ti_convention = CONVENTION_SYSV,
       ti_triple = ''x86_64-apple-macos'', ti_object_suffix = ''.o'', ti_executable_suffix = []\<rparr>,
      \<lparr>ti_os = OS_MACOS, ti_arch = ARCH_ARM64, ti_format = FORMAT_MACHO,
       ti_convention = CONVENTION_APPLE_ARM64, ti_triple = ''arm64-apple-macos'',
       ti_object_suffix = ''.o'', ti_executable_suffix = []\<rparr>,
      \<lparr>ti_os = OS_WINDOWS, ti_arch = ARCH_X86_64, ti_format = FORMAT_COFF,
       ti_convention = CONVENTION_WINDOWS_X64, ti_triple = ''x86_64-pc-windows-msvc'',
       ti_object_suffix = ''.obj'', ti_executable_suffix = ''.exe''\<rparr>,
      \<lparr>ti_os = OS_WINDOWS, ti_arch = ARCH_ARM64, ti_format = FORMAT_COFF,
       ti_convention = CONVENTION_WINDOWS_ARM64, ti_triple = ''aarch64-pc-windows-msvc'',
       ti_object_suffix = ''.obj'', ti_executable_suffix = ''.exe''\<rparr>]"

definition target_name :: "target \<Rightarrow> string" where
  "target_name t = target_names ! target_index t"

definition target_info :: "target \<Rightarrow> target_info_t" where
  "target_info t = infos ! target_index t"

definition object_format_name :: "object_format \<Rightarrow> string" where
  "object_format_name fmt =
     (case fmt of FORMAT_ELF \<Rightarrow> ''ELF'' | FORMAT_MACHO \<Rightarrow> ''Mach-O'' | FORMAT_COFF \<Rightarrow> ''COFF'')"

definition convention_name :: "convention \<Rightarrow> string" where
  "convention_name c =
     (case c of
        CONVENTION_SYSV \<Rightarrow> ''System V AMD64'' | CONVENTION_WINDOWS_X64 \<Rightarrow> ''Windows x64''
      | CONVENTION_AAPCS64 \<Rightarrow> ''AAPCS64'' | CONVENTION_APPLE_ARM64 \<Rightarrow> ''Apple ARM64''
      | CONVENTION_WINDOWS_ARM64 \<Rightarrow> ''Windows ARM64'')"

definition target_from_name :: "string \<Rightarrow> target option" where
  "target_from_name name = List.find (\<lambda>t. name = target_name t) targets"

section \<open>Symbols\<close>

text \<open>The loop over the segments of a module path: the length of each before it.\<close>

function coff_segments :: "string \<Rightarrow> string" where
  "coff_segments md =
     (if md = [] then []
      else
        let n = length (takeWhile (\<lambda>c. c \<noteq> CHR ''.'') md)
        in print_nat n @ take n md @
           coff_segments (drop (n + (if n < length md \<and> md ! n = CHR ''.'' then 1 else 0)) md))"
  by pat_completeness auto
termination
proof (relation "measure length", goal_cases)
  case (2 md n)
  then show ?case by (cases md) (auto simp: nth_length_takeWhile)
qed simp

declare coff_segments.simps [simp del]

text \<open>\<open>None\<close> is the result \<open>false\<close>, for a number that names no target.\<close>

definition mangle :: "target \<Rightarrow> string \<Rightarrow> string \<Rightarrow> string option" where
  "mangle t module name =
     (if target_index t \<ge> target_index TARGET_COUNT then None
      else Some
        (case ti_format (target_info t) of
           FORMAT_MACHO \<Rightarrow> ''_'' @ module @ ''.'' @ name
         | FORMAT_ELF \<Rightarrow> module @ ''.'' @ name
         | FORMAT_COFF \<Rightarrow> ''_A'' @ coff_segments module @ ''_'' @ name))"

definition c_symbol :: "target \<Rightarrow> string \<Rightarrow> string" where
  "c_symbol t name =
     (if ti_format (target_info t) = FORMAT_MACHO then ''_'' else []) @
     map (\<lambda>c. if c = CHR ''.'' then CHR ''_'' else c) name"

definition block_label :: "target \<Rightarrow> string \<Rightarrow> nat \<Rightarrow> string" where
  "block_label t fn block =
     (if ti_format (target_info t) = FORMAT_MACHO then ''L'' else ''.L'') @ fn @ ''.b'' @ print_nat block"

section \<open>Module paths\<close>

definition is_lower_char :: "char \<Rightarrow> bool" where
  "is_lower_char c \<longleftrightarrow> 
     (ascii CHR ''a'' \<le> ascii c \<and> ascii c \<le> ascii CHR ''z'') \<or>
     (ascii CHR ''0'' \<le> ascii c \<and> ascii c \<le> ascii CHR ''9'') \<or> c = CHR ''_''"

definition is_lower_identifier :: "string \<Rightarrow> bool" where
  "is_lower_identifier s \<longleftrightarrow>
     \<not> (s = [] \<or> (ascii CHR ''0'' \<le> ascii (hd s) \<and> ascii (hd s) \<le> ascii CHR ''9'')) \<and> list_all is_lower_char s"

definition strip_slashes :: "string \<Rightarrow> string" where
  "strip_slashes root = rev (dropWhile (\<lambda>c. c = CHR ''/'') (rev root))"

text \<open>The part of the source under a root.\<close>

definition under :: "string \<Rightarrow> string \<Rightarrow> string option" where
  "under source root =
     (let r = strip_slashes root; n = length r
      in if r = [] \<or> take n source \<noteq> r \<or> \<not> (n < length source \<and> source ! n = CHR ''/'') then None
         else Some (drop (n + 1) source))"

fun under_any :: "string \<Rightarrow> string list \<Rightarrow> string option" where
  "under_any source [] = None"
| "under_any source (root # roots) =
     (case under source root of Some r \<Rightarrow> Some r | None \<Rightarrow> under_any source roots)"

definition after_last :: "char \<Rightarrow> string \<Rightarrow> string" where
  "after_last c s = rev (takeWhile (\<lambda>d. d \<noteq> c) (rev s))"

text \<open>The bytes between \<open>rest\<close> and \<open>end\<close>: under the first root or the file name, without the suffix.\<close>

definition has_suffix :: "string \<Rightarrow> bool" where
  "has_suffix source \<longleftrightarrow> CHR ''.'' \<in> set source \<and> after_last CHR ''.'' source = ''anti''"

definition module_stem :: "string \<Rightarrow> string list \<Rightarrow> string" where
  "module_stem source roots =
     (let rest = (case under_any source roots of Some r \<Rightarrow> r | None \<Rightarrow> after_last CHR ''/'' source)
      in if has_suffix source then take (length rest - 5) rest else rest)"

definition segment_error :: "string \<Rightarrow> string \<Rightarrow> string option" where
  "segment_error source s =
     (if \<not> is_lower_identifier s
      then Some (''`'' @ s @ ''` in '' @ source @ '' is not a lowercase identifier'')
      else if lexer_is_keyword (bytes_of s) then Some (''`'' @ s @ ''` in '' @ source @ '' is a keyword'')
      else None)"

function path_loop :: "string \<Rightarrow> string \<Rightarrow> string \<Rightarrow> string + string" where
  "path_loop source rest buf =
     (if rest = [] then Inr buf
      else
        let s = takeWhile (\<lambda>c. c \<noteq> CHR ''/'') rest
        in case segment_error source s of
             Some e \<Rightarrow> Inl e
           | None \<Rightarrow>
               path_loop source (drop (length s + 1) rest) (buf @ (if buf \<noteq> [] then ''.'' else []) @ s))"
  by pat_completeness auto
termination
  by (relation "measure (\<lambda>(source, rest, buf). length rest)") auto

declare path_loop.simps [simp del]

text \<open>\<open>Inl\<close> is the message in a buffer of \<open>error_size\<close> bytes, \<open>Inr\<close> the text \<open>out\<close> with the path.\<close>

definition module_path_of_source ::
  "string \<Rightarrow> string list \<Rightarrow> string \<Rightarrow> nat \<Rightarrow> string + string" where
  "module_path_of_source source roots buf error_size =
     (case path_loop source (module_stem source roots) buf of
        Inl e \<Rightarrow> Inl (take (error_size - 1) e)
      | Inr path \<Rightarrow> Inr path)"

definition module_path_reserved :: "string \<Rightarrow> bool" where
  "module_path_reserved path \<longleftrightarrow>
     take 4 path = ''anti'' \<and> (length path = 4 \<or> path ! 4 = CHR ''.'')"

definition module_path_segments :: "string \<Rightarrow> nat" where
  "module_path_segments path = 1 + length (filter (\<lambda>c. c = CHR ''.'') path)"

definition module_path_last :: "string \<Rightarrow> string" where
  "module_path_last path = (if CHR ''.'' \<in> set path then after_last CHR ''.'' path else path)"

end
