(* ===== verification/TargetProps.thy ===== *)
theory TargetProps
  imports Target IrPrintProps
begin

text \<open>
  A module path is lowercase identifiers joined by dots, and the symbol of a function tells the
  module and the name apart, as long as the name holds no dot. A method has one, and then ELF and
  Mach-O give two functions one symbol.
\<close>

section \<open>Paths\<close>

function path_segments :: "string \<Rightarrow> string list" where
  "path_segments s =
     (if s = [] then []
      else let seg = takeWhile (\<lambda>c. c \<noteq> CHR ''/'') s in seg # path_segments (drop (length seg + 1) s))"
  by pat_completeness auto
termination
  by (relation "measure length") auto

declare path_segments.simps [simp del]

definition join_dots :: "string list \<Rightarrow> string" where
  "join_dots segs =
     (case segs of [] \<Rightarrow> [] | s # ss \<Rightarrow> s @ concat (map (\<lambda>s. CHR ''.'' # s) ss))"

definition good_segment :: "string \<Rightarrow> bool" where
  "good_segment s \<longleftrightarrow> is_lower_identifier s \<and> \<not> lexer_is_keyword (bytes_of s)"

definition source_segments :: "string \<Rightarrow> string list \<Rightarrow> string list" where
  "source_segments source roots = path_segments (module_stem source roots)"

lemma segment_error_None: "segment_error source s = None \<longleftrightarrow> good_segment s"
  by (simp add: segment_error_def good_segment_def)

lemma good_nonempty: "good_segment s \<Longrightarrow> s \<noteq> []"
  by (auto simp: good_segment_def is_lower_identifier_def)

definition add_segments :: "string \<Rightarrow> string list \<Rightarrow> string" where
  "add_segments buf segs =
     (if buf = [] then join_dots segs else buf @ concat (map (\<lambda>s. CHR ''.'' # s) segs))"

lemma path_loop_Inr:
  "path_loop source rest buf = Inr p \<longleftrightarrow>
     list_all good_segment (path_segments rest) \<and> p = add_segments buf (path_segments rest)"
proof (induction source rest buf rule: path_loop.induct)
  case (1 source rest buf)
  show ?case
  proof (cases "rest = []")
    case True
    then show ?thesis
      by (auto simp: path_loop.simps [of source "[]" buf] path_segments.simps [of "[]"] add_segments_def join_dots_def)
  next
    case False
    let ?s = "takeWhile (\<lambda>c. c \<noteq> CHR ''/'') rest"
    have segs: "path_segments rest = ?s # path_segments (drop (length ?s + 1) rest)"
      using False by (simp add: path_segments.simps [of rest] Let_def)
    show ?thesis
    proof (cases "segment_error source ?s")
      case None
      then have "?s \<noteq> []" using good_nonempty segment_error_None by blast
      then have "add_segments (buf @ (if buf \<noteq> [] then ''.'' else []) @ ?s) ss = add_segments buf (?s # ss)" for ss
        by (simp add: add_segments_def join_dots_def)
      moreover have "path_loop source rest buf =
          path_loop source (drop (length ?s + 1) rest) (buf @ (if buf \<noteq> [] then ''.'' else []) @ ?s)"
        using None False by (simp add: path_loop.simps [of source rest buf] Let_def)
      ultimately show ?thesis
        using 1 [OF False refl None] segs None segment_error_None [of source ?s] by simp
    next
      case (Some e)
      with segment_error_None [of source ?s] False segs show ?thesis
        by (simp add: path_loop.simps [of source rest buf] Let_def)
    qed
  qed
qed


section \<open>Symbols\<close>

definition is_digit_char :: "char \<Rightarrow> bool" where
  "is_digit_char c \<longleftrightarrow> (48 :: nat) \<le> of_char c \<and> of_char c \<le> (57 :: nat)"

lemma print_nat_digits: "list_all is_digit_char (print_nat n)"
proof (induction n rule: print_nat.induct)
  case (1 n)
  have "is_digit_char (digit_char m)" if "m < 10" for m
    using that by (simp add: is_digit_char_def digit_char_code)
  with 1 show ?case by (simp add: print_nat.simps [of n])
qed

lemma print_nat_inj: "print_nat m = print_nat n \<Longrightarrow> m = n"
  by (metis read_print_nat)

lemma good_segment_chars:
  assumes "good_segment s"
  shows "CHR ''.'' \<notin> set s" and "\<exists>c cs. s = c # cs \<and> \<not> is_digit_char c"
proof -
  from assms have l: "is_lower_identifier s" by (simp add: good_segment_def)
  then show "CHR ''.'' \<notin> set s"
    by (auto simp: is_lower_identifier_def is_lower_char_def list_all_iff ascii_def)
  from l obtain c cs where s: "s = c # cs" by (cases s) (auto simp: is_lower_identifier_def)
  have "(48 :: nat) \<le> of_char c \<longleftrightarrow> (48 :: int) \<le> of_char c" "of_char c \<le> (57 :: nat) \<longleftrightarrow> of_char c \<le> (57 :: int)"
    using of_nat_of_char [of c, where 'a = int] by linarith+
  with l s show "\<exists>c cs. s = c # cs \<and> \<not> is_digit_char c"
    by (auto simp: is_lower_identifier_def is_digit_char_def ascii_def)
qed

definition coff_text :: "string list \<Rightarrow> string" where
  "coff_text segs = concat (map (\<lambda>s. print_nat (length s) @ s) segs)"

lemma coff_segments_dots:
  "list_all good_segment ss \<Longrightarrow> s \<noteq> [] \<Longrightarrow> CHR ''.'' \<notin> set s \<Longrightarrow>
     coff_segments (s @ concat (map (\<lambda>s. CHR ''.'' # s) ss)) = coff_text (s # ss)"
proof (induction ss arbitrary: s)
  case Nil
  then have tw: "takeWhile (\<lambda>c. c \<noteq> CHR ''.'') s = s" by (auto simp: takeWhile_eq_all_conv)
  with Nil show ?case by (simp add: tw coff_segments.simps [of s] coff_segments.simps [of "[]"] coff_text_def Let_def)
next
  case (Cons t ss)
  let ?r = "concat (map (\<lambda>s. CHR ''.'' # s) ss)"
  have "takeWhile (\<lambda>c. c \<noteq> CHR ''.'') (s @ CHR ''.'' # t @ ?r) = s"
    using Cons.prems by (subst takeWhile_append2) auto
  moreover have "coff_segments (t @ ?r) = coff_text (t # ss)"
    using Cons.IH [of t] Cons.prems good_segment_chars by (auto simp: good_nonempty)
  ultimately show ?case
    using Cons.prems by (simp add: coff_segments.simps [of "s @ CHR ''.'' # t @ ?r"] coff_text_def Let_def)
qed

lemma coff_segments_join: "list_all good_segment segs \<Longrightarrow> coff_segments (join_dots segs) = coff_text segs"
proof (cases segs)
  case Nil
  then show ?thesis by (simp add: join_dots_def coff_segments.simps [of "[]"] coff_text_def Let_def)
next
  case (Cons s ss)
  moreover assume "list_all good_segment segs"
  ultimately show ?thesis
    using coff_segments_dots [of ss s] good_segment_chars good_nonempty by (simp add: join_dots_def)
qed

lemma coff_head:
  assumes "good_segment s"
  shows "takeWhile is_digit_char (print_nat n @ s @ rest) = print_nat n"
proof -
  obtain c cs where "s = c # cs" "\<not> is_digit_char c" using good_segment_chars(2) [OF assms] by blast
  moreover have "\<forall>c\<in>set (print_nat n). is_digit_char c" using print_nat_digits [of n] by (simp add: list_all_iff)
  ultimately show ?thesis by (subst takeWhile_append2) auto
qed

lemma coff_inj:
  "list_all good_segment ss \<Longrightarrow> list_all good_segment ts \<Longrightarrow>
     coff_text ss @ ''_'' @ x = coff_text ts @ ''_'' @ y \<Longrightarrow> ss = ts \<and> x = y"
proof (induction ss arbitrary: ts)
  case Nil
  show ?case
  proof (cases ts)
    case Nil
    with Nil.prems show ?thesis by (simp add: coff_text_def)
  next
    case (Cons t ts')
    obtain c cs where c: "print_nat (length t) = c # cs" using print_nat_digit by blast
    then have "is_digit_char c" using print_nat_digits [of "length t"] by simp
    moreover have "c = CHR ''_''" using Nil.prems Cons c by (simp add: coff_text_def)
    ultimately show ?thesis by (simp add: is_digit_char_def)
  qed
next
  case (Cons s ss)
  show ?case
  proof (cases ts)
    case Nil
    obtain c cs where c: "print_nat (length s) = c # cs" using print_nat_digit by blast
    then have "is_digit_char c" using print_nat_digits [of "length s"] by simp
    moreover have "c = CHR ''_''" using Cons.prems Nil c by (simp add: coff_text_def)
    ultimately show ?thesis by (simp add: is_digit_char_def)
  next
    case (Cons t ts')
    let ?a = "coff_text ss @ ''_'' @ x" let ?b = "coff_text ts' @ ''_'' @ y"
    have g: "good_segment s" "good_segment t" using Cons.prems \<open>ts = t # ts'\<close> by simp_all
    have eq: "print_nat (length s) @ s @ ?a = print_nat (length t) @ t @ ?b"
      using Cons.prems(3) \<open>ts = t # ts'\<close> by (simp add: coff_text_def)
    have "print_nat (length s) = print_nat (length t)"
      using arg_cong [OF eq, of "takeWhile is_digit_char"] coff_head [OF g(1)] coff_head [OF g(2)] by metis
    then have "length s = length t" by (rule print_nat_inj)
    with eq have "s = t" "?a = ?b" by simp_all
    with Cons.IH [of ts'] Cons.prems \<open>ts = t # ts'\<close> show ?thesis by simp
  qed
qed

lemma after_dot_inj:
  assumes "CHR ''.'' \<notin> set x" and "CHR ''.'' \<notin> set y" and "ms @ ''.'' @ x = ns @ ''.'' @ y"
  shows "ms = ns \<and> x = y"
proof -
  have rev: "takeWhile (\<lambda>c. c \<noteq> CHR ''.'') (rev (us @ ''.'' @ z)) = rev z" if "CHR ''.'' \<notin> set z" for us z
    using that by (simp del: takeWhile_eq_Nil_iff) (subst takeWhile_append2, auto)
  from rev [OF assms(1), of ms] rev [OF assms(2), of ns] assms(3) have "rev x = rev y" by metis
  with assms(3) show ?thesis by simp
qed



text \<open>
  C38. A method is named after its type with a dot. On ELF and on Mach-O the method \<open>push\<close> of the
  type \<open>vec\<close> of module \<open>geo\<close> and the function \<open>push\<close> of module \<open>geo.vec\<close> get one symbol. On COFF they
  get two, but the one of the method holds a dot.
\<close>

theorem mangle_collides:
  "mangle TARGET_LINUX_X86_64 ''geo'' ''vec.push'' = mangle TARGET_LINUX_X86_64 ''geo.vec'' ''push'' \<and>
   mangle TARGET_MACOS_ARM64 ''geo'' ''vec.push'' = mangle TARGET_MACOS_ARM64 ''geo.vec'' ''push'' \<and>
   list_all good_segment [''geo'', ''vec''] \<and>
   mangle TARGET_WINDOWS_X86_64 ''geo'' ''vec.push'' = Some ''_A3geo_vec.push'' \<and>
   mangle TARGET_WINDOWS_X86_64 ''geo.vec'' ''push'' = Some ''_A3geo3vec_push''"
proof -
  have three: "print_nat (Suc (Suc (Suc 0))) = ''3''" by code_simp
  have "coff_segments ''geo'' = ''3geo''" "coff_segments ''geo.vec'' = ''3geo3vec''"
    by (simp_all add: coff_segments.simps [of "''geo''"] coff_segments.simps [of "''geo.vec''"]
        coff_segments.simps [of "''vec''"] coff_segments.simps [of "[]"] Let_def three)
  moreover have "list_all good_segment [''geo'', ''vec'']" by code_simp
  ultimately show ?thesis by (simp add: mangle_def target_info_def infos_def)
qed

end
