(* ===== verification/Layout.thy ===== *)
theory Layout
  imports Target Folding "HOL-Library.Monad_Syntax"
begin

text \<open>
  \<open>src/layout.c\<close>: the layout of the aggregates on a target and the symbolic values. The tables are a
  record that the operations pass along. \<open>compute\<close>, \<open>layout_fold\<close> and \<open>flatten\<close> call each other
  without a bound in the source, so the model bounds the depth of the calls and gives \<open>None\<close> past it.
  The placement of one field calls none of them and is a function of its own.

  What \<open>compute\<close> writes through \<open>out\<close> in its loop over the fields reaches the table when the loop ends:
  only a module that has failed already, with an aggregate that depends on itself, reads it sooner.

  Sizes and offsets are \<open>uint64_t\<close> and wrap. A quotient of the least \<open>int64_t\<close> by -1 is undefined in C;
  here it wraps, as the division of ARM64 does.
\<close>

section \<open>Data\<close>

record layout_member =
  lm_offset :: u64
  lm_type :: ir_type

record layout_bits =
  lb_pos :: u64
  lb_unit_offset :: u64
  lb_unit_type :: ir_type
  lb_shift :: nat

record layout =
  lo_size :: u64
  lo_align :: u64
  lo_offsets :: "u64 list"
  lo_bits :: "layout_bits list"
  lo_members :: "layout_member list"
  lo_unaligned :: bool

definition LAYOUT_MEMBER_LIMIT :: nat where
  "LAYOUT_MEMBER_LIMIT = 32"

datatype visit_state = UNSEEN | BUSY | DONE

record layouts =
  l_target :: target
  l_m :: ir_module
  l_aggs :: "layout list"
  l_agg_state :: "visit_state list"
  l_values :: "u64 list"
  l_sym_state :: "visit_state list"
  l_error :: string
  l_error_size :: nat
  l_failed :: bool

definition layout_fail :: "layouts \<Rightarrow> string \<Rightarrow> layouts" where
  "layout_fail l message =
     (if l_failed l then l else l\<lparr>l_error := take (l_error_size l - 1) message, l_failed := True\<rparr>)"

section \<open>Scalars\<close>

definition on_windows :: "target \<Rightarrow> bool" where
  "on_windows t \<longleftrightarrow> ti_os (target_info t) = OS_WINDOWS"

definition target_type :: "target \<Rightarrow> ir_type \<Rightarrow> ir_type" where
  "target_type t ty =
     (if ty = IR_CLONG then (if on_windows t then IR_I32 else IR_I64)
      else if ty = IR_CWCHAR then (if on_windows t then IR_I16 else IR_I32)
      else ty)"

definition scalar_size :: "target \<Rightarrow> ir_type \<Rightarrow> u64" where
  "scalar_size t ty =
     (case target_type t ty of IR_I8 \<Rightarrow> 1 | IR_I16 \<Rightarrow> 2 | IR_I32 \<Rightarrow> 4 | IR_F32 \<Rightarrow> 4 | _ \<Rightarrow> 8)"

definition round_up :: "u64 \<Rightarrow> u64 \<Rightarrow> u64" where
  "round_up n align = (n + align - 1) div align * align"

definition is_unit_break :: "ir_field \<Rightarrow> bool" where
  "is_unit_break fd \<longleftrightarrow> fd_name fd = Some ''_''"

section \<open>Placement of the fields\<close>

text \<open>The variables of \<open>compute\<close> that its loop over the fields changes.\<close>

record placing =
  pl_bit :: u64
  pl_align :: u64
  pl_unit_start :: u64
  pl_unit_size :: u64
  pl_unit_used :: u64
  pl_offsets :: "u64 list"
  pl_bits :: "layout_bits list"
  pl_unaligned :: bool

definition no_bits :: layout_bits where
  "no_bits = \<lparr>lb_pos = 0, lb_unit_offset = 0, lb_unit_type = IR_VOID, lb_shift = 0\<rparr>"

definition placing_start :: "nat \<Rightarrow> placing" where
  "placing_start n =
     \<lparr>pl_bit = 0, pl_align = 1, pl_unit_start = 0, pl_unit_size = 0, pl_unit_used = 0,
      pl_offsets = replicate n 0, pl_bits = replicate n no_bits, pl_unaligned = False\<rparr>"

definition set_offset :: "nat \<Rightarrow> u64 \<Rightarrow> placing \<Rightarrow> placing" where
  "set_offset i off st = st\<lparr>pl_offsets := (pl_offsets st)[i := off]\<rparr>"

definition set_pos :: "nat \<Rightarrow> u64 \<Rightarrow> placing \<Rightarrow> placing" where
  "set_pos i p st = st\<lparr>pl_bits := (pl_bits st)[i := (pl_bits st ! i)\<lparr>lb_pos := p\<rparr>]\<rparr>"

text \<open>A zero-width bitfield.\<close>

definition place_break :: "target \<Rightarrow> nat \<Rightarrow> u64 \<Rightarrow> u64 \<Rightarrow> placing \<Rightarrow> placing" where
  "place_break t i natural field_align st =
     (let aapcs64 = (ti_os (target_info t) = OS_LINUX \<and> ti_arch (target_info t) = ARCH_ARM64);
          st = (if \<not> on_windows t
                then st\<lparr>pl_bit := round_up (pl_bit st) (natural * 8),
                        pl_align := (if aapcs64 \<and> natural > pl_align st then natural else pl_align st)\<rparr>
                else if pl_unit_size st \<noteq> 0
                then st\<lparr>pl_bit := round_up ((pl_bit st + 7) div 8) field_align * 8,
                        pl_align := (if field_align > pl_align st then field_align else pl_align st),
                        pl_unit_size := 0\<rparr>
                else st)
      in set_offset i (pl_bit st div 8) st)"

text \<open>A field of a struct: a plain one, or a bitfield by the rule of the target's C compiler.\<close>

definition place_in_struct ::
  "target \<Rightarrow> bool \<Rightarrow> nat \<Rightarrow> u64 \<Rightarrow> u64 \<Rightarrow> u64 \<Rightarrow> u64 \<Rightarrow> placing \<Rightarrow> placing" where
  "place_in_struct t packed i width sz natural field_align st =
     (if width = 0 then
        let off = round_up ((pl_bit st + 7) div 8) field_align
        in (set_offset i off st)\<lparr>pl_unit_size := 0, pl_bit := (off + sz) * 8\<rparr>
      else if on_windows t \<and> pl_unit_size st = sz \<and> pl_unit_used st + width \<le> sz * 8 then
        (set_pos i (pl_unit_start st + pl_unit_used st) st)\<lparr>pl_unit_used := pl_unit_used st + width\<rparr>
      else if on_windows t then
        let start = round_up ((pl_bit st + 7) div 8) field_align * 8
        in (set_pos i start st)\<lparr>pl_unit_start := start, pl_unit_size := sz, pl_unit_used := width,
             pl_bit := start + sz * 8\<rparr>
      else
        let at_bit = (if \<not> packed \<and> pl_bit st mod (natural * 8) + width > sz * 8
                   then round_up (pl_bit st) (natural * 8) else pl_bit st)
        in (set_pos i at_bit st)\<lparr>pl_bit := at_bit + width\<rparr>)"

text \<open>
  One turn of the loop: the field \<open>i\<close> of the aggregate, with the size and the alignment of its type
  and whether that type is an aggregate with a field off its alignment.
\<close>

definition place_field ::
  "target \<Rightarrow> ir_aggtype \<Rightarrow> nat \<Rightarrow> u64 \<Rightarrow> u64 \<Rightarrow> bool \<Rightarrow> placing \<Rightarrow> placing" where
  "place_field t agg i sz natural nested st =
     (let fd = agg_fields agg ! i; width = of_nat (fd_bits fd);
          field_align = (if agg_packed agg then 1 else natural)
      in if is_unit_break fd then place_break t i natural field_align st
         else
           let in_union = (agg_kind agg = IR_AGG_UNION);
               stop = (if in_union then if width = 0 \<or> on_windows t then sz * 8 else width else 0);
               st = (if in_union then set_offset i 0 st
                     else place_in_struct t (agg_packed agg) i width sz natural field_align st);
               st = (if width \<noteq> 0 \<and> \<not> in_union then set_offset i (lb_pos (pl_bits st ! i) div 8) st else st)
           in st\<lparr>pl_bit := (if stop > pl_bit st then stop else pl_bit st),
                 pl_align := (if field_align > pl_align st then field_align else pl_align st),
                 pl_unaligned := pl_unaligned st \<or>
                   (width = 0 \<and> pl_offsets st ! i mod natural \<noteq> 0) \<or> nested\<rparr>)"

section \<open>Bitfield units\<close>

definition unit_bytes :: "u64 \<Rightarrow> u64" where
  "unit_bytes need = (if need \<le> 1 then 1 else if need \<le> 2 then 2 else if need \<le> 4 then 4 else 8)"

text \<open>\<open>Inl\<close> is the error, and \<open>Inr\<close> the layout with the unit of field \<open>i\<close>.\<close>

definition bit_unit :: "target \<Rightarrow> ir_aggtype \<Rightarrow> layout \<Rightarrow> nat \<Rightarrow> string + layout" where
  "bit_unit t agg lo i =
     (let fd = agg_fields agg ! i; b = lo_bits lo ! i;
          need = (lb_pos b mod 8 + of_nat (fd_bits fd) + 7) div 8; bytes = unit_bytes need
      in if need > 8
         then Inl (''the bitfield `'' @ print_name (fd_name fd) @ ''` of `'' @ agg_name agg @
                ''` spans more than 8 bytes on '' @ target_name t)
         else
           let off = lb_pos b div 8;
               off = (if off + bytes > lo_size lo then lo_size lo - bytes else off)
           in Inr (lo\<lparr>lo_bits := (lo_bits lo)[i :=
                b\<lparr>lb_unit_offset := off,
                  lb_unit_type := (if bytes = 1 then IR_I8 else if bytes = 2 then IR_I16
                                   else if bytes = 4 then IR_I32 else IR_I64),
                  lb_shift := unat (lb_pos b - off * 8) mod 256\<rparr>]\<rparr>))"

fun bit_units :: "target \<Rightarrow> ir_aggtype \<Rightarrow> layouts \<Rightarrow> layout \<Rightarrow> nat list \<Rightarrow> layouts \<times> layout" where
  "bit_units t agg l lo [] = (l, lo)"
| "bit_units t agg l lo (i # rest) =
     (if fd_bits (agg_fields agg ! i) = 0 then bit_units t agg l lo rest
      else (case bit_unit t agg lo i of
              Inl e \<Rightarrow> (layout_fail l e, lo)
            | Inr lo \<Rightarrow> bit_units t agg l lo rest))"

section \<open>Folding\<close>

definition fold_value :: "ir_op \<Rightarrow> ir_type \<Rightarrow> u64 \<Rightarrow> u64 \<Rightarrow> u64 option" where
  "fold_value op ty a b =
     (let x = signed_value ty a; y = signed_value ty b; n = unat b mod 64
      in case op of
           IR_ADD \<Rightarrow> Some (a + b) | IR_SUB \<Rightarrow> Some (a - b) | IR_MUL \<Rightarrow> Some (a * b)
         | IR_SDIV \<Rightarrow> Some (word_of_int (x sdiv y))
         | IR_UDIV \<Rightarrow> Some (trim ty a div trim ty b)
         | IR_SREM \<Rightarrow> Some (word_of_int (x smod y))
         | IR_UREM \<Rightarrow> Some (trim ty a mod trim ty b)
         | IR_AND \<Rightarrow> Some (a AND b) | IR_OR \<Rightarrow> Some (a OR b) | IR_XOR \<Rightarrow> Some (a XOR b)
         | IR_SHL \<Rightarrow> Some (push_bit n a)
         | IR_SHR_S \<Rightarrow> Some (word_of_int (x div 2 ^ n))
         | IR_SHR_U \<Rightarrow> Some (drop_bit n (trim ty a))
         | IR_NEG \<Rightarrow> Some (- a) | IR_NOT \<Rightarrow> Some (NOT a)
         | IR_EQ \<Rightarrow> Some (of_cond (trim ty a = trim ty b))
         | IR_NE \<Rightarrow> Some (of_cond (trim ty a \<noteq> trim ty b))
         | IR_SLT \<Rightarrow> Some (of_cond (x < y)) | IR_SLE \<Rightarrow> Some (of_cond (x \<le> y))
         | IR_SGT \<Rightarrow> Some (of_cond (x > y)) | IR_SGE \<Rightarrow> Some (of_cond (x \<ge> y))
         | IR_ULT \<Rightarrow> Some (of_cond (trim ty a < trim ty b))
         | IR_ULE \<Rightarrow> Some (of_cond (trim ty a \<le> trim ty b))
         | IR_UGT \<Rightarrow> Some (of_cond (trim ty a > trim ty b))
         | IR_UGE \<Rightarrow> Some (of_cond (trim ty a \<ge> trim ty b))
         | IR_TRUNC \<Rightarrow> Some (trim ty a) | IR_ZEXT \<Rightarrow> Some (trim ty a)
         | IR_SEXT \<Rightarrow> Some (word_of_int x)
         | _ \<Rightarrow> None)"

definition fold_op :: "target \<Rightarrow> ir_sym \<Rightarrow> ir_type \<Rightarrow> u64 \<Rightarrow> u64 \<Rightarrow> string + u64" where
  "fold_op t s ty a b =
     (if sy_op s \<in> {IR_SDIV, IR_UDIV, IR_SREM, IR_UREM} \<and> trim ty b = 0
      then Inl (''a size expression divides by zero on '' @ target_name t)
      else (case fold_value (sy_op s) ty a b of
              None \<Rightarrow> Inl (''a size expression uses `'' @ ir_op_name (sy_op s) @ ''`, which does not fold'')
            | Some v \<Rightarrow> Inr (trim (target_type t (sy_type s)) v)))"

section \<open>Layouts, symbolic values and members\<close>

definition size_in :: "layouts \<Rightarrow> ir_vtype \<Rightarrow> u64" where
  "size_in l v = (if vt_type v = IR_AGG then lo_size (l_aggs l ! vt_agg v) else scalar_size (l_target l) (vt_type v))"

definition align_in :: "layouts \<Rightarrow> ir_vtype \<Rightarrow> u64" where
  "align_in l v = (if vt_type v = IR_AGG then lo_align (l_aggs l ! vt_agg v) else scalar_size (l_target l) (vt_type v))"

definition unaligned_in :: "layouts \<Rightarrow> ir_vtype \<Rightarrow> bool" where
  "unaligned_in l v \<longleftrightarrow> vt_type v = IR_AGG \<and> lo_unaligned (l_aggs l ! vt_agg v)"

definition set_state :: "layouts \<Rightarrow> nat \<Rightarrow> visit_state \<Rightarrow> layouts" where
  "set_state l agg s = l\<lparr>l_agg_state := (l_agg_state l)[agg := s]\<rparr>"

definition set_layout :: "layouts \<Rightarrow> nat \<Rightarrow> layout \<Rightarrow> layouts" where
  "set_layout l agg lo = l\<lparr>l_aggs := (l_aggs l)[agg := lo]\<rparr>"

definition add_member :: "target \<Rightarrow> layout_member list \<Rightarrow> ir_type \<Rightarrow> u64 \<Rightarrow> layout_member list" where
  "add_member t ms ty off =
     (let m = \<lparr>lm_offset = off, lm_type = target_type t ty\<rparr>
      in if m \<in> set ms then ms
         else if length ms < LAYOUT_MEMBER_LIMIT then ms @ [m] else ms)"

text \<open>The end of \<open>compute\<close>: the alignment that \<open>align(N)\<close> asks for, the size, and the units.\<close>

definition finish_layout :: "layouts \<Rightarrow> nat \<Rightarrow> u64 \<Rightarrow> u64 \<Rightarrow> layout \<Rightarrow> layouts" where
  "finish_layout l agg at_bit align lo =
     (let t = m_aggs (l_m l) ! agg;
          below = (agg_align t \<noteq> 0 \<and> agg_align t < align);
          l = (if below
               then layout_fail l (''`'' @ agg_name t @ ''` has align('' @ print_nat (unat (agg_align t)) @
                      ''), below its alignment '' @ print_nat (unat align) @ '' on '' @ target_name (l_target l))
               else l);
          align = (if \<not> below \<and> agg_align t > align then agg_align t else align);
          lo = lo\<lparr>lo_align := align, lo_size := round_up ((at_bit + 7) div 8) align\<rparr>
      in case bit_units (l_target l) t l lo
                (if agg_kind t = IR_AGG_ARRAY then [] else [0..<length (agg_fields t)]) of
           (l, lo) \<Rightarrow> set_state (set_layout l agg lo) agg DONE)"

text \<open>The length of an array, with the error for a length below 1.\<close>

definition array_length :: "layouts \<Rightarrow> ir_aggtype \<Rightarrow> u64 option \<Rightarrow> layouts \<times> u64" where
  "array_length l t len =
     (case len of
        None \<Rightarrow> (l, 1)
      | Some n \<Rightarrow>
          if sint n < 1
          then (layout_fail l (''the array length `'' @ print_name (agg_length_text t) @ ''` is '' @
                  print_int (sint n) @ '' on '' @ target_name (l_target l) @
                  '', and an array length is at least 1''), 1)
          else (l, n))"

fun fold_fields :: "('s \<Rightarrow> nat \<Rightarrow> 's option) \<Rightarrow> 's \<Rightarrow> nat list \<Rightarrow> 's option" where
  "fold_fields g s [] = Some s"
| "fold_fields g s (i # rest) = Option.bind (g s i) (\<lambda>s. fold_fields g s rest)"

text \<open>
  The three functions of the file that call each other. A body below takes the functions it calls as
  an argument, and \<open>calls n\<close> are the functions with \<open>n\<close> nested calls left.
\<close>

record layout_calls =
  c_compute :: "layouts \<Rightarrow> nat \<Rightarrow> layouts option"
  c_fold :: "layouts \<Rightarrow> nat \<Rightarrow> (layouts \<times> u64 option) option"
  c_flatten :: "layouts \<times> layout_member list \<Rightarrow> ir_vtype \<Rightarrow> u64 \<Rightarrow> (layouts \<times> layout_member list) option"

definition layout_agg :: "layout_calls \<Rightarrow> layouts \<Rightarrow> nat \<Rightarrow> layouts option" where
  "layout_agg c l agg = (if l_agg_state l ! agg \<noteq> DONE then c_compute c l agg else Some l)"

definition layout_vtype :: "layout_calls \<Rightarrow> layouts \<Rightarrow> ir_vtype \<Rightarrow> layouts option" where
  "layout_vtype c l v = (if vt_type v = IR_AGG then layout_agg c l (vt_agg v) else Some l)"

text \<open>The size, the alignment, the offsets and the bits of an array, and of a struct or union.\<close>

type_synonym placed = "layouts \<times> u64 \<times> u64 \<times> placing \<times> bool"

definition compute_array :: "layout_calls \<Rightarrow> layouts \<Rightarrow> ir_aggtype \<Rightarrow> placed option" where
  "compute_array c l t = do {
     (l, len) \<leftarrow> c_fold c l (agg_length t);
     (let element = fd_type (agg_fields t ! 0); (l, len) = array_length l t len
      in do {
        l \<leftarrow> layout_vtype c l element;
        Some (l, len * size_in l element * 8, align_in l element,
              placing_start (length (agg_fields t)), unaligned_in l element)
      })
   }"

definition compute_field ::
  "layout_calls \<Rightarrow> ir_aggtype \<Rightarrow> layouts \<times> placing \<Rightarrow> nat \<Rightarrow> (layouts \<times> placing) option" where
  "compute_field c t lst i =
     (let v = fd_type (agg_fields t ! i)
      in do {
        l \<leftarrow> layout_vtype c (fst lst) v;
        Some (l, place_field (l_target l) t i (size_in l v) (align_in l v) (unaligned_in l v) (snd lst))
      })"

definition compute_fields :: "layout_calls \<Rightarrow> layouts \<Rightarrow> ir_aggtype \<Rightarrow> placed option" where
  "compute_fields c l t = do {
     (l, st) \<leftarrow> fold_fields (compute_field c t) (l, placing_start (length (agg_fields t)))
                 [0..<length (agg_fields t)];
     Some (l, pl_bit st, pl_align st, st, pl_unaligned st)
   }"

definition begin_layout :: "layouts \<Rightarrow> nat \<Rightarrow> layouts" where
  "begin_layout l agg =
     (let st = placing_start (length (agg_fields (m_aggs (l_m l) ! agg)))
      in set_layout (set_state l agg BUSY) agg
           ((l_aggs l ! agg)\<lparr>lo_offsets := pl_offsets st, lo_bits := pl_bits st\<rparr>))"

definition compute :: "layout_calls \<Rightarrow> layouts \<Rightarrow> nat \<Rightarrow> layouts option" where
  "compute c l agg =
     (let t = m_aggs (l_m l) ! agg
      in if l_agg_state l ! agg = BUSY
         then Some (set_layout
                (layout_fail l (''the layout of `'' @ agg_name t @ ''` depends on itself'')) agg
                ((l_aggs l ! agg)\<lparr>lo_size := 1, lo_align := 1\<rparr>))
         else do {
           (l, stop_bit, align, st, unaligned) \<leftarrow>
             (if agg_kind t = IR_AGG_ARRAY then compute_array c (begin_layout l agg) t
              else compute_fields c (begin_layout l agg) t);
           (let lo = (l_aggs l ! agg)\<lparr>lo_offsets := pl_offsets st, lo_bits := pl_bits st,
                        lo_unaligned := lo_unaligned (l_aggs l ! agg) \<or> unaligned\<rparr>;
                l = finish_layout l agg stop_bit align lo
            in if lo_size (l_aggs l ! agg) \<le> of_nat LAYOUT_MEMBER_LIMIT then do {
                 (l, ms) \<leftarrow> c_flatten c (l, []) (ir_aggregate agg) 0;
                 Some (set_layout l agg ((l_aggs l ! agg)\<lparr>lo_members := ms\<rparr>))
               }
               else Some l)
         })"

text \<open>A symbolic value that folds is kept, unless an error came before.\<close>

definition keep_value :: "nat \<Rightarrow> layouts \<Rightarrow> u64 \<Rightarrow> layouts \<times> u64 option" where
  "keep_value y l x =
     (if l_failed l then (l, None)
      else (l\<lparr>l_values := (l_values l)[y := x], l_sym_state := (l_sym_state l)[y := DONE]\<rparr>, Some x))"

definition fold_operation ::
  "layout_calls \<Rightarrow> layouts \<Rightarrow> nat \<Rightarrow> ir_sym \<Rightarrow> (layouts \<times> u64 option) option" where
  "fold_operation c l y s = do {
     (l, a) \<leftarrow> c_fold c l (sy_a s);
     (case a of
        None \<Rightarrow> Some (l, None)
      | Some a \<Rightarrow> do {
          (l, b) \<leftarrow> (if sy_b s = IR_NO_AGG then Some (l, Some 0) else c_fold c l (sy_b s));
          (case b of
             None \<Rightarrow> Some (l, None)
           | Some b \<Rightarrow>
               Some (case fold_op (l_target l) s
                            (target_type (l_target l) (sy_type (m_syms (l_m l) ! sy_a s))) a b of
                       Inl e \<Rightarrow> (layout_fail l e, None)
                     | Inr v \<Rightarrow> keep_value y l v))
        })
   }"

definition layout_fold ::
  "layout_calls \<Rightarrow> layouts \<Rightarrow> nat \<Rightarrow> (layouts \<times> u64 option) option" where
  "layout_fold c l y =
     (let s = m_syms (l_m l) ! y
      in if l_sym_state l ! y = DONE then Some (l, Some (l_values l ! y))
         else
           (case sy_kind s of
              IR_SYM_INT \<Rightarrow> Some (keep_value y l (sy_value s))
            | IR_SYM_SIZE_OF \<Rightarrow> do {
                l \<leftarrow> layout_vtype c l (sy_of s);
                Some (keep_value y l (size_in l (sy_of s)))
              }
            | IR_SYM_OFFSET_OF \<Rightarrow> do {
                l \<leftarrow> layout_agg c l (vt_agg (sy_of s));
                Some (keep_value y l (lo_offsets (l_aggs l ! vt_agg (sy_of s)) ! sy_field s))
              }
            | IR_SYM_OP \<Rightarrow> fold_operation c l y s))"

definition flatten_array ::
  "layout_calls \<Rightarrow> layouts \<times> layout_member list \<Rightarrow> nat \<Rightarrow> u64 \<Rightarrow> (layouts \<times> layout_member list) option"
  where
  "flatten_array c lm agg off =
     (let element = fd_type (agg_fields (m_aggs (l_m (fst lm)) ! agg) ! 0)
      in do {
        l \<leftarrow> layout_vtype c (fst lm) element;
        (let step = size_in l element
         in fold_fields (\<lambda>lm i. c_flatten c lm element (off + of_nat i * step)) (l, snd lm)
              [0..<(if step > 0 then unat (lo_size (l_aggs l ! agg) div step) else 0)])
      })"

definition flatten_fields ::
  "layout_calls \<Rightarrow> layouts \<times> layout_member list \<Rightarrow> nat \<Rightarrow> u64 \<Rightarrow> (layouts \<times> layout_member list) option"
  where
  "flatten_fields c lm agg off =
     (let fields = agg_fields (m_aggs (l_m (fst lm)) ! agg)
      in fold_fields
           (\<lambda>lm i. if is_unit_break (fields ! i) then Some lm
                    else c_flatten c lm (fd_type (fields ! i))
                           (off + lo_offsets (l_aggs (fst lm) ! agg) ! i))
           lm [0..<length fields])"

definition flatten ::
  "layout_calls \<Rightarrow> layouts \<times> layout_member list \<Rightarrow> ir_vtype \<Rightarrow> u64 \<Rightarrow> (layouts \<times> layout_member list) option"
  where
  "flatten c lm v off =
     (if vt_type v \<noteq> IR_AGG
      then Some (fst lm, add_member (l_target (fst lm)) (snd lm) (vt_type v) off)
      else do {
        l \<leftarrow> layout_agg c (fst lm) (vt_agg v);
        (if agg_kind (m_aggs (l_m l) ! vt_agg v) = IR_AGG_ARRAY
         then flatten_array c (l, snd lm) (vt_agg v) off
         else flatten_fields c (l, snd lm) (vt_agg v) off)
      })"

primrec calls :: "nat \<Rightarrow> layout_calls" where
  "calls 0 = \<lparr>c_compute = \<lambda>l agg. None, c_fold = \<lambda>l y. None, c_flatten = \<lambda>lm v off. None\<rparr>"
| "calls (Suc n) =
     \<lparr>c_compute = compute (calls n), c_fold = layout_fold (calls n), c_flatten = flatten (calls n)\<rparr>"

text \<open>The entry points.\<close>

definition layouts_start :: "target \<Rightarrow> ir_module \<Rightarrow> nat \<Rightarrow> layouts" where
  "layouts_start t m error_size =
     \<lparr>l_target = t, l_m = m,
      l_aggs = replicate (length (m_aggs m))
        \<lparr>lo_size = 0, lo_align = 0, lo_offsets = [], lo_bits = [], lo_members = [], lo_unaligned = False\<rparr>,
      l_agg_state = replicate (length (m_aggs m)) UNSEEN,
      l_values = replicate (length (m_syms m)) 0,
      l_sym_state = replicate (length (m_syms m)) UNSEEN,
      l_error = '''', l_error_size = error_size, l_failed = False\<rparr>"

definition layouts_init :: "nat \<Rightarrow> target \<Rightarrow> ir_module \<Rightarrow> nat \<Rightarrow> layouts option" where
  "layouts_init n t m error_size =
     fold_fields (\<lambda>l i. if l_failed l then Some l else layout_agg (calls n) l i)
       (layouts_start t m error_size) [0..<length (m_aggs m)]"

end
