(* ===== verification/Resolve.thy ===== *)
theory Resolve
  imports Layout
begin

text \<open>
  The rest of \<open>src/layout.c\<close>, which uses the layouts: a function gets the integers and the widths of
  its target (\<open>layout_resolve\<close>), a bitfield access becomes a load, shifts, masks and a store
  (\<open>lower_bits\<close>), and the constant data becomes bytes (\<open>layout_data\<close>).

  The instructions that \<open>lower_bits\<close> writes go to a block that is none of the function's, so they are
  a list of their own. An operation that can fail returns an option inside the option of the bound on
  the calls: \<open>None\<close> inside is the \<open>false\<close> of the source, after which the function is not used.
\<close>

section \<open>Operands\<close>

definition resolve_type :: "target \<Rightarrow> ir_type \<times> bool \<Rightarrow> ir_type \<times> bool" where
  "resolve_type t tr =
     (let fixed = target_type t (fst tr) in if fixed \<noteq> fst tr then (fixed, True) else tr)"

fun with_type :: "ir_type \<Rightarrow> ir_operand \<Rightarrow> ir_operand" where
  "with_type t IR_NONE = IR_NONE"
| "with_type t (IR_TEMP _ i) = IR_TEMP t i"
| "with_type t (IR_INT _ v) = ir_int_op t v"
| "with_type t (IR_FLOAT _ v) = IR_FLOAT t v"
| "with_type t (IR_GLOBAL _ i) = IR_GLOBAL t i"
| "with_type t (IR_FUNC _ i) = IR_FUNC t i"
| "with_type t (IR_BLOCK _ i) = IR_BLOCK t i"
| "with_type t (IR_SYM _ i) = IR_SYM t i"

definition resolve_operand ::
  "nat \<Rightarrow> layouts \<times> bool \<Rightarrow> ir_operand \<Rightarrow> ((layouts \<times> bool) \<times> ir_operand option) option" where
  "resolve_operand n lr x =
     (let (ty, resolved) = resolve_type (l_target (fst lr)) (op_type x, snd lr)
      in case x of
           IR_SYM _ i \<Rightarrow> do {
             (l, v) \<leftarrow> layout_fold (calls n) (fst lr) i;
             Some (case v of None \<Rightarrow> ((l, resolved), None) | Some v \<Rightarrow> ((l, True), Some (ir_int_op ty v)))
           }
         | _ \<Rightarrow> Some ((fst lr, resolved), Some (with_type ty x)))"

fun resolve_operands ::
  "nat \<Rightarrow> layouts \<times> bool \<Rightarrow> ir_operand list \<Rightarrow> ((layouts \<times> bool) \<times> ir_operand list option) option" where
  "resolve_operands n lr [] = Some (lr, Some [])"
| "resolve_operands n lr (x # xs) =
     (case resolve_operand n lr x of
        None \<Rightarrow> None
      | Some (lr, None) \<Rightarrow> Some (lr, None)
      | Some (lr, Some y) \<Rightarrow>
          map_option (\<lambda>(lr, ys). (lr, map_option ((#) y) ys)) (resolve_operands n lr xs))"

definition is_conversion :: "ir_op \<Rightarrow> bool" where
  "is_conversion op \<longleftrightarrow> op = IR_TRUNC \<or> op = IR_SEXT \<or> op = IR_ZEXT"

section \<open>The signedness of c\_wchar\<close>

definition wchar_signed :: "target \<Rightarrow> bool" where
  "wchar_signed t \<longleftrightarrow> ti_os (target_info t) = OS_MACOS \<or>
     (ti_os (target_info t) = OS_LINUX \<and> ti_arch (target_info t) = ARCH_X86_64)"

definition signed_op :: "ir_op \<Rightarrow> ir_op" where
  "signed_op op =
     (case op of
        IR_UDIV \<Rightarrow> IR_SDIV | IR_UREM \<Rightarrow> IR_SREM | IR_SHR_U \<Rightarrow> IR_SHR_S
      | IR_ULT \<Rightarrow> IR_SLT | IR_ULE \<Rightarrow> IR_SLE | IR_UGT \<Rightarrow> IR_SGT | IR_UGE \<Rightarrow> IR_SGE
      | IR_ZEXT \<Rightarrow> IR_SEXT | IR_UITOF \<Rightarrow> IR_SITOF | IR_FTOUI \<Rightarrow> IR_FTOSI
      | _ \<Rightarrow> op)"

definition wchar_signedness :: "target \<Rightarrow> ir_inst \<Rightarrow> ir_inst" where
  "wchar_signedness t inst =
     (if (i_type inst = IR_CWCHAR \<or> op_type (i_a inst) = IR_CWCHAR) \<and> wchar_signed t
      then inst\<lparr>i_op := signed_op (i_op inst)\<rparr> else inst)"

section \<open>Bitfields\<close>

type_synonym lowering = "ir_function \<times> ir_inst list"

text \<open>\<open>ir_unary\<close> and \<open>ir_binary\<close> on the block under construction, with \<open>temp_of\<close> of the result.\<close>

definition emit :: "lowering \<Rightarrow> ir_op \<Rightarrow> ir_type \<Rightarrow> ir_operand \<Rightarrow> ir_operand \<Rightarrow> lowering \<times> ir_operand" where
  "emit s op t x y =
     (case ir_temp (fst s) t of
        (f, r) \<Rightarrow> ((f, snd s @ [(new_inst op t (Some r))\<lparr>i_a := x, i_b := y\<rparr>]), ir_temp_op f r))"

definition emit_assign :: "lowering \<Rightarrow> nat \<Rightarrow> ir_operand \<Rightarrow> lowering" where
  "emit_assign s dst x =
     (fst s, snd s @ [(new_inst IR_COPY (f_temps (fst s) ! dst) (Some dst))\<lparr>i_a := x\<rparr>])"

definition emit_store :: "lowering \<Rightarrow> ir_type \<Rightarrow> ir_operand \<Rightarrow> ir_operand \<Rightarrow> lowering" where
  "emit_store s t v pointer =
     (fst s, snd s @ [(new_inst IR_STORE t None)\<lparr>i_a := v, i_b := pointer\<rparr>])"

definition convert ::
  "lowering \<Rightarrow> ir_operand \<Rightarrow> ir_type \<Rightarrow> ir_type \<Rightarrow> ir_ext \<Rightarrow> lowering \<times> ir_operand" where
  "convert s v src dst ext =
     (if bits src = bits dst then (s, v)
      else emit s (if bits dst < bits src then IR_TRUNC else if ext = IR_EXT_SIGN then IR_SEXT else IR_ZEXT)
             dst v IR_NONE)"

definition low_bits :: "nat \<Rightarrow> u64" where
  "low_bits width = (if width = 64 then - 1 else push_bit width 1 - 1)"

text \<open>The instruction when a condition holds, and the operand itself when not.\<close>

definition emit_if ::
  "bool \<Rightarrow> ir_op \<Rightarrow> ir_type \<Rightarrow> ir_operand \<Rightarrow> lowering \<times> ir_operand \<Rightarrow> lowering \<times> ir_operand" where
  "emit_if c op t y sv = (if c then emit (fst sv) op t (snd sv) y else sv)"

definition load_signed ::
  "ir_field \<Rightarrow> layout_bits \<Rightarrow> ir_inst \<Rightarrow> lowering \<times> ir_operand \<Rightarrow> lowering \<times> ir_operand" where
  "load_signed field place inst sv =
     (let unit = lb_unit_type place; width = fd_bits field;
          up = int (bits unit) - int (lb_shift place) - int width;
          sv = emit_if (up \<noteq> 0) IR_SHL unit (ir_int_op unit (word_of_int up)) sv;
          sv = emit_if (width < bits unit) IR_SHR_S unit (ir_int_op unit (of_nat (bits unit) - of_nat width)) sv
      in convert (fst sv) (snd sv) unit (i_type inst) IR_EXT_SIGN)"

definition load_unsigned ::
  "ir_field \<Rightarrow> layout_bits \<Rightarrow> ir_inst \<Rightarrow> lowering \<times> ir_operand \<Rightarrow> lowering \<times> ir_operand" where
  "load_unsigned field place inst sv =
     (let unit = lb_unit_type place; width = fd_bits field;
          sv = emit_if (lb_shift place \<noteq> 0) IR_SHR_U unit (ir_int_op unit (of_nat (lb_shift place))) sv;
          sv = emit_if (width < bits unit) IR_AND unit (ir_int_op unit (low_bits width)) sv
      in convert (fst sv) (snd sv) unit (i_type inst) IR_EXT_ZERO)"

definition store_field ::
  "ir_field \<Rightarrow> layout_bits \<Rightarrow> ir_inst \<Rightarrow> ir_operand \<Rightarrow> lowering \<times> ir_operand \<Rightarrow> lowering" where
  "store_field field place inst pointer sw =
     (let unit = lb_unit_type place; width = fd_bits field;
          sv = convert (fst sw) (i_a inst) (i_type inst) unit IR_EXT_ZERO;
          sv = emit_if (width < bits unit) IR_AND unit (ir_int_op unit (low_bits width)) sv;
          sv = emit_if (lb_shift place \<noteq> 0) IR_SHL unit (ir_int_op unit (of_nat (lb_shift place))) sv;
          sw = emit (fst sv) IR_AND unit (snd sw)
                 (ir_int_op unit (NOT (push_bit (lb_shift place) (low_bits width))));
          sx = emit (fst sw) IR_OR unit (snd sw) (snd sv)
      in emit_store (fst sx) unit (snd sx) pointer)"

definition lower_bits_at :: "ir_field \<Rightarrow> layout_bits \<Rightarrow> lowering \<Rightarrow> ir_inst \<Rightarrow> lowering" where
  "lower_bits_at field place s inst =
     (let base = (if i_op inst = IR_BITLOAD then i_a inst else i_b inst);
          (s, pointer) = emit_if (lb_unit_offset place \<noteq> 0) IR_PTRADD IR_PTR
                           (ir_int_op IR_I64 (lb_unit_offset place)) (s, base);
          sw = emit s IR_LOAD (lb_unit_type place) pointer IR_NONE
      in if i_op inst = IR_BITLOAD then
           (let sv = (if fd_ext field = IR_EXT_SIGN then load_signed field place inst sw
                      else load_unsigned field place inst sw)
            in emit_assign (fst sv) (the (i_result inst)) (snd sv))
         else store_field field place inst pointer sw)"

definition lower_bits :: "nat \<Rightarrow> layouts \<times> lowering \<Rightarrow> ir_inst \<Rightarrow> (layouts \<times> lowering) option" where
  "lower_bits n ls inst =
     (let agg = vt_agg (i_of inst)
      in map_option (\<lambda>l. (l, lower_bits_at (agg_fields (m_aggs (l_m l) ! agg) ! i_field inst)
                              (lo_bits (l_aggs l ! agg) ! i_field inst) (snd ls) inst))
           (layout_agg (calls n) (fst ls) agg))"

definition is_bit_access :: "ir_inst \<Rightarrow> bool" where
  "is_bit_access inst \<longleftrightarrow> i_op inst = IR_BITLOAD \<or> i_op inst = IR_BITSTORE"

fun lower_block_bits :: "nat \<Rightarrow> layouts \<times> lowering \<Rightarrow> ir_inst list \<Rightarrow> (layouts \<times> lowering) option" where
  "lower_block_bits n ls [] = Some ls"
| "lower_block_bits n ls (inst # rest) =
     Option.bind
       (if is_bit_access inst then lower_bits n ls inst
        else Some (fst ls, fst (snd ls), snd (snd ls) @ [inst]))
       (\<lambda>ls. lower_block_bits n ls rest)"

section \<open>Functions\<close>

definition resolve_inst ::
  "nat \<Rightarrow> layouts \<times> bool \<Rightarrow> ir_inst \<Rightarrow> ((layouts \<times> bool) \<times> ir_inst option) option" where
  "resolve_inst n lr inst0 =
     (let inst = wchar_signedness (l_target (fst lr)) inst0;
          (ty, resolved) = resolve_type (l_target (fst lr)) (i_type inst, snd lr)
      in map_option
           (\<lambda>(lr, ops).
             (lr, map_option
                (\<lambda>ops. let inst = inst\<lparr>i_type := ty, i_a := ops ! 0, i_b := ops ! 1, i_c := ops ! 2,
                                      i_args := drop 3 ops\<rparr>
                       in if is_conversion (i_op inst) \<and> op_type (i_a inst) = i_type inst
                          then inst\<lparr>i_op := IR_COPY\<rparr> else inst) ops))
           (resolve_operands n (fst lr, resolved) (i_a inst # i_b inst # i_c inst # i_args inst)))"

fun resolve_insts ::
  "nat \<Rightarrow> layouts \<times> bool \<Rightarrow> ir_inst list \<Rightarrow> ((layouts \<times> bool) \<times> ir_inst list option) option" where
  "resolve_insts n lr [] = Some (lr, Some [])"
| "resolve_insts n lr (x # xs) =
     (case resolve_inst n lr x of
        None \<Rightarrow> None
      | Some (lr, None) \<Rightarrow> Some (lr, None)
      | Some (lr, Some y) \<Rightarrow>
          map_option (\<lambda>(lr, ys). (lr, map_option ((#) y) ys)) (resolve_insts n lr xs))"

text \<open>One turn of the loop over the blocks, and the loop.\<close>

definition resolve_block ::
  "nat \<Rightarrow> layouts \<times> bool \<Rightarrow> ir_function \<Rightarrow> nat \<Rightarrow> ((layouts \<times> bool) \<times> ir_function option) option" where
  "resolve_block n lr f b =
     (case resolve_insts n lr (b_insts (f_blocks f ! b)) of
        None \<Rightarrow> None
      | Some (lr, None) \<Rightarrow> Some (lr, None)
      | Some (lr, Some insts) \<Rightarrow>
          if list_ex is_bit_access insts
          then map_option
                 (\<lambda>(l, f, insts). ((l, True), Some (f\<lparr>f_blocks :=
                    (f_blocks f)[b := (f_blocks f ! b)\<lparr>b_insts := insts\<rparr>]\<rparr>)))
                 (lower_block_bits n (fst lr, f, []) insts)
          else Some (lr, Some (f\<lparr>f_blocks := (f_blocks f)[b := (f_blocks f ! b)\<lparr>b_insts := insts\<rparr>]\<rparr>)))"

fun resolve_blocks ::
  "nat \<Rightarrow> layouts \<times> bool \<Rightarrow> ir_function \<Rightarrow> nat list \<Rightarrow> ((layouts \<times> bool) \<times> ir_function option) option"
  where
  "resolve_blocks n lr f [] = Some (lr, Some f)"
| "resolve_blocks n lr f (b # bs) =
     (case resolve_block n lr f b of
        None \<Rightarrow> None
      | Some (lr, None) \<Rightarrow> Some (lr, None)
      | Some (lr, Some f) \<Rightarrow> resolve_blocks n lr f bs)"

definition resolve_signature :: "target \<Rightarrow> ir_function \<Rightarrow> ir_function" where
  "resolve_signature t f =
     f\<lparr>f_result := target_type t (f_result f),
       f_params := map (\<lambda>p. p\<lparr>p_type := target_type t (p_type p)\<rparr>) (f_params f),
       f_temps := map (target_type t) (f_temps f)\<rparr>"

definition layout_resolve ::
  "nat \<Rightarrow> layouts \<times> bool \<Rightarrow> ir_function \<Rightarrow> ((layouts \<times> bool) \<times> ir_function option) option" where
  "layout_resolve n lr f =
     (let t = l_target (fst lr);
          resolved = snd lr \<or> list_ex (\<lambda>ty. target_type t ty \<noteq> ty)
            (f_result f # map p_type (f_params f) @ f_temps f)
      in resolve_blocks n (fst lr, resolved) (resolve_signature t f) [0..<length (f_blocks f)])"

section \<open>Constant data\<close>

fun write_bytes :: "ir_global \<Rightarrow> u64 \<Rightarrow> u64 \<Rightarrow> nat list \<Rightarrow> ir_global" where
  "write_bytes g off v [] = g"
| "write_bytes g off v (i # rest) =
     (if off + of_nat i < g_size g
      then write_bytes
             (g\<lparr>g_bytes := (g_bytes g)[unat (off + of_nat i) := ucast (drop_bit (i * 8) v)]\<rparr>) off v rest
      else g)"

definition write_int :: "ir_global \<Rightarrow> u64 \<Rightarrow> u64 \<Rightarrow> u64 \<Rightarrow> ir_global" where
  "write_int g off n v = write_bytes g off v [0..<unat n]"

fun read_bytes :: "ir_global \<Rightarrow> u64 \<Rightarrow> u64 \<Rightarrow> nat list \<Rightarrow> u64" where
  "read_bytes g off v [] = v"
| "read_bytes g off v (i # rest) =
     (if off + of_nat i < g_size g
      then read_bytes g off (v OR push_bit (i * 8) (ucast (g_bytes g ! unat (off + of_nat i)))) rest
      else v)"

definition read_int :: "ir_global \<Rightarrow> u64 \<Rightarrow> u64 \<Rightarrow> u64" where
  "read_int g off n = read_bytes g off 0 [0..<unat n]"

fun const_scalar_type :: "ir_const \<Rightarrow> ir_type" where
  "const_scalar_type (IR_CONST_NONE t) = t"
| "const_scalar_type (IR_CONST_INT t _) = t"
| "const_scalar_type (IR_CONST_FLOAT t _) = t"
| "const_scalar_type (IR_CONST_SYM t _) = t"
| "const_scalar_type (IR_CONST_ADDR t _) = t"
| "const_scalar_type (IR_CONST_FUNC t _) = t"
| "const_scalar_type (IR_CONST_AGG t _ _) = t"

definition const_vtype :: "ir_const \<Rightarrow> ir_vtype" where
  "const_vtype c = (case c of IR_CONST_AGG _ t _ \<Rightarrow> t | _ \<Rightarrow> ir_scalar (const_scalar_type c))"

text \<open>The member \<open>integer\<close> of a constant, zero in every kind but one.\<close>

fun const_integer :: "ir_const \<Rightarrow> u64" where
  "const_integer (IR_CONST_INT _ v) = v"
| "const_integer _ = 0"

definition write_bits ::
  "layouts \<Rightarrow> ir_global \<Rightarrow> ir_aggtype \<Rightarrow> layout \<Rightarrow> nat \<Rightarrow> u64 \<Rightarrow> u64 \<Rightarrow> ir_global" where
  "write_bits l g t out i base v =
     (let b = lo_bits out ! i; n = size_in l (ir_scalar (lb_unit_type b)); width = fd_bits (agg_fields t ! i);
          m = (if width \<ge> 64 then - 1 else push_bit width 1 - 1);
          unit = read_int g (base + lb_unit_offset b) n
      in write_int g (base + lb_unit_offset b) n (unit OR push_bit (lb_shift b) (v AND m)))"

text \<open>The place of item \<open>i\<close> of an aggregate. A bitfield is written at once, with its unit.\<close>

definition item_base :: "layouts \<Rightarrow> nat \<Rightarrow> u64 \<Rightarrow> nat \<Rightarrow> u64" where
  "item_base l agg base i =
     (let t = m_aggs (l_m l) ! agg
      in if agg_kind t = IR_AGG_ARRAY then base + of_nat i * size_in l (fd_type (agg_fields t ! 0))
         else base + lo_offsets (l_aggs l ! agg) ! i)"

text \<open>
  \<open>write_const\<close> and \<open>write_agg\<close> with the loop over its items, of which \<open>i\<close> is the index of the first.
\<close>

fun write_const ::
  "c_float \<Rightarrow> nat \<Rightarrow> layouts \<times> ir_global \<Rightarrow> ir_const \<Rightarrow> u64 \<Rightarrow> (layouts \<times> ir_global) option"
and write_agg ::
  "c_float \<Rightarrow> nat \<Rightarrow> layouts \<times> ir_global \<Rightarrow> nat \<Rightarrow> u64 \<Rightarrow> nat \<Rightarrow> ir_const list \<Rightarrow> (layouts \<times> ir_global) option"
where
  "write_const F n lg (IR_CONST_NONE _) base = Some lg"
| "write_const F n lg (IR_CONST_INT ty v) base =
     Some (fst lg, write_int (snd lg) base (size_in (fst lg) (ir_scalar ty)) v)"
| "write_const F n lg (IR_CONST_FLOAT ty d) base =
     (let k = size_in (fst lg) (ir_scalar ty)
      in Some (fst lg, write_int (snd lg) base k (if k = 4 then ucast (c_narrow F d) else d)))"
| "write_const F n lg (IR_CONST_SYM ty y) base =
     (case layout_fold (calls n) (fst lg) y of
        None \<Rightarrow> None
      | Some (l, None) \<Rightarrow> Some (l, snd lg)
      | Some (l, Some v) \<Rightarrow> Some (l, write_int (snd lg) base (size_in l (ir_scalar ty)) v))"
| "write_const F n lg (IR_CONST_ADDR _ target) base = Some (fst lg, ir_global_reloc (snd lg) base target)"
| "write_const F n lg (IR_CONST_FUNC _ target) base = Some (fst lg, ir_global_reloc_fn (snd lg) base target)"
| "write_const F n lg (IR_CONST_AGG _ ty items) base =
     (case layout_vtype (calls n) (fst lg) ty of
        None \<Rightarrow> None
      | Some l \<Rightarrow>
          (let t = m_aggs (l_m l) ! vt_agg ty
           in case (if agg_kind t = IR_AGG_ARRAY
                    then layout_vtype (calls n) l (fd_type (agg_fields t ! 0)) else Some l) of
                None \<Rightarrow> None
              | Some l \<Rightarrow> write_agg F n (l, snd lg) (vt_agg ty) base 0 items))"
| "write_agg F n lg agg base i [] = Some lg"
| "write_agg F n lg agg base i (c # rest) =
     (let t = m_aggs (l_m (fst lg)) ! agg
      in if agg_kind t \<noteq> IR_AGG_ARRAY \<and> i \<ge> length (agg_fields t) then Some lg
         else if agg_kind t \<noteq> IR_AGG_ARRAY \<and> is_unit_break (agg_fields t ! i)
         then write_agg F n lg agg base (Suc i) rest
         else if agg_kind t \<noteq> IR_AGG_ARRAY \<and> fd_bits (agg_fields t ! i) \<noteq> 0
         then write_agg F n
                (fst lg, write_bits (fst lg) (snd lg) t (l_aggs (fst lg) ! agg) i base (const_integer c))
                agg base (Suc i) rest
         else
           (case write_const F n lg c (item_base (fst lg) agg base i) of
              None \<Rightarrow> None
            | Some lg \<Rightarrow> write_agg F n lg agg base (Suc i) rest))"

definition global_data :: "c_float \<Rightarrow> nat \<Rightarrow> layouts \<Rightarrow> ir_global \<Rightarrow> (layouts \<times> ir_global) option" where
  "global_data F n l g =
     (case g_value g of
        None \<Rightarrow> Some (l, g)
      | Some c \<Rightarrow> do {
          l \<leftarrow> layout_vtype (calls n) l (const_vtype c);
          (let k = size_in l (const_vtype c);
               g = g\<lparr>g_size := k, g_align := align_in l (const_vtype c),
                     g_bytes := replicate (if k = 0 then 1 else unat k) 0\<rparr>
           in write_const F n (l, g) c 0)
        })"

fun layout_data :: "c_float \<Rightarrow> nat \<Rightarrow> layouts \<Rightarrow> ir_global list \<Rightarrow> (layouts \<times> ir_global list) option" where
  "layout_data F n l [] = Some (l, [])"
| "layout_data F n l (g # rest) =
     (if l_failed l then Some (l, g # rest)
      else (case global_data F n l g of
              None \<Rightarrow> None
            | Some (l, g) \<Rightarrow> map_option (\<lambda>(l, gs). (l, g # gs)) (layout_data F n l rest)))"

end
