(* ===== verification/Rounding.thy ===== *)
theory Rounding
  imports Prelude
begin

text \<open>
  Sums, products and multiples of unsigned 64-bit integers that do not wrap, as the layout of types
  and of frames computes them.
\<close>

lemma unat_plus_lt: "unat a + unat b < 2 ^ 64 \<Longrightarrow> unat (a + b :: u64) = unat a + unat b"
  by (simp add: unat_word_ariths)

lemma unat_times_lt: "unat a * unat b < 2 ^ 64 \<Longrightarrow> unat (a * b :: u64) = unat a * unat b"
  by (simp add: unat_word_ariths)

definition round_nat :: "nat \<Rightarrow> nat \<Rightarrow> nat" where
  "round_nat n a = (n + a - 1) div a * a"

lemma round_nat: "0 < a \<Longrightarrow> n \<le> round_nat n a" "0 < a \<Longrightarrow> round_nat n a < n + a" "a dvd round_nat n a"
proof -
  assume a: "0 < a"
  have d: "(n + a - 1) div a * a + (n + a - 1) mod a = n + a - 1" by simp
  have "(n + a - 1) mod a < a" using a by simp
  then show "n \<le> round_nat n a" "round_nat n a < n + a" using a d unfolding round_nat_def by linarith+
qed (simp add: round_nat_def)

lemma unat_round:
  assumes "0 < unat a" and "unat n + unat a < 2 ^ 64"
  shows "unat ((n + a - 1) div a * a :: u64) = round_nat (unat n) (unat a)"
proof -
  have s: "unat (n + a) = unat n + unat a" using assms(2) by (rule unat_plus_lt)
  have "unat (n + a - 1) = unat n + unat a - 1" using s assms(1) by (simp add: unat_sub word_le_nat_alt)
  then have d: "unat ((n + a - 1) div a) = (unat n + unat a - 1) div unat a" by (simp only: unat_div)
  have "(unat n + unat a - 1) div unat a * unat a < 2 ^ 64"
    using round_nat(2) [OF assms(1), of "unat n"] assms(2) unfolding round_nat_def by linarith
  then show ?thesis unfolding round_nat_def by (subst unat_times_lt) (simp_all only: d)
qed

end
