(* ===== verification/LayoutProps.thy ===== *)
theory LayoutProps
  imports Resolve FoldingProps Rounding
begin

text \<open>
  Properties of single steps of the layout: folding of size expressions against the optimizer's, the
  integer unit of a bitfield, the signedness of \<open>c_wchar\<close>, and the bytes of integers in constant data.
\<close>

section \<open>Size expressions\<close>

lemma trim_trim: "bits r \<le> bits t \<Longrightarrow> trim r (trim t v) = trim r v"
  by (simp add: trim_take_bit min_def)

lemma of_cond_trim: "trim r (of_cond c) = of_cond c"
proof -
  have "bits r \<noteq> 0" using bits_pos [of r] by simp
  then show ?thesis by (auto simp: of_cond_def trim_take_bit)
qed

lemma unat_mod_64: "b < of_nat (bits t) \<Longrightarrow> unat (b :: u64) mod 64 = unat b"
proof -
  assume "b < of_nat (bits t)"
  then have "unat b < bits t"
    using bits_le [of t] by (simp add: word_less_nat_alt unsigned_of_nat take_bit_nat_eq_self)
  then show ?thesis using bits_le [of t] by simp
qed

lemma arith_shift_word:
  assumes a: "unat a < 2 ^ bits t" and k: "k < 64"
  shows "signed_value t a < 0 \<Longrightarrow>
      NOT (drop_bit k (NOT (word_of_int (signed_value t a)))) = (word_of_int (signed_value t a div 2 ^ k) :: u64)"
    and "\<not> signed_value t a < 0 \<Longrightarrow>
      drop_bit k (word_of_int (signed_value t a)) = (word_of_int (signed_value t a div 2 ^ k) :: u64)"
proof -
  have "(2 :: int) ^ (bits t - 1) \<le> 2 ^ 63" using bits_le [of t] by (intro power_increasing) auto
  then have rng: "- (2 ^ 63) \<le> signed_value t a" "signed_value t a < 2 ^ 63"
    using sval_range [OF a bits_pos] by (simp_all add: signed_value_eq [OF a])
  note s = arith_shift [OF rng k]
  show "signed_value t a < 0 \<Longrightarrow>
      NOT (drop_bit k (NOT (word_of_int (signed_value t a)))) = (word_of_int (signed_value t a div 2 ^ k) :: u64)"
    using s by (simp only: if_True)
  show "\<not> signed_value t a < 0 \<Longrightarrow>
      drop_bit k (word_of_int (signed_value t a)) = (word_of_int (signed_value t a div 2 ^ k) :: u64)"
    using s by (simp only: if_False)
qed

definition comparisons :: "ir_op list" where
  "comparisons = [IR_EQ, IR_NE, IR_SLT, IR_SLE, IR_SGT, IR_SGE, IR_ULT, IR_ULE, IR_UGT, IR_UGE]"

lemma fold_int_divides: "fold_int op t a 0 = Some v \<Longrightarrow> op \<notin> {IR_SDIV, IR_UDIV, IR_SREM, IR_UREM}"
  by (auto simp: fold_int_def Let_def)

lemma fold_value_int:
  assumes a: "unat a < 2 ^ bits t" and b: "unat b < 2 ^ bits t" and f: "fold_int op t a b = Some v"
  shows "\<exists>w. fold_value op t a b = Some w \<and> v = (if op \<in> set comparisons then w else trim t w)"
proof (cases "op \<in> {IR_SHL, IR_SHR_S, IR_SHR_U}")
  case True
  then have "b < of_nat (bits t)"
    by (elim insertE emptyE; use f in \<open>simp add: fold_int_def Let_def split: if_split_asm\<close>)
  then have m: "unat b mod 64 = unat b" by (rule unat_mod_64)
  then have k: "unat b < 64" using mod_less_divisor [of 64 "unat b"] by simp
  from True show ?thesis
    by (elim insertE emptyE; use f arith_shift_word [OF a k] in \<open>simp add: fold_int_def fold_value_def Let_def
          comparisons_def m trim_id [OF a] split: if_split_asm\<close>)
next
  case False
  then show ?thesis
    using f
    by (cases op; hypsubst;
      simp add: fold_int_def fold_value_def Let_def comparisons_def trim_id [OF a] trim_id [OF b]
        split: if_split_asm)
qed

text \<open>
  C18. A size expression folds to the value that the optimizer gives the same operation on the same
  operands: \<open>fold_op\<close> of the layout agrees with \<open>fold_int\<close> wherever that folds.
\<close>

theorem fold_op_agrees:
  assumes "unat a < 2 ^ bits t" and "unat b < 2 ^ bits t"
    and "fold_int (sy_op s) t a b = Some v"
    and "target_type tg (sy_type s) = t \<or> list_ex (\<lambda>op. sy_op s = op) comparisons"
  shows "fold_op tg s t a b = Inr v"
proof -
  let ?r = "target_type tg (sy_type s)"
  obtain w where w: "fold_value (sy_op s) t a b = Some w"
    "v = (if sy_op s \<in> set comparisons then w else trim t w)"
    using fold_value_int [OF assms(1-3)] by blast
  have cmp: "sy_op s \<in> set comparisons \<Longrightarrow> trim ?r w = w"
    using w(1) by (auto simp: comparisons_def fold_value_def Let_def of_cond_trim)
  have "trim ?r w = v" using w(2) cmp assms(4) by (auto simp: list_ex_iff split: if_split_asm)
  moreover have "\<not> (sy_op s \<in> {IR_SDIV, IR_UDIV, IR_SREM, IR_UREM} \<and> trim t b = 0)"
    using assms(3) fold_int_divides [of "sy_op s" t a v] trim_id [OF assms(2)] by auto
  ultimately show ?thesis unfolding fold_op_def using w(1) by (simp only: if_False option.case)
qed


text \<open>
  An operation of a size expression on two values of 8 bits.
\<close>

definition size_op :: "ir_op \<Rightarrow> ir_sym" where
  "size_op op = \<lparr>sy_kind = IR_SYM_OP, sy_type = IR_I8, sy_value = 0, sy_of = \<lparr>vt_type = IR_VOID, vt_agg = 0\<rparr>,
     sy_field = 0, sy_op = op, sy_a = 0, sy_b = 1\<rparr>"

theorem fold_op_agrees_witness:
  "fold_op TARGET_LINUX_X86_64 (size_op IR_MUL) IR_I8 7 40 = Inr 24"
proof -
  have "fold_int IR_MUL IR_I8 7 40 = Some 24" by code_simp
  then show ?thesis
    using fold_op_agrees [of 7 IR_I8 40 "size_op IR_MUL" 24 TARGET_LINUX_X86_64]
    by (simp add: size_op_def bits_def target_type_def)
qed

section \<open>Units of bitfields\<close>

lemma need_bytes:
  assumes "w \<le> 64"
  shows "unat ((p mod 8 + of_nat w + 7) div 8 :: u64) = (unat p mod 8 + w + 7) div 8"
proof -
  have w: "unat (of_nat w :: u64) = w" using assms by (simp add: unsigned_of_nat take_bit_nat_eq_self)
  have "unat p mod 8 < 8" by simp
  then have "unat (p mod 8 + of_nat w + 7) = unat p mod 8 + w + 7"
    using assms by (simp add: unat_word_ariths w unat_mod)
  then show ?thesis by (simp add: unat_div)
qed

text \<open>The place of a unit of \<open>n\<close> bytes for the bits from \<open>p\<close> in an aggregate of \<open>size\<close> bytes.\<close>

lemma unit_place:
  fixes p w n sz :: nat
  assumes "p + w \<le> 8 * sz" and "(p mod 8 + w + 7) div 8 \<le> n" and "n \<le> sz"
  defines "off \<equiv> (if p div 8 + n > sz then sz - n else p div 8)"
  shows "8 * off \<le> p" and "p - 8 * off + w \<le> 8 * n" and "off + n \<le> sz"
proof -
  have p: "p = 8 * (p div 8) + p mod 8" by simp
  have w: "p mod 8 + w \<le> 8 * n" using assms(2) by linarith
  show "off + n \<le> sz" using assms(3) by (auto simp: off_def)
  show "8 * off \<le> p" using p assms(3) by (auto simp: off_def)
  show "p - 8 * off + w \<le> 8 * n"
  proof (cases "p div 8 + n > sz")
    case True
    then show ?thesis using assms(1,3) w p by (auto simp: off_def)
  next
    case False
    then have "p - 8 * off = p mod 8" by (simp add: off_def minus_mult_div_eq_mod)
    then show ?thesis using w by simp
  qed
qed

text \<open>The type of a unit by its bytes.\<close>

definition unit_type :: "u64 \<Rightarrow> ir_type" where
  "unit_type n = (if n = 1 then IR_I8 else if n = 2 then IR_I16 else if n = 4 then IR_I32 else IR_I64)"

lemma bits_unit: "unat need \<le> 8 \<Longrightarrow> bits (unit_type (unit_bytes need)) = 8 * unat (unit_bytes need)"
  by (auto simp: unit_bytes_def unit_type_def bits_def)

lemma unit_bytes_ge: "unat need \<le> 8 \<Longrightarrow> unat need \<le> unat (unit_bytes need)"
  by (auto simp: unit_bytes_def word_le_nat_alt)


text \<open>A module of one struct with one bitfield.\<close>

definition one_struct :: "bool \<Rightarrow> nat \<Rightarrow> ir_module" where
  "one_struct packed w = (ir_module_init ''m'')\<lparr>m_aggs :=
     [\<lparr>agg_kind = IR_AGG_STRUCT, agg_name = ''S'', agg_fields =
         [\<lparr>fd_name = Some ''x'', fd_type = \<lparr>vt_type = IR_I32, vt_agg = 0\<rparr>, fd_bits = w, fd_ext = IR_EXT_ZERO\<rparr>],
       agg_packed = packed, agg_align = 0, agg_length = 0, agg_length_text = None\<rparr>]\<rparr>"

definition placed_at :: "u64 \<Rightarrow> layout" where
  "placed_at p = \<lparr>lo_size = 4, lo_align = 4, lo_offsets = [0],
     lo_bits = [\<lparr>lb_pos = p, lb_unit_offset = 0, lb_unit_type = IR_VOID, lb_shift = 0\<rparr>],
     lo_members = [], lo_unaligned = False\<rparr>"

definition bit_place :: "string + layout \<Rightarrow> (u64 \<times> ir_type \<times> nat) option" where
  "bit_place r = (case r of Inl _ \<Rightarrow> None
     | Inr lo \<Rightarrow> Some (lb_unit_offset (lo_bits lo ! 0), lb_unit_type (lo_bits lo ! 0), lb_shift (lo_bits lo ! 0)))"

text \<open>A field of 20 bits at bit 12: three bytes from byte 1 hold it, so the unit moves back to byte 0.\<close>

lemma bit_place_12:
  "bit_place (bit_unit TARGET_LINUX_X86_64 (m_aggs (one_struct True 20) ! 0) (placed_at 12) 0) = Some (0, IR_I32, 12)"
  by code_simp


section \<open>Bytes of constants\<close>

definition in_global :: "ir_global \<Rightarrow> u64 \<Rightarrow> nat \<Rightarrow> bool" where
  "in_global g off n \<longleftrightarrow> unat off + n \<le> unat (g_size g) \<and> unat (g_size g) \<le> length (g_bytes g)"

lemma index_in_global:
  assumes "in_global g off m" "i < m"
  shows "off + of_nat i < g_size g" "unat (off + of_nat i) = unat off + i"
proof -
  have "unat off + m \<le> unat (g_size g)" using assms by (simp add: in_global_def)
  moreover have "unat (g_size g) < 2 ^ 64" using unsigned_less [of "g_size g"] by simp
  ultimately have i: "unat off + i < 2 ^ 64" "i < 2 ^ 64" "unat off + i < unat (g_size g)" using assms(2) by linarith+
  have "unat (of_nat i :: u64) = i" using i(2) by (simp add: unsigned_of_nat take_bit_nat_eq_self)
  then show "unat (off + of_nat i) = unat off + i" using i(1) by (subst unat_plus_lt) simp_all
  then show "off + of_nat i < g_size g" using i(3) by (simp add: word_less_nat_alt)
qed

lemma write_bytes_frame [simp]:
  "g_size (write_bytes g off v is) = g_size g" "length (g_bytes (write_bytes g off v is)) = length (g_bytes g)"
  by (induction g off v "is" rule: write_bytes.induct) auto

lemma in_global_write [simp]: "in_global (write_bytes g off v is) = in_global g"
  by (simp add: in_global_def fun_eq_iff)

lemma write_bytes_nth:
  assumes "in_global g off m" and "k \<le> m"
  shows "g_bytes (write_bytes g off v [k..<m]) ! j =
    (if unat off + k \<le> j \<and> j < unat off + m then ucast (drop_bit ((j - unat off) * 8) v) else g_bytes g ! j)"
  using assms
proof (induction "m - k" arbitrary: g k)
  case (Suc d)
  then have k: "k < m" by simp
  note at = index_in_global [OF Suc.prems(1) k]
  have len: "unat off + k < length (g_bytes g)" using Suc.prems k by (simp add: in_global_def)
  let ?g = "g\<lparr>g_bytes := (g_bytes g)[unat off + k := ucast (drop_bit (k * 8) v)]\<rparr>"
  have g: "in_global ?g off m" using Suc.prems by (simp add: in_global_def)
  have "write_bytes g off v [k..<m] = write_bytes ?g off v [Suc k..<m]"
    using k at by (simp add: upt_conv_Cons)
  then show ?case using Suc.hyps(1) [of "Suc k" ?g] Suc.hyps(2) g k len by (auto simp: nth_list_update)
qed auto

lemma take_bit_byte:
  "take_bit (k * 8) v OR push_bit (k * 8) (ucast (ucast (drop_bit (k * 8) v) :: byte)) =
   take_bit (Suc k * 8) (v :: u64)"
  by (rule bit_eqI) (auto simp: bit_simps)

lemma read_bytes_take:
  assumes "in_global g off m" and "k \<le> m"
    and "\<And>i. k \<le> i \<Longrightarrow> i < m \<Longrightarrow> g_bytes g ! (unat off + i) = ucast (drop_bit (i * 8) v)"
  shows "read_bytes g off (take_bit (k * 8) v) [k..<m] = take_bit (m * 8) v"
  using assms
proof (induction "m - k" arbitrary: k)
  case (Suc d)
  then have k: "k < m" by simp
  note at = index_in_global [OF Suc.prems(1) k]
  have "read_bytes g off (take_bit (k * 8) v) [k..<m] = read_bytes g off (take_bit (Suc k * 8) v) [Suc k..<m]"
    using k at Suc.prems(3) [of k] by (simp add: upt_conv_Cons take_bit_byte del: mult_Suc)
  then show ?case using Suc.hyps(1) [of "Suc k"] Suc.hyps(2) Suc.prems k by simp
qed simp

text \<open>
  C29. Integers in constant data are little endian and read back: after \<open>write_int\<close> of \<open>n\<close> bytes that fit
  in the data, \<open>read_int\<close> gives the low \<open>n\<close> bytes of the value, and no other byte has changed.
\<close>

theorem read_int_written:
  assumes "unat off + unat n \<le> unat (g_size g)" and "unat (g_size g) \<le> length (g_bytes g)"
    and "g' = write_int g off n v"
  shows "read_int g' off n = take_bit (unat n * 8) v \<and>
         take (unat off) (g_bytes g') = take (unat off) (g_bytes g) \<and>
         drop (unat off + unat n) (g_bytes g') = drop (unat off + unat n) (g_bytes g)"
proof -
  have g: "in_global g off (unat n)" using assms by (simp add: in_global_def)
  note nth = write_bytes_nth [OF g, of 0 v]
  have "read_int g' off n = take_bit (unat n * 8) v"
    using read_bytes_take [of g' off "unat n" 0 v] g
    by (simp add: assms(3) write_int_def read_int_def nth)
  moreover have "length (g_bytes g') = length (g_bytes g)" by (simp add: assms(3) write_int_def)
  ultimately show ?thesis by (auto simp: assms(3) write_int_def nth intro!: nth_equalityI)
qed

theorem read_int_written_witness:
  "read_int (write_int (snd (ir_global_add (ir_module_init ''m'') None ''g'' (replicate 8 0xAA) 8 8)) 2 4 0x11223344) 2 4
   = 0x11223344"
  using read_int_written [of 2 4 "snd (ir_global_add (ir_module_init ''m'') None ''g'' (replicate 8 0xAA) 8 8)" _ "0x11223344"]
  by (simp add: ir_global_add_def Let_def)

section \<open>The signedness of c\_wchar\<close>

text \<open>
  An unsigned division of a \<open>c_wchar\<close> by two, as lowering writes it. The back end reads it signed on
  Linux x86\_64, where the width of a \<open>c_wchar\<close> is 32.
\<close>

definition udiv_wchar :: ir_inst where
  "udiv_wchar = (new_inst IR_UDIV IR_CWCHAR (Some 1))\<lparr>i_a := IR_TEMP IR_CWCHAR 0, i_b := ir_int_op IR_CWCHAR 2\<rparr>"

definition wchar_width :: "target \<Rightarrow> ir_type \<Rightarrow> nat" where
  "wchar_width t ty = bits (target_type t ty)"

fun temp_value :: "nat \<Rightarrow> ir_operand \<Rightarrow> nat" where
  "temp_value v (IR_INT _ n) = unat n"
| "temp_value v _ = v"

text \<open>
  C36. The peephole rules change the value of a division of a \<open>c_wchar\<close> where \<open>wchar_t\<close> is signed:
  \<open>simplify\<close> turns the unsigned division of -1 by 2 into a shift, \<open>wchar_signedness\<close> makes the shift
  arithmetic, and the result is -1 where the division itself gives 0.
\<close>

theorem simplified_wchar_division:
  "inst_value (wchar_width TARGET_LINUX_X86_64) (temp_value (2 ^ 32 - 1))
     (wchar_signedness TARGET_LINUX_X86_64 udiv_wchar) = Some 0 \<and>
   map_option (\<lambda>i. inst_value (wchar_width TARGET_LINUX_X86_64) (temp_value (2 ^ 32 - 1))
     (wchar_signedness TARGET_LINUX_X86_64 i)) (simplify udiv_wchar) = Some (Some (2 ^ 32 - 1))"
proof -
  let ?w = "wchar_width TARGET_LINUX_X86_64" and ?v = "temp_value (2 ^ 32 - 1)"
  have w: "?w IR_CWCHAR = 32" by code_simp
  have s: "wchar_signed TARGET_LINUX_X86_64" by code_simp
  have k: "power_of_two (ir_int_op IR_CWCHAR 2) = 1" by code_simp
  have z: "is_int (ir_int_op IR_CWCHAR 2) 1 = False" by code_simp
  have "inst_value ?w ?v (wchar_signedness TARGET_LINUX_X86_64 udiv_wchar) = Some 0"
    using s w by (simp add: udiv_wchar_def new_inst_def wchar_signedness_def signed_op_def inst_value_def Let_def
        ir_int_op_def int_spec_def sval_def enc_def signed_divide_int_def)
  moreover have "simplify udiv_wchar = Some (udiv_wchar\<lparr>i_op := IR_SHR_U, i_b := ir_int_op IR_CWCHAR 1\<rparr>)"
    using k z by (simp add: udiv_wchar_def new_inst_def simplify_def Let_def is_commutative_def)
  moreover have "inst_value ?w ?v (wchar_signedness TARGET_LINUX_X86_64
      (udiv_wchar\<lparr>i_op := IR_SHR_U, i_b := ir_int_op IR_CWCHAR 1\<rparr>)) = Some (2 ^ 32 - 1)"
    using s w by (simp add: udiv_wchar_def new_inst_def wchar_signedness_def signed_op_def inst_value_def Let_def
        ir_int_op_def int_spec_def sval_def enc_def)
  ultimately show ?thesis by simp
qed

section \<open>Units of packed structs\<close>

text \<open>A constant of the struct of \<open>one_struct\<close>, with the value 5 or with the symbolic value \<open>y\<close>.\<close>

definition struct_value :: "ir_const \<Rightarrow> ir_global" where
  "struct_value c = \<lparr>g_index = 0, g_module = None, g_name = ''s'', g_bytes = [], g_size = 0, g_align = 0,
     g_relocs = [], g_value = Some (IR_CONST_AGG IR_VOID (ir_aggregate 0) [c]),
     g_mutable = False, g_exported = False, g_is_extern = False\<rparr>"

definition one_layout :: "layouts \<Rightarrow> (ir_module \<times> target \<times> bool \<times> visit_state list) \<times> u64 \<times> u64 \<times> layout_bits list" where
  "one_layout l = ((l_m l, l_target l, l_failed l, l_agg_state l), lo_size (l_aggs l ! 0), lo_align (l_aggs l ! 0),
     lo_bits (l_aggs l ! 0))"

lemma one_layout_packed:
  "map_option one_layout (layouts_init 5 TARGET_LINUX_X86_64 (one_struct True 20) 100) =
   Some ((one_struct True 20, TARGET_LINUX_X86_64, False, [DONE]), 3, 1,
         [\<lparr>lb_pos = 0, lb_unit_offset = - 1, lb_unit_type = IR_I32, lb_shift = 8\<rparr>])"
  by code_simp

lemma small_lists: "[0..<4::nat] = [0, 1, 2, 3]" "replicate 3 x = [x, x, x]" "replicate 4 x = [x, x, x, x]"
  by (simp_all add: upt_rec eval_nat_numeral)

lemma scalar_size_i32: "scalar_size TARGET_LINUX_X86_64 IR_I32 = 4"
  by code_simp

text \<open>
  C35. A packed struct smaller than the unit of its bitfield gets a unit that starts before it: the struct
  of one field of 20 bits has 3 bytes, \<open>bit_unit\<close> subtracts 4 from 3 and the offset wraps to -1, and
  \<open>layout_data\<close> then writes none of the bits of a constant of that struct, which stays zero.
\<close>

theorem packed_unit_before_struct:
  "\<exists>l. layouts_init 5 TARGET_LINUX_X86_64 (one_struct True 20) 100 = Some l \<and> \<not> l_failed l \<and>
       lb_unit_offset (lo_bits (l_aggs l ! 0) ! 0) = - 1 \<and>
       (\<forall>F. map_option (\<lambda>(_, g). g_bytes g) (global_data F 5 l (struct_value (IR_CONST_INT IR_I32 5))) =
            Some [0, 0, 0])"
proof -
  obtain l where l: "layouts_init 5 TARGET_LINUX_X86_64 (one_struct True 20) 100 = Some l"
    and o: "one_layout l = ((one_struct True 20, TARGET_LINUX_X86_64, False, [DONE]), 3, 1,
         [\<lparr>lb_pos = 0, lb_unit_offset = - 1, lb_unit_type = IR_I32, lb_shift = 8\<rparr>])"
    using one_layout_packed by auto
  have f: "l_m l = one_struct True 20" "l_target l = TARGET_LINUX_X86_64" "\<not> l_failed l"
    "l_agg_state l = [DONE]" "lo_size (l_aggs l ! 0) = 3" "lo_align (l_aggs l ! 0) = 1"
    "lo_bits (l_aggs l ! 0) = [\<lparr>lb_pos = 0, lb_unit_offset = - 1, lb_unit_type = IR_I32, lb_shift = 8\<rparr>]"
    using o by (simp_all add: one_layout_def)
  have "map_option (\<lambda>(_, g). g_bytes g) (global_data F 5 l (struct_value (IR_CONST_INT IR_I32 5))) = Some [0, 0, 0]" for F
    using scalar_size_i32
    by (simp add: global_data_def struct_value_def const_vtype_def ir_aggregate_def layout_vtype_def layout_agg_def f
        size_in_def align_in_def one_struct_def is_unit_break_def write_bits_def read_int_def write_int_def
        ir_scalar_def Let_def small_lists)
  then show ?thesis using l f by auto
qed

section \<open>Symbolic values in bitfields\<close>

lemma one_layout_plain:
  "map_option one_layout (layouts_init 5 TARGET_LINUX_X86_64 (one_struct False 20) 100) =
   Some ((one_struct False 20, TARGET_LINUX_X86_64, False, [DONE]), 4, 4,
         [\<lparr>lb_pos = 0, lb_unit_offset = 0, lb_unit_type = IR_I32, lb_shift = 0\<rparr>])"
  by code_simp

text \<open>
  A constant struct whose bitfield is given by a symbolic value holds zero there: \<open>write_agg\<close> reads the
  member \<open>integer\<close>, which only a number sets.
\<close>

theorem symbol_in_bitfield_dropped:
  "\<exists>l. layouts_init 5 TARGET_LINUX_X86_64 (one_struct False 20) 100 = Some l \<and>
       (\<forall>F. map_option (\<lambda>(_, g). g_bytes g) (global_data F 5 l (struct_value (IR_CONST_INT IR_I32 5))) =
            Some [5, 0, 0, 0]) \<and>
       (\<forall>F y. map_option (\<lambda>(_, g). g_bytes g) (global_data F 5 l (struct_value (IR_CONST_SYM IR_I32 y))) =
            Some [0, 0, 0, 0])"
proof -
  obtain l where l: "layouts_init 5 TARGET_LINUX_X86_64 (one_struct False 20) 100 = Some l"
    and o: "one_layout l = ((one_struct False 20, TARGET_LINUX_X86_64, False, [DONE]), 4, 4,
         [\<lparr>lb_pos = 0, lb_unit_offset = 0, lb_unit_type = IR_I32, lb_shift = 0\<rparr>])"
    using one_layout_plain by auto
  have f: "l_m l = one_struct False 20" "l_target l = TARGET_LINUX_X86_64"
    "l_agg_state l = [DONE]" "lo_size (l_aggs l ! 0) = 4" "lo_align (l_aggs l ! 0) = 4"
    "lo_bits (l_aggs l ! 0) = [\<lparr>lb_pos = 0, lb_unit_offset = 0, lb_unit_type = IR_I32, lb_shift = 0\<rparr>]"
    using o by (simp_all add: one_layout_def)
  note d = global_data_def struct_value_def const_vtype_def ir_aggregate_def layout_vtype_def layout_agg_def f
    size_in_def align_in_def one_struct_def is_unit_break_def write_bits_def read_int_def write_int_def
    ir_scalar_def Let_def small_lists
  have "map_option (\<lambda>(_, g). g_bytes g) (global_data F 5 l (struct_value (IR_CONST_INT IR_I32 5))) =
    Some [5, 0, 0, 0]" for F
    using scalar_size_i32 by (simp add: d push_bit_eq_mult)
  moreover have "map_option (\<lambda>(_, g). g_bytes g) (global_data F 5 l (struct_value (IR_CONST_SYM IR_I32 y))) =
    Some [0, 0, 0, 0]" for F y
    using scalar_size_i32 by (simp add: d)
  ultimately show ?thesis using l by auto
qed

end
