(* ===== verification/Bitfields.thy ===== *)
theory Bitfields
  imports Resolve FoldingProps
begin

text \<open>
  The lowering of bitfields against what a bitfield is: a run of bits of the memory. The instructions
  that \<open>lower_bits\<close> writes are executed on temporaries and a memory of bytes, and the effect is compared
  with \<open>read_field\<close> and \<open>write_field\<close>, which name the bits one by one.
\<close>

section \<open>Memory\<close>

type_synonym memory = "nat \<Rightarrow> byte"

fun mem_load :: "memory \<Rightarrow> nat \<Rightarrow> nat \<Rightarrow> nat" where
  "mem_load m p 0 = 0"
| "mem_load m p (Suc k) = unat (m p) + 256 * mem_load m (Suc p) k"

definition mem_store :: "memory \<Rightarrow> nat \<Rightarrow> nat \<Rightarrow> nat \<Rightarrow> memory" where
  "mem_store m p k v = (\<lambda>a. if p \<le> a \<and> a < p + k then of_nat (v div 256 ^ (a - p)) else m a)"

definition mem_bit :: "memory \<Rightarrow> nat \<Rightarrow> bool" where
  "mem_bit m k = bit (m (k div 8)) (k mod 8)"

definition read_field :: "memory \<Rightarrow> nat \<Rightarrow> nat \<Rightarrow> nat" where
  "read_field m pos w = horner_sum of_bool 2 (map (\<lambda>j. mem_bit m (pos + j)) [0..<w])"

definition write_field :: "memory \<Rightarrow> nat \<Rightarrow> nat \<Rightarrow> nat \<Rightarrow> memory" where
  "write_field m pos w v = (\<lambda>a. horner_sum of_bool 2 (map (\<lambda>i.
     if pos \<le> 8 * a + i \<and> 8 * a + i < pos + w then bit v (8 * a + i - pos) else bit (m a) i) [0..<8]))"

section \<open>Execution\<close>

definition operand_value :: "(nat \<Rightarrow> nat) \<Rightarrow> ir_operand \<Rightarrow> nat" where
  "operand_value e x = (case x of IR_TEMP _ i \<Rightarrow> e i | IR_INT _ v \<Rightarrow> unat v | _ \<Rightarrow> 0)"

definition set_result :: "ir_inst \<Rightarrow> nat \<Rightarrow> (nat \<Rightarrow> nat) \<Rightarrow> nat \<Rightarrow> nat" where
  "set_result inst v e = (case i_result inst of None \<Rightarrow> e | Some r \<Rightarrow> e(r := v))"

definition exec_inst :: "(nat \<Rightarrow> nat) \<times> memory \<Rightarrow> ir_inst \<Rightarrow> ((nat \<Rightarrow> nat) \<times> memory) option" where
  "exec_inst em inst =
     (case em of (e, m) \<Rightarrow>
        let a = operand_value e (i_a inst); b = operand_value e (i_b inst); k = bits (i_type inst) div 8
        in if i_op inst = IR_LOAD then Some (set_result inst (mem_load m a k) e, m)
           else if i_op inst = IR_STORE then Some (e, mem_store m b k a)
           else if i_op inst = IR_PTRADD then Some (set_result inst ((a + b) mod 2 ^ 64) e, m)
           else map_option (\<lambda>v. (set_result inst v e, m)) (inst_value bits (operand_value e) inst))"

fun exec_all :: "(nat \<Rightarrow> nat) \<times> memory \<Rightarrow> ir_inst list \<Rightarrow> ((nat \<Rightarrow> nat) \<times> memory) option" where
  "exec_all em [] = Some em"
| "exec_all em (inst # rest) = Option.bind (exec_inst em inst) (\<lambda>em. exec_all em rest)"

lemma exec_all_append: "exec_all em (xs @ ys) = Option.bind (exec_all em xs) (\<lambda>em. exec_all em ys)"
  by (induction xs arbitrary: em) (simp_all split: bind_split)

section \<open>Bits of the memory\<close>

lemma bit_add_shifted:
  assumes "(a :: nat) < 2 ^ n"
  shows "bit (a + 2 ^ n * b) j \<longleftrightarrow> (if j < n then bit a j else bit b (j - n))"
proof (cases "j < n")
  case True
  then have "(2 :: nat) ^ n = 2 ^ j * (2 * 2 ^ (n - Suc j))"
    by (simp flip: power_add power_Suc)
  then have "(a + 2 ^ n * b) div 2 ^ j = a div 2 ^ j + 2 * (2 ^ (n - Suc j) * b)"
    by (simp add: mult.assoc)
  then show ?thesis using True by (simp add: bit_iff_odd)
next
  case False
  then have "(2 :: nat) ^ j = 2 ^ n * 2 ^ (j - n)" by (simp flip: power_add)
  moreover have "(a + 2 ^ n * b) div 2 ^ n = b" using assms by simp
  ultimately have "(a + 2 ^ n * b) div 2 ^ j = b div 2 ^ (j - n)" by (simp add: div_mult2_eq)
  then show ?thesis using False by (simp add: bit_iff_odd)
qed

lemma bit_nat_lt: "(a :: nat) < 2 ^ n \<Longrightarrow> bit a j \<Longrightarrow> j < n"
  using bit_add_shifted [of a n 0 j] by (auto split: if_splits)

lemma bit_byte: "bit (b :: byte) j \<Longrightarrow> j < 8"
  using bit_imp_le_length [of b j] by simp

lemma mem_load_bit: "bit (mem_load m p k) j \<longleftrightarrow> j < 8 * k \<and> mem_bit m (8 * p + j)"
proof (induction k arbitrary: p j)
  case (Suc k)
  have "bit (mem_load m p (Suc k)) j \<longleftrightarrow> (if j < 8 then bit (m p) j else bit (mem_load m (Suc p) k) (j - 8))"
    using bit_add_shifted [of "unat (m p)" 8 "mem_load m (Suc p) k" j] unat_lt_byte [of "m p"]
    by (simp add: bit_unsigned_iff)
  also have "\<dots> \<longleftrightarrow> j < 8 * Suc k \<and> mem_bit m (8 * p + j)"
  proof (cases "j < 8")
    case True
    then show ?thesis by (simp add: mem_bit_def)
  next
    case False
    then have "8 * Suc p + (j - 8) = 8 * p + j" "j - 8 < 8 * k \<longleftrightarrow> j < 8 * Suc k" by (simp, arith)
    then show ?thesis using False Suc.IH [of "Suc p" "j - 8"] by (simp only: if_False)
  qed
  finally show ?case .
qed simp

lemma mem_load_bound: "mem_load m p k < 256 ^ k"
proof (induction k arbitrary: p)
  case (Suc k)
  have "unat (m p) \<le> 255" using unat_lt_byte [of "m p"] by linarith
  moreover have "256 * mem_load m (Suc p) k + 256 \<le> 256 * 256 ^ k" using Suc.IH [of "Suc p"] by linarith
  ultimately show ?case by simp
qed simp

lemma bit_byte_of_nat: "bit (of_nat n :: byte) k \<longleftrightarrow> k < 8 \<and> bit n k"
proof -
  have "bit (unat (of_nat n :: byte)) k \<longleftrightarrow> k < 8 \<and> bit n k"
    by (simp add: unsigned_of_nat bit_take_bit_iff)
  then show ?thesis using bit_byte [of "of_nat n" k] by (auto simp: bit_unsigned_iff)
qed

lemma mem_store_bit:
  "mem_bit (mem_store m p k v) i \<longleftrightarrow>
     (if 8 * p \<le> i \<and> i < 8 * (p + k) then bit v (i - 8 * p) else mem_bit m i)"
proof -
  have lt: "8 * p \<le> i \<and> i < 8 * (p + k) \<longleftrightarrow> p \<le> i div 8 \<and> i div 8 < p + k" by (auto simp: less_mult_imp_div_less div_less_iff_less_mult less_eq_div_iff_mult_less_eq mult.commute)
  have "p \<le> i div 8 \<Longrightarrow> bit (of_nat (v div 256 ^ (i div 8 - p)) :: byte) (i mod 8) = bit v (i - 8 * p)"
  proof -
    assume p: "p \<le> i div 8"
    have "(256 :: nat) ^ (i div 8 - p) = 2 ^ (8 * (i div 8 - p))" by (simp add: power_mult)
    moreover have "8 * (i div 8 - p) + i mod 8 = i - 8 * p"
      using p mult_div_mod_eq [of 8 i] by (simp add: diff_mult_distrib2)
    moreover have "i mod 8 < 8" by simp
    moreover have "bit (v div 256 ^ (i div 8 - p)) (i mod 8) \<longleftrightarrow> bit v (i - 8 * p)"
      using calculation(1,2) by (simp add: bit_iff_odd div_mult2_eq [symmetric] power_add [symmetric])
    ultimately show ?thesis by (simp add: bit_byte_of_nat)
  qed
  then show ?thesis unfolding mem_bit_def lt by (auto simp: mem_store_def)
qed

lemma read_field_bit: "bit (read_field m pos w) j \<longleftrightarrow> j < w \<and> mem_bit m (pos + j)"
  by (auto simp: read_field_def bit_horner_sum_bit_iff)

lemma write_field_bit:
  "mem_bit (write_field m pos w v) i \<longleftrightarrow> (if pos \<le> i \<and> i < pos + w then bit v (i - pos) else mem_bit m i)"
  by (simp add: mem_bit_def write_field_def bit_horner_sum_bit_word_iff)

lemma memory_eqI:
  assumes "\<And>i. mem_bit m i = mem_bit m' i"
  shows "m = m'"
proof
  fix a
  have "bit (m a) j = bit (m' a) j" for j
    using assms [of "8 * a + j"] bit_byte [of "m a" j] bit_byte [of "m' a" j]
    by (auto simp: mem_bit_def)
  then show "m a = m' a" by (rule bit_eqI)
qed

section \<open>The value of an operand under construction\<close>

definition temps_of :: "lowering \<Rightarrow> nat" where
  "temps_of s = length (f_temps (fst s))"

definition live :: "lowering \<Rightarrow> ir_operand \<Rightarrow> bool" where
  "live s x \<longleftrightarrow> (case x of IR_TEMP _ i \<Rightarrow> i < temps_of s | _ \<Rightarrow> True)"

definition keeps :: "lowering \<Rightarrow> (nat \<Rightarrow> nat) \<Rightarrow> lowering \<Rightarrow> (nat \<Rightarrow> nat) \<Rightarrow> bool" where
  "keeps s e s' e' \<longleftrightarrow> temps_of s \<le> temps_of s' \<and> (\<forall>i<temps_of s. e' i = e i)"

text \<open>The instructions so far run to the environment \<open>e'\<close>, where the operand has a value and a type.\<close>

definition gives ::
  "(nat \<Rightarrow> nat) \<times> memory \<Rightarrow> memory \<Rightarrow> lowering \<Rightarrow> (nat \<Rightarrow> nat) \<Rightarrow> lowering \<times> ir_operand \<Rightarrow> (nat \<Rightarrow> nat) \<Rightarrow>
    ir_type \<Rightarrow> nat \<Rightarrow> bool" where
  "gives st m s e sx e' t v \<longleftrightarrow> exec_all st (snd (fst sx)) = Some (e', m) \<and> keeps s e (fst sx) e' \<and>
     live (fst sx) (snd sx) \<and> operand_value e' (snd sx) = v \<and> op_type (snd sx) = t"

lemma live_value: "live s x \<Longrightarrow> keeps s e s' e' \<Longrightarrow> operand_value e' x = operand_value e x \<and> live s' x"
  by (cases x) (auto simp: live_def keeps_def operand_value_def)

lemma emit_gives:
  assumes g: "gives st m s e sx e1 t0 a"
    and x: "exec_inst (e1, m) ((new_inst op t (Some (temps_of (fst sx))))\<lparr>i_a := snd sx, i_b := y\<rparr>) =
      Some (e1(temps_of (fst sx) := v), m)"
  shows "gives st m s e (emit (fst sx) op t (snd sx) y) (e1(temps_of (fst sx) := v)) t v"
  using assms
  by (auto simp: gives_def emit_def ir_temp_def exec_all_append temps_of_def keeps_def live_def
      operand_value_def ir_temp_op_def)

lemma int_op_emits: 
  assumes g: "gives st m s e sx e1 t0 a" and i: "op \<in> set int_ops" 
    and v: "int_spec (bits t0) op a (operand_value e1 y) = Some v"
  shows "gives st m s e (emit (fst sx) op t (snd sx) y) (e1(temps_of (fst sx) := v)) t v"
proof -
  have op: "op \<noteq> IR_LOAD \<and> op \<noteq> IR_STORE \<and> op \<noteq> IR_PTRADD \<and> op \<noteq> IR_COPY \<and> op \<noteq> IR_NEG \<and> op \<noteq> IR_NOT \<and>
      op \<noteq> IR_TRUNC \<and> op \<noteq> IR_ZEXT \<and> op \<noteq> IR_SEXT"
    using i by (auto simp: int_ops_def)
  show ?thesis
    using g v op by (intro emit_gives [OF g])
      (auto simp: exec_inst_def Let_def new_inst_def inst_value_def set_result_def gives_def)
qed

lemma convert_gives:
  assumes g: "gives st m s e sx e1 src a" and a: "a < 2 ^ bits src"
  shows "\<exists>e2. gives st m s e (convert (fst sx) (snd sx) src dst ext) e2 (if bits src = bits dst then src else dst)
    (if bits src < bits dst \<and> ext = IR_EXT_SIGN then enc (bits dst) (sval (bits src) a) else a mod 2 ^ bits dst)"
proof (cases "bits src = bits dst")
  case True
  then show ?thesis using g a by (auto simp: convert_def)
next
  case False
  let ?op = "if bits dst < bits src then IR_TRUNC else if ext = IR_EXT_SIGN then IR_SEXT else IR_ZEXT"
  let ?v = "if bits src < bits dst \<and> ext = IR_EXT_SIGN then enc (bits dst) (sval (bits src) a) else a mod 2 ^ bits dst"
  have "gives st m s e (emit (fst sx) ?op dst (snd sx) IR_NONE) (e1(temps_of (fst sx) := ?v)) dst ?v"
    using g False by (intro emit_gives [OF g])
      (auto simp: exec_inst_def Let_def new_inst_def inst_value_def set_result_def gives_def)
  then show ?thesis using False by (auto simp: convert_def)
qed

section \<open>Loads\<close>

lemma evaluates_operand: "evaluates (operand_value e)"
  by (simp add: evaluates_def operand_value_def)

lemma count_value:
  assumes "fixed_int t" and "k < bits t"
  shows "operand_value e (ir_int_op t (of_nat k)) = k"
proof -
  have "k < 64" using assms(2) bits_le [of t] by simp
  then have k: "unat (of_nat k :: u64) = k" by (simp add: unsigned_of_nat take_bit_nat_eq_self)
  have "k < 2 ^ bits t" using assms(2) less_exp [of "bits t"] by linarith
  then show ?thesis using int_op_value [OF assms(1) evaluates_operand, of "of_nat k" e] k by simp
qed

lemma low_bits_value: "w < 64 \<Longrightarrow> unat (low_bits w) = 2 ^ w - 1"
proof -
  assume w: "w < 64"
  have l: "low_bits w = of_nat (2 ^ w - 1)" using w by (simp add: low_bits_def push_bit_eq_mult of_nat_diff)
  have "(2 :: nat) ^ w < 2 ^ 64" using w by (intro power_strict_increasing) auto
  then show ?thesis unfolding l unsigned_of_nat by (subst take_bit_nat_eq_self) simp_all
qed

lemma and_low_bits: "(a :: nat) AND (2 ^ k - Suc 0) = a mod 2 ^ k"
  using and_mask_nat [of a k] by simp

lemma mask_value:
  assumes "fixed_int t" and "w < bits t"
  shows "operand_value e (ir_int_op t (low_bits w)) = 2 ^ w - 1"
proof -
  have "w < 64" using assms(2) bits_le [of t] by simp
  note u = low_bits_value [OF this]
  have "(2 :: nat) ^ w - 1 < 2 ^ bits t"
    using power_strict_increasing [OF assms(2), of "2 :: nat"] by linarith
  then show ?thesis using int_op_value [OF assms(1) evaluates_operand, of "low_bits w" e] u by simp
qed

lemma emit_if_gives:
  assumes g: "gives st m s e sx e1 t a" and i: "op \<in> set int_ops"
    and v: "c \<Longrightarrow> int_spec (bits t) op a (operand_value e1 y) = Some v" "\<not> c \<Longrightarrow> v = a"
  shows "\<exists>e2. gives st m s e (emit_if c op t y sx) e2 t v"
proof (cases c)
  case True
  then show ?thesis using int_op_emits [OF g i v(1), of t] by (auto simp: emit_if_def)
next
  case False
  then show ?thesis using g v(2) by (auto simp: emit_if_def)
qed

lemma field_bound: "w \<le> n \<Longrightarrow> x mod 2 ^ w < (2 :: nat) ^ n"
  by (rule order_less_le_trans [of _ "2 ^ w"]) (simp_all add: power_increasing)

lemma load_unsigned_gives:
  assumes g: "gives st m s e sw e1 unit W" and W: "W < 2 ^ bits unit" and u: "fixed_int unit"
    and place: "lb_unit_type place = unit" "lb_shift place = sh" "fd_bits field = w" "0 < w" "sh + w \<le> bits unit"
  shows "\<exists>e2 t. gives st m s e (load_unsigned field place inst sw) e2 t
    ((W div 2 ^ sh) mod 2 ^ w mod 2 ^ bits (i_type inst))"
proof -
  let ?s1 = "emit_if (sh \<noteq> 0) IR_SHR_U unit (ir_int_op unit (of_nat sh)) sw"
  let ?s2 = "emit_if (w < bits unit) IR_AND unit (ir_int_op unit (low_bits w)) ?s1"
  have sh: "sh < bits unit" using place by simp
  obtain e2 where g2: "gives st m s e ?s1 e2 unit (W div 2 ^ sh)"
    using emit_if_gives [OF g, of IR_SHR_U "sh \<noteq> 0" "ir_int_op unit (of_nat sh)" "W div 2 ^ sh"]
      count_value [OF u sh] sh by (auto simp: int_ops_def int_spec_def)
  have full: "\<not> w < bits unit \<Longrightarrow> W div 2 ^ sh mod 2 ^ w = W div 2 ^ sh"
    using W place by (cases "sh = 0") auto
  obtain e3 where g3: "gives st m s e ?s2 e3 unit (W div 2 ^ sh mod 2 ^ w)"
    using emit_if_gives [OF g2, of IR_AND "w < bits unit" "ir_int_op unit (low_bits w)" "W div 2 ^ sh mod 2 ^ w"]
      mask_value [OF u, of w] full by (auto simp: int_ops_def int_spec_def and_low_bits)
  have "W div 2 ^ sh mod 2 ^ w < 2 ^ bits unit"
    using field_bound [of w "bits unit" "W div 2 ^ sh"] place by simp
  then show ?thesis
    using convert_gives [OF g3, of "i_type inst" IR_EXT_ZERO] place
    by (auto simp: load_unsigned_def Let_def)
qed

lemma enc_lt: "enc n i < 2 ^ n"
  by (simp add: enc_def nat_less_iff)

lemma enc_mod: "m \<le> n \<Longrightarrow> enc n i mod 2 ^ m = enc m i"
proof -
  assume "m \<le> n"
  then have "int (enc n i mod 2 ^ m) = int (enc m i)"
    by (simp add: enc_def zmod_int mod_mod_cancel le_imp_power_dvd)
  then show ?thesis by (simp only: of_nat_eq_iff)
qed

lemma sval_enc:
  assumes "- (2 ^ (n - 1)) \<le> i" and "i < 2 ^ (n - 1)" and "0 < n"
  shows "sval n (enc n i) = i"
proof -
  have n: "(2 :: int) ^ n = 2 * 2 ^ (n - 1)" using assms(3) by (simp flip: power_Suc)
  show ?thesis
  proof (cases "0 \<le> i")
    case True
    then have "enc n i = nat i" using assms(2) n by (simp add: enc_def)
    then show ?thesis using True assms(2) by (simp add: sval_def nat_less_iff)
  next
    case False
    then have "(i + 2 ^ n) mod 2 ^ n = i + 2 ^ n" using assms(1) n by (intro mod_pos_pos_trivial) auto
    then have "i mod 2 ^ n = i + 2 ^ n" by simp
    moreover have "0 \<le> i + 2 ^ n" "2 ^ (n - 1) \<le> i + 2 ^ n"
      using assms(1) n zero_less_power [of "2 :: int" "n - 1"] by linarith+
    ultimately have "int (enc n i) = i + 2 ^ n" "enc n i \<ge> 2 ^ (n - 1)"
      by (simp_all add: enc_def le_nat_iff)
    then show ?thesis by (simp add: sval_def)
  qed
qed

lemma enc_sval_wide:
  assumes "X < 2 ^ w" and "0 < w" and "w \<le> n"
  shows "enc n (sval w X) < 2 ^ n" and "sval n (enc n (sval w X)) = sval w X"
proof -
  have "(2 :: int) ^ (w - 1) \<le> 2 ^ (n - 1)" using assms(3) by (intro power_increasing) auto
  then show "sval n (enc n (sval w X)) = sval w X"
    using sval_range [OF assms(1,2)] assms(2,3) by (intro sval_enc) linarith+
qed (rule enc_lt)

text \<open>Shifting a field to the top of \<open>n\<close> bits and back gives its signed value.\<close>

lemma shift_up:
  fixes W :: nat
  assumes "up + sh + w = n" and "0 < w"
  defines "X \<equiv> W div 2 ^ sh mod 2 ^ w"
  shows "sval n (W * 2 ^ up mod 2 ^ n) div 2 ^ (n - w) = sval w X" and "W * 2 ^ up mod 2 ^ n < 2 ^ n"
proof -
  let ?A = "W * 2 ^ up mod 2 ^ n" and ?low = "2 ^ up * (W mod 2 ^ sh)"
  have n: "(2 :: nat) ^ n = 2 ^ up * (2 ^ sh * 2 ^ w)" "n - w = up + sh"
    using assms(1) by (simp_all flip: power_add add: add.assoc)
  have "W mod (2 ^ sh * 2 ^ w) = 2 ^ sh * X + W mod 2 ^ sh"
    unfolding X_def by (rule mod_mult2_eq)
  then have "?A = 2 ^ up * (2 ^ sh * X + W mod 2 ^ sh)"
    by (simp add: n mult.commute [of W] mult_mod_right [symmetric] del: power_add)
  then have A: "?A = ?low + 2 ^ (n - w) * X" by (simp add: n(2) power_add algebra_simps)
  have "W mod 2 ^ sh < 2 ^ sh" by simp
  then have low: "?low < 2 ^ (n - w)" by (simp add: n(2) power_add)
  have quot: "(int ?low + 2 ^ (n - w) * i) div 2 ^ (n - w) = i" for i
  proof -
    have "int ?low < int (2 ^ (n - w))" using low by (simp only: of_nat_less_iff)
    then have "int ?low div 2 ^ (n - w) = 0" by (intro div_pos_pos_trivial) simp_all
    then show ?thesis using div_mult_self2 [of "2 ^ (n - w) :: int" "int ?low" i] by simp
  qed
  have top: "?A < 2 ^ (n - 1) \<longleftrightarrow> X < 2 ^ (w - 1)"
  proof -
    have p: "(2 :: nat) ^ (n - 1) = 2 ^ (n - w) * 2 ^ (w - 1)"
      using assms(1,2) by (simp flip: power_add)
    have "?A < 2 ^ (n - w) * 2 ^ (w - 1) \<longleftrightarrow> ?A div 2 ^ (n - w) < 2 ^ (w - 1)"
      by (simp add: div_less_iff_less_mult mult.commute)
    moreover have "?A div 2 ^ (n - w) = X" using A low by simp
    ultimately show ?thesis by (simp only: p)
  qed
  have whole: "(2 :: int) ^ n = 2 ^ (n - w) * 2 ^ w"
    using assms(1) by (simp flip: power_add)
  have "int ?A = int ?low + 2 ^ (n - w) * int X" unfolding A by simp
  moreover have "sval n ?A = (if X < 2 ^ (w - 1) then int ?A else int ?A - 2 ^ n)"
    by (simp only: sval_def top)
  ultimately have "sval n ?A = int ?low + 2 ^ (n - w) * sval w X"
    by (simp add: sval_def whole algebra_simps)
  then show "sval n ?A div 2 ^ (n - w) = sval w X" using quot by simp
qed simp

lemma load_signed_gives:
  assumes g: "gives st m s e sw e1 unit W" and W: "W < 2 ^ bits unit" and u: "fixed_int unit"
    and place: "lb_unit_type place = unit" "lb_shift place = sh" "fd_bits field = w" "0 < w" "sh + w \<le> bits unit"
  shows "\<exists>e2 t. gives st m s e (load_signed field place inst sw) e2 t
    (enc (bits (i_type inst)) (sval w ((W div 2 ^ sh) mod 2 ^ w)))"
proof -
  let ?n = "bits unit" and ?X = "(W div 2 ^ sh) mod 2 ^ w"
  obtain up where up: "up + sh + w = ?n" using place(5) by (metis add.assoc add.commute le_add_diff_inverse)
  have upz: "int ?n - int sh - int w = int up" using up by simp
  let ?s1 = "emit_if (up \<noteq> 0) IR_SHL unit (ir_int_op unit (of_nat up)) sw"
  let ?s2 = "emit_if (w < ?n) IR_SHR_S unit (ir_int_op unit (of_nat ?n - of_nat w)) ?s1"
  let ?A = "W * 2 ^ up mod 2 ^ ?n"
  obtain e2 where g2: "gives st m s e ?s1 e2 unit ?A"
    using emit_if_gives [OF g, of IR_SHL "up \<noteq> 0" "ir_int_op unit (of_nat up)" ?A]
      count_value [OF u, of up] up place(4) W by (auto simp: int_ops_def int_spec_def)
  note again = shift_up [OF up place(4), of W]
  have cnt: "w < ?n \<Longrightarrow> operand_value e (ir_int_op unit (of_nat ?n - of_nat w)) = ?n - w" for e
    using count_value [OF u, of "?n - w"] place(4) by (simp add: of_nat_diff)
  have full: "\<not> w < ?n \<Longrightarrow> ?A = enc ?n (sval w ?X)"
  proof -
    assume "\<not> w < ?n"
    then have "up = 0" "sh = 0" "w = ?n" using up by auto
    then show ?thesis using W enc_sval [of W ?n] by simp
  qed
  have nlt: "\<not> ?n \<le> ?n - w" using bits_pos [of unit] place(4) by linarith
  have e3: "w < ?n \<Longrightarrow>
      int_spec ?n IR_SHR_S ?A (operand_value e' (ir_int_op unit (of_nat ?n - of_nat w))) = Some (enc ?n (sval w ?X))" for e'
    using cnt [of e'] again(1) nlt by (simp add: int_spec_def)
  obtain e3 where g3: "gives st m s e ?s2 e3 unit (enc ?n (sval w ?X))"
    using emit_if_gives [OF g2, of IR_SHR_S "w < ?n" "ir_int_op unit (of_nat ?n - of_nat w)" "enc ?n (sval w ?X)"]
      e3 full by (auto simp: int_ops_def)
  have X: "?X < 2 ^ w" by simp
  have "w \<le> ?n" using up by simp
  then have e: "enc ?n (sval w ?X) < 2 ^ ?n" "sval ?n (enc ?n (sval w ?X)) = sval w ?X"
    using enc_sval_wide [OF X place(4)] by auto
  have "\<exists>e4. gives st m s e (convert (fst ?s2) (snd ?s2) unit (i_type inst) IR_EXT_SIGN) e4
      (if ?n = bits (i_type inst) then unit else i_type inst) (enc (bits (i_type inst)) (sval w ?X))"
    using convert_gives [OF g3 e(1), of "i_type inst" IR_EXT_SIGN] e(2) enc_mod [of "bits (i_type inst)" ?n]
    by (cases "?n < bits (i_type inst)") auto
  moreover have "load_signed field place inst sw = convert (fst ?s2) (snd ?s2) unit (i_type inst) IR_EXT_SIGN"
    unfolding load_signed_def Let_def place upz by (simp only: of_int_of_nat_eq of_nat_eq_0_iff)
  ultimately show ?thesis by auto
qed

section \<open>Stores\<close>

lemma keep_mask_value:
  assumes "fixed_int t" and "sh + w \<le> bits t" and "0 < w"
  shows "bit (operand_value e (ir_int_op t (NOT (push_bit sh (low_bits w))))) j \<longleftrightarrow>
    j < bits t \<and> \<not> (sh \<le> j \<and> j < sh + w)"
proof -
  have v: "operand_value e (ir_int_op t v) = unat (trim t v)" for v
    using assms(1) by (auto simp: ir_int_op_def operand_value_def trim_def bits_def fixed_int_def)
  have l: "bit (low_bits w) i \<longleftrightarrow> i < w \<and> i < 64" for i
  proof -
    have "low_bits w = mask w" if "w \<noteq> 64"
      using that by (simp add: low_bits_def mask_eq_exp_minus_1)
    then show ?thesis by (cases "w = 64") (auto simp: low_bits_def bit_mask_iff possible_bit_def)
  qed
  have "bit (NOT (push_bit sh (low_bits w))) j \<longleftrightarrow> j < 64 \<and> \<not> (sh \<le> j \<and> j - sh < w)"
    by (simp add: bit_not_iff bit_push_bit_iff l possible_bit_def) (cases "sh \<le> j"; simp; arith?)
  then show ?thesis
    using bits_le [of t] assms(2)
    by (simp add: v trim_take_bit bit_unsigned_iff bit_take_bit_iff) (cases "j < bits t"; simp; arith?)
qed

text \<open>The unit after a store: the bits of the value at the shift, the bits of the unit elsewhere.\<close>

definition merge_bits :: "nat \<Rightarrow> nat \<Rightarrow> nat \<Rightarrow> nat \<Rightarrow> nat \<Rightarrow> bool" where
  "merge_bits sh w v W j \<longleftrightarrow> (if sh \<le> j \<and> j < sh + w then bit v (j - sh) else bit W j)"

lemma store_value:
  assumes "W < 2 ^ n" and "sh + w \<le> n" and "v = x mod 2 ^ w * 2 ^ sh mod 2 ^ n"
    and "\<And>j. bit K j \<longleftrightarrow> j < n \<and> \<not> (sh \<le> j \<and> j < sh + w)"
  shows "bit ((W AND K) OR v) j \<longleftrightarrow> merge_bits sh w x W j"
proof -
  have "v = push_bit sh (take_bit w x)"
  proof -
    have "take_bit w x * 2 ^ sh < 2 ^ w * 2 ^ sh" by (simp add: take_bit_eq_mod)
    also have "\<dots> \<le> 2 ^ n" using assms(2) by (simp add: power_increasing add.commute flip: power_add)
    finally show ?thesis using assms(3) by (simp add: push_bit_eq_mult take_bit_eq_mod)
  qed
  then have v: "bit v j \<longleftrightarrow> sh \<le> j \<and> j - sh < w \<and> bit x (j - sh)"
    by (simp only: bit_push_bit_iff bit_take_bit_iff) simp
  have split: "sh \<le> j \<and> j - sh < w \<longleftrightarrow> sh \<le> j \<and> j < sh + w" by arith
  show ?thesis
  proof (cases "sh \<le> j \<and> j < sh + w")
    case True
    then show ?thesis using v split by (simp add: merge_bits_def bit_or_iff bit_and_iff assms(4))
  next
    case False
    then have "bit ((W AND K) OR v) j \<longleftrightarrow> bit W j"
      using v split bit_nat_lt [OF assms(1), of j] by (simp add: bit_or_iff bit_and_iff assms(4)) blast
    then show ?thesis using False by (simp only: merge_bits_def if_False)
  qed
qed

lemma fixed_bits_inj: "fixed_int t \<Longrightarrow> fixed_int u \<Longrightarrow> bits t = bits u \<Longrightarrow> t = u"
  by (auto simp: fixed_int_def bits_def split: if_splits)

lemma store_field_runs:
  assumes g: "gives st m s e (s1, word) e1 unit W" and W: "W < 2 ^ bits unit" and u: "fixed_int unit"
    and place: "lb_unit_type place = unit" "lb_shift place = sh" "fd_bits field = w" "0 < w" "sh + w \<le> bits unit"
    and a: "live s (i_a inst)" "op_type (i_a inst) = i_type inst" "operand_value e (i_a inst) = x" "x < 2 ^ bits (i_type inst)"
    and fixed: "fixed_int (i_type inst)"
    and p: "live s pointer" "operand_value e pointer = q"
  shows "\<exists>e2 W'. exec_all st (snd (store_field field place inst pointer (s1, word))) =
      Some (e2, mem_store m q (bits unit div 8) W') \<and> (\<forall>i<temps_of s. e2 i = e i) \<and>
      (\<forall>j. bit W' j \<longleftrightarrow> merge_bits sh w x W j)"
proof -
  let ?n = "bits unit"
  let ?c = "convert s1 (i_a inst) (i_type inst) unit IR_EXT_ZERO"
  let ?s2 = "emit_if (w < ?n) IR_AND unit (ir_int_op unit (low_bits w)) ?c"
  let ?s3 = "emit_if (sh \<noteq> 0) IR_SHL unit (ir_int_op unit (of_nat sh)) ?s2"
  let ?K = "ir_int_op unit (NOT (push_bit sh (low_bits w)))"
  let ?s4 = "emit (fst ?s3) IR_AND unit word ?K"
  let ?s5 = "emit (fst ?s4) IR_OR unit (snd ?s4) (snd ?s3)"
  have k1: "keeps s e s1 e1" and run1: "exec_all st (snd s1) = Some (e1, m)"
    using g by (auto simp: gives_def)
  have ga: "gives st m s1 e1 (s1, i_a inst) e1 (i_type inst) x"
    using run1 a live_value [OF a(1) k1] by (auto simp: gives_def keeps_def)
  have "(if bits (i_type inst) = ?n then i_type inst else unit) = unit"
    using fixed_bits_inj [OF fixed u] by auto
  then obtain e2 where g2: "gives st m s1 e1 ?c e2 unit (x mod 2 ^ ?n)"
    using convert_gives [OF ga a(4), of unit IR_EXT_ZERO] by auto
  have "int_spec ?n IR_AND (x mod 2 ^ ?n) (operand_value e' (ir_int_op unit (low_bits w))) = Some (x mod 2 ^ w)"
    if "w < ?n" for e'
    using mask_value [OF u that] that by (simp add: int_spec_def and_low_bits mod_mod_cancel le_imp_power_dvd)
  moreover have "\<not> w < ?n \<Longrightarrow> x mod 2 ^ w = x mod 2 ^ ?n"
    using place(5) by (metis add_leD2 le_neq_implies_less)
  ultimately obtain e3 where g3: "gives st m s1 e1 ?s2 e3 unit (x mod 2 ^ w)"
    using emit_if_gives [OF g2, of IR_AND "w < ?n" "ir_int_op unit (low_bits w)" "x mod 2 ^ w"]
    by (auto simp: int_ops_def)
  let ?v = "x mod 2 ^ w * 2 ^ sh mod 2 ^ ?n"
  have "int_spec ?n IR_SHL (x mod 2 ^ w) (operand_value e' (ir_int_op unit (of_nat sh))) = Some ?v" for e'
    using count_value [OF u, of sh] place(4,5) by (simp add: int_spec_def)
  moreover have "\<not> sh \<noteq> 0 \<Longrightarrow> ?v = x mod 2 ^ w" using field_bound [of w ?n x] place(5) by simp
  ultimately obtain e4 where g4: "gives st m s1 e1 ?s3 e4 unit ?v"
    using emit_if_gives [OF g3, of IR_SHL "sh \<noteq> 0" "ir_int_op unit (of_nat sh)" ?v]
    by (auto simp: int_ops_def)
  have k4: "keeps s1 e1 (fst ?s3) e4" and run4: "exec_all st (snd (fst ?s3)) = Some (e4, m)"
    using g4 by (auto simp: gives_def)
  have g5: "gives st m (fst ?s3) e4 (fst ?s3, word) e4 unit W"
    using g run4 live_value [OF _ k4, of word] by (auto simp: gives_def keeps_def)
  let ?A = "W AND operand_value e4 ?K"
  have g6: "gives st m (fst ?s3) e4 ?s4 (e4(temps_of (fst ?s3) := ?A)) unit ?A"
    using int_op_emits [OF g5, of IR_AND ?K ?A unit] by (simp add: int_ops_def int_spec_def)
  let ?e6 = "e4(temps_of (fst ?s3) := ?A)"
  have k6: "keeps (fst ?s3) e4 (fst ?s4) ?e6" using g6 by (simp add: gives_def)
  have v6: "operand_value ?e6 (snd ?s3) = ?v"
    using live_value [OF _ k6, of "snd ?s3"] g4 by (simp add: gives_def)
  let ?W' = "?A OR ?v"
  have g7: "gives st m (fst ?s3) e4 ?s5 (?e6(temps_of (fst ?s4) := ?W')) unit ?W'"
    using int_op_emits [OF g6, of IR_OR "snd ?s3" ?W' unit] v6 by (simp add: int_ops_def int_spec_def)
  let ?e7 = "?e6(temps_of (fst ?s4) := ?W')"
  have k: "keeps s e (fst ?s5) ?e7"
    using k1 k4 g7 by (auto simp: gives_def keeps_def)
  have q: "operand_value ?e7 pointer = q" using live_value [OF p(1) k] p(2) by simp
  have "exec_all st (snd (store_field field place inst pointer (s1, word))) =
      Some (?e7, mem_store m q (?n div 8) ?W')"
    using g7 q unfolding gives_def
    by (simp add: store_field_def Let_def place emit_store_def exec_all_append exec_inst_def new_inst_def)
  moreover have "bit ?W' j \<longleftrightarrow> merge_bits sh w x W j" for j
    by (rule store_value [OF W place(5) refl]) (rule keep_mask_value [OF u place(5) place(4)])
  ultimately show ?thesis using k by (auto simp: keeps_def)
qed

section \<open>A bitfield is a run of bits\<close>

definition field_placed :: "ir_field \<Rightarrow> layout_bits \<Rightarrow> bool" where
  "field_placed field place \<longleftrightarrow> fixed_int (lb_unit_type place) \<and> 0 < fd_bits field \<and>
     lb_shift place + fd_bits field \<le> bits (lb_unit_type place)"

text \<open>The first bit of the field in an aggregate at address \<open>p\<close>.\<close>

definition field_pos :: "layout_bits \<Rightarrow> nat \<Rightarrow> nat" where
  "field_pos place p = 8 * (p + unat (lb_unit_offset place)) + lb_shift place"

lemma bits_bytes: "fixed_int t \<Longrightarrow> 8 * (bits t div 8) = bits t"
  by (auto simp: fixed_int_def bits_def)

lemma unit_loaded:
  assumes r: "exec_all st (snd s) = Some (e, m)" and b: "live s base" "operand_value e base = p"
    and u: "fixed_int unit" and p: "p + unat off < 2 ^ 64"
    and sp: "sp = emit_if (off \<noteq> 0) IR_PTRADD IR_PTR (ir_int_op IR_I64 off) (s, base)"
  shows "\<exists>e1 e2. gives st m s e sp e1 (op_type (snd sp)) (p + unat off) \<and>
    gives st m s e (emit (fst sp) IR_LOAD unit (snd sp) IR_NONE) e2 unit (mem_load m (p + unat off) (bits unit div 8)) \<and>
    mem_load m (p + unat off) (bits unit div 8) < 2 ^ bits unit"
proof -
  have g: "gives st m s e (s, base) e (op_type base) p"
    using r b by (simp add: gives_def keeps_def)
  obtain e1 where g1: "gives st m s e sp e1 (op_type (snd sp)) (p + unat off)"
  proof (cases "off = 0")
    case True
    then show ?thesis using g that by (auto simp: sp emit_if_def gives_def)
  next
    case False
    have v: "operand_value x (ir_int_op IR_I64 off) = unat off" for x
      by (simp add: ir_int_op_def operand_value_def)
    have "gives st m s e (emit s IR_PTRADD IR_PTR base (ir_int_op IR_I64 off)) (e(temps_of s := p + unat off))
        IR_PTR (p + unat off)"
      using emit_gives [OF g, where op = IR_PTRADD and t = IR_PTR and y = "ir_int_op IR_I64 off" and v = "p + unat off"] b p
      by (simp add: exec_inst_def Let_def new_inst_def set_result_def v)
    then show ?thesis using False that by (auto simp: sp emit_if_def gives_def)
  qed
  have "256 ^ (bits unit div 8) = (2 :: nat) ^ bits unit"
    using bits_bytes [OF u] power_mult [of "2 :: nat" 8 "bits unit div 8"] by simp
  then have "mem_load m (p + unat off) (bits unit div 8) < 2 ^ bits unit"
    using mem_load_bound [of m "p + unat off" "bits unit div 8"] by simp
  moreover have "operand_value e1 (snd sp) = p + unat off" using g1 by (simp add: gives_def)
  ultimately show ?thesis
    using g1 emit_gives [OF g1, where op = IR_LOAD and t = unit and y = IR_NONE and v = "mem_load m (p + unat off) (bits unit div 8)"]
    by (auto simp: exec_inst_def Let_def new_inst_def set_result_def)
qed

lemma assign_runs:
  "gives st m s e sx e1 t v \<Longrightarrow> exec_all st (snd (emit_assign (fst sx) r (snd sx))) = Some (e1(r := v), m)"
  by (simp add: gives_def emit_assign_def exec_all_append exec_inst_def Let_def new_inst_def inst_value_def
      set_result_def)

lemma unit_loaded_at:
  assumes g: "gives st m s e sp e1 t q"
  shows "gives st m (fst sp) e1 (emit (fst sp) IR_LOAD unit (snd sp) IR_NONE)
    (e1(temps_of (fst sp) := mem_load m q (bits unit div 8))) unit (mem_load m q (bits unit div 8))"
proof -
  have "gives st m (fst sp) e1 sp e1 t q" using g by (simp add: gives_def keeps_def)
  from emit_gives [OF this, where op = IR_LOAD and t = unit and y = IR_NONE and v = "mem_load m q (bits unit div 8)"]
  show ?thesis using g by (simp add: exec_inst_def Let_def new_inst_def set_result_def gives_def)
qed

lemma unit_field:
  assumes "field_placed field place" and "pos = field_pos place p"
  shows "mem_load m (p + unat (lb_unit_offset place)) (bits (lb_unit_type place) div 8) div 2 ^ lb_shift place mod
    2 ^ fd_bits field = read_field m pos (fd_bits field)"
proof (rule bit_eqI)
  fix j
  have n: "8 * (bits (lb_unit_type place) div 8) = bits (lb_unit_type place)"
    using assms(1) bits_bytes by (simp add: field_placed_def)
  have "bit (x div 2 ^ k mod 2 ^ w) j \<longleftrightarrow> j < w \<and> bit x (k + j)" for x k w :: nat
    by (simp add: bit_take_bit_iff bit_drop_bit_eq flip: take_bit_eq_mod drop_bit_eq_div)
  then show "bit (mem_load m (p + unat (lb_unit_offset place)) (bits (lb_unit_type place) div 8) div
      2 ^ lb_shift place mod 2 ^ fd_bits field) j \<longleftrightarrow> bit (read_field m pos (fd_bits field)) j"
    using assms by (auto simp: mem_load_bit read_field_bit field_pos_def field_placed_def n add.assoc)
qed

text \<open>
  C10. A lowered bitfield load reads the bits of the field, however they lie in the unit: the instructions
  of \<open>lower_bits\<close> give the result the number that \<open>read_field\<close> takes from the memory bit by bit, extended
  to the type of the load by the sign of the field, and change no memory and no other temporary.
\<close>

theorem bitload_reads_field:
  assumes "exec_all st (snd s) = Some (e, m)" and "i_op inst = IR_BITLOAD" and "i_result inst = Some r"
    and "live s (i_a inst)" and "operand_value e (i_a inst) = p" and "field_placed field place"
    and "p + unat (lb_unit_offset place) < 2 ^ 64"
    and "x = read_field m (field_pos place p) (fd_bits field)" and "n = bits (i_type inst)"
  shows "\<exists>e'. exec_all st (snd (lower_bits_at field place s inst)) = Some (e', m) \<and>
    e' r = (if fd_ext field = IR_EXT_SIGN then enc n (sval (fd_bits field) x) else x mod 2 ^ n) \<and>
    (\<forall>i. i < temps_of s \<and> i \<noteq> r \<longrightarrow> e' i = e i)"
proof -
  let ?unit = "lb_unit_type place" and ?off = "lb_unit_offset place"
  let ?W = "mem_load m (p + unat ?off) (bits ?unit div 8)"
  define sp where "sp = emit_if (?off \<noteq> 0) IR_PTRADD IR_PTR (ir_int_op IR_I64 ?off) (s, i_a inst)"
  let ?sw = "emit (fst sp) IR_LOAD ?unit (snd sp) IR_NONE"
  have u: "fixed_int ?unit" "0 < fd_bits field" "lb_shift place + fd_bits field \<le> bits ?unit"
    using assms(6) by (simp_all add: field_placed_def)
  obtain e2 where g: "gives st m s e ?sw e2 ?unit ?W" and W: "?W < 2 ^ bits ?unit"
    using unit_loaded [OF assms(1,4,5) u(1) assms(7) sp_def] by auto
  note x = unit_field [OF assms(6) refl, of m p, folded assms(8)]
  let ?sv = "if fd_ext field = IR_EXT_SIGN then load_signed field place inst ?sw else load_unsigned field place inst ?sw"
  let ?v = "if fd_ext field = IR_EXT_SIGN then enc n (sval (fd_bits field) x) else x mod 2 ^ n"
  obtain e3 t where g3: "gives st m s e ?sv e3 t ?v"
  proof (cases "fd_ext field = IR_EXT_SIGN")
    case True
    obtain e2 t where "gives st m s e (load_signed field place inst ?sw) e2 t (enc n (sval (fd_bits field) x))"
      using load_signed_gives [OF g W u(1) refl refl refl u(2,3), of inst] unfolding x assms(9) by blast
    then show ?thesis using that True by simp
  next
    case False
    obtain e2 t where "gives st m s e (load_unsigned field place inst ?sw) e2 t (x mod 2 ^ n)"
      using load_unsigned_gives [OF g W u(1) refl refl refl u(2,3), of inst] unfolding x assms(9) by blast
    then show ?thesis using that False by simp
  qed
  have "exec_all st (snd (lower_bits_at field place s inst)) = Some (e3(r := ?v), m)"
  proof -
    have "lower_bits_at field place s inst = emit_assign (fst ?sv) r (snd ?sv)"
      using assms(2,3) by (simp add: lower_bits_at_def Let_def sp_def [symmetric] split_def)
    then show ?thesis using assign_runs [OF g3, of r] by simp
  qed
  then show ?thesis using g3 by (auto simp: gives_def keeps_def)
qed

text \<open>
  C1. A lowered bitfield store writes the bits of the field and nothing else: the memory after the
  instructions of \<open>lower_bits\<close> is \<open>write_field\<close> of the memory before, in which only the bits of the field
  have changed, and no temporary that the function had has another value.
\<close>

theorem bitstore_writes_field:
  assumes "exec_all st (snd s) = Some (e, m)" and "i_op inst = IR_BITSTORE"
    and "live s (i_a inst)" and "op_type (i_a inst) = i_type inst" and "fixed_int (i_type inst)"
    and "operand_value e (i_a inst) = x" and "x < 2 ^ bits (i_type inst)"
    and "live s (i_b inst)" and "operand_value e (i_b inst) = p" and "field_placed field place"
    and "p + unat (lb_unit_offset place) < 2 ^ 64"
  shows "\<exists>e'. exec_all st (snd (lower_bits_at field place s inst)) =
      Some (e', write_field m (field_pos place p) (fd_bits field) x) \<and> (\<forall>i. i < temps_of s \<longrightarrow> e' i = e i)"
proof -
  let ?unit = "lb_unit_type place" and ?off = "lb_unit_offset place"
  let ?q = "p + unat ?off" and ?k = "bits ?unit div 8"
  let ?W = "mem_load m ?q ?k"
  define sp where "sp = emit_if (?off \<noteq> 0) IR_PTRADD IR_PTR (ir_int_op IR_I64 ?off) (s, i_b inst)"
  let ?sw = "emit (fst sp) IR_LOAD ?unit (snd sp) IR_NONE"
  have u: "fixed_int ?unit" "0 < fd_bits field" "lb_shift place + fd_bits field \<le> bits ?unit"
    using assms(10) by (simp_all add: field_placed_def)
  obtain e1 e2 where g1: "gives st m s e sp e1 (op_type (snd sp)) ?q"
    and g: "gives st m s e ?sw e2 ?unit ?W" and W: "?W < 2 ^ bits ?unit"
    using unit_loaded [OF assms(1,8,9) u(1) assms(11) sp_def] by auto
  have g': "gives st m (fst sp) e1 (fst ?sw, snd ?sw) (e1(temps_of (fst sp) := ?W)) ?unit ?W"
    and run: "exec_all st (snd (fst sp)) = Some (e1, m)" and k1: "keeps s e (fst sp) e1"
    using unit_loaded_at [OF g1, of ?unit] g1 by (auto simp: gives_def)
  obtain e3 W' where r: "exec_all st (snd (store_field field place inst (snd sp) (fst ?sw, snd ?sw))) =
      Some (e3, mem_store m ?q ?k W')" "\<forall>i<temps_of (fst sp). e3 i = e1 i"
    "\<forall>j. bit W' j \<longleftrightarrow> merge_bits (lb_shift place) (fd_bits field) x ?W j"
    using store_field_runs [OF g' W u(1) refl refl refl u(2,3), of inst x "snd sp" ?q] assms(3-7) g1
      live_value [OF assms(3) k1] by (auto simp: gives_def)
  have n: "8 * ?k = bits ?unit" using bits_bytes [OF u(1)] .
  have "mem_store m ?q ?k W' = write_field m (field_pos place p) (fd_bits field) x"
  proof (rule memory_eqI)
    fix i
    show "mem_bit (mem_store m ?q ?k W') i \<longleftrightarrow> mem_bit (write_field m (field_pos place p) (fd_bits field) x) i"
    proof (cases "8 * ?q \<le> i \<and> i < 8 * (?q + ?k)")
      case True
      then have "mem_bit (mem_store m ?q ?k W') i \<longleftrightarrow>
          merge_bits (lb_shift place) (fd_bits field) x ?W (i - 8 * ?q)"
        using r(3) by (simp add: mem_store_bit)
      moreover have "mem_bit m i \<longleftrightarrow> bit ?W (i - 8 * ?q)" using True by (auto simp: mem_load_bit)
      moreover have "lb_shift place \<le> i - 8 * ?q \<and> i - 8 * ?q < lb_shift place + fd_bits field \<longleftrightarrow>
          field_pos place p \<le> i \<and> i < field_pos place p + fd_bits field"
        using True unfolding field_pos_def by arith
      moreover have "i - 8 * ?q - lb_shift place = i - field_pos place p" by (simp add: field_pos_def)
      ultimately show ?thesis unfolding write_field_bit merge_bits_def by simp
    next
      case False
      have "\<not> (field_pos place p \<le> i \<and> i < field_pos place p + fd_bits field)"
      proof
        assume h: "field_pos place p \<le> i \<and> i < field_pos place p + fd_bits field"
        then have "8 * ?q \<le> i" "i < 8 * ?q + 8 * ?k" using u(3) n unfolding field_pos_def by linarith+
        then show False using False by (simp add: distrib_left)
      qed
      then show ?thesis using False by (simp only: write_field_bit mem_store_bit if_False)
    qed
  qed
  moreover have "lower_bits_at field place s inst = store_field field place inst (snd sp) (fst ?sw, snd ?sw)"
    using assms(2) by (simp add: lower_bits_at_def Let_def sp_def [symmetric] split_def)
  ultimately show ?thesis using r(1,2) k1 by (auto simp: keeps_def)
qed

text \<open>A function with two temporaries, and a signed field of 5 bits at bit 6 of the second \<open>i16\<close>.\<close>

definition two_temps :: ir_function where
  "two_temps = \<lparr>f_index = 0, f_module = None, f_name = ''f'', f_params = [], f_result = IR_VOID,
     f_result_agg = 0, f_is_extern = False, f_variadic = False, f_exported = False, f_blocks = [],
     f_temps = [IR_PTR, IR_I32]\<rparr>"

definition field5 :: ir_field where
  "field5 = \<lparr>fd_name = Some ''x'', fd_type = \<lparr>vt_type = IR_I32, vt_agg = 0\<rparr>, fd_bits = 5, fd_ext = IR_EXT_SIGN\<rparr>"

definition place6 :: layout_bits where
  "place6 = \<lparr>lb_pos = 22, lb_unit_offset = 2, lb_unit_type = IR_I16, lb_shift = 6\<rparr>"

definition load5 :: ir_inst where
  "load5 = (new_inst IR_BITLOAD IR_I32 (Some 1))\<lparr>i_a := IR_TEMP IR_PTR 0\<rparr>"

definition store5 :: ir_inst where
  "store5 = (new_inst IR_BITSTORE IR_I32 None)\<lparr>i_a := IR_TEMP IR_I32 1, i_b := IR_TEMP IR_PTR 0\<rparr>"

lemma field5_placed: "field_placed field5 place6"
  by (simp add: field_placed_def place6_def field5_def fixed_int_def bits_def)

lemma two_temps_live: "live (two_temps, []) (IR_TEMP t 0)" "live (two_temps, []) (IR_TEMP t 1)"
  by (simp_all add: live_def temps_of_def two_temps_def)

theorem bitload_reads_field_witness:
  "\<exists>e'. exec_all (\<lambda>_. 100, \<lambda>_. 255) (snd (lower_bits_at field5 place6 (two_temps, []) load5)) =
     Some (e', \<lambda>_. 255) \<and> e' 1 = 2 ^ 32 - 1"
proof -
  have x: "31 = read_field (\<lambda>_. 255) (field_pos place6 100) (fd_bits field5)" by code_simp
  have i: "i_op load5 = IR_BITLOAD" "i_result load5 = Some 1" "i_a load5 = IR_TEMP IR_PTR 0" "32 = bits (i_type load5)"
    by (simp_all add: load5_def new_inst_def bits_def)
  have p: "operand_value (\<lambda>_. 100) (IR_TEMP IR_PTR 0) = 100" "100 + unat (lb_unit_offset place6) < 2 ^ 64"
    by (simp_all add: operand_value_def place6_def)
  have run: "exec_all (\<lambda>_. 100, \<lambda>_. 255) (snd (two_temps, [])) = Some (\<lambda>_. 100, \<lambda>_. 255)" by simp
  have v: "(if fd_ext field5 = IR_EXT_SIGN then enc 32 (sval (fd_bits field5) 31) else 31 mod 2 ^ 32) = 2 ^ 32 - 1"
    by (simp add: field5_def enc_def sval_def)
  show ?thesis
    using bitload_reads_field [OF run i(1,2) _ _ field5_placed p(2) x i(4), unfolded i(3) v, OF two_temps_live(1) p(1)]
    by blast
qed

theorem bitstore_writes_field_witness:
  "\<exists>e'. exec_all (\<lambda>i. if i = 0 then 100 else 21, \<lambda>_. 0) (snd (lower_bits_at field5 place6 (two_temps, []) store5)) =
     Some (e', write_field (\<lambda>_. 0) (field_pos place6 100) (fd_bits field5) 21)"
proof -
  let ?e = "\<lambda>i :: nat. if i = 0 then 100 else 21 :: nat"
  have i: "i_op store5 = IR_BITSTORE" "i_a store5 = IR_TEMP IR_I32 1" "i_b store5 = IR_TEMP IR_PTR 0"
    "i_type store5 = IR_I32"
    by (simp_all add: store5_def new_inst_def)
  have t: "op_type (IR_TEMP IR_I32 1) = IR_I32" "fixed_int IR_I32" "(21 :: nat) < 2 ^ bits IR_I32"
    by (simp_all add: fixed_int_def bits_def)
  have p: "operand_value ?e (IR_TEMP IR_PTR 0) = 100" "operand_value ?e (IR_TEMP IR_I32 1) = 21"
    "100 + unat (lb_unit_offset place6) < 2 ^ 64"
    by (simp_all add: operand_value_def place6_def)
  have run: "exec_all (?e, \<lambda>_. 0) (snd (two_temps, [])) = Some (?e, \<lambda>_. 0)" by simp
  show ?thesis
    using bitstore_writes_field [OF run i(1) _ _ _ _ _ _ _ field5_placed p(3), unfolded i,
        OF two_temps_live(2) t(1,2) p(2) t(3) two_temps_live(1) p(1)]
    by blast
qed

end
