(* ===== verification/LayoutTerm.thy ===== *)
theory LayoutTerm
  imports Resolve
begin

text \<open>
  The calls of \<open>compute\<close>, \<open>layout_fold\<close> and \<open>flatten\<close> end. Nothing in the source bounds their depth, so
  the argument needs that no type holds itself: a rank of the aggregates and of the symbolic values that
  falls from a type to its fields and its length, and from a value to its operands. A module without
  such a rank makes \<open>flatten\<close> call itself for ever.
\<close>

section \<open>Ranks\<close>

definition vtype_below :: "ir_module \<Rightarrow> (nat \<Rightarrow> nat) \<Rightarrow> nat \<Rightarrow> ir_vtype \<Rightarrow> bool" where
  "vtype_below m ra r v \<longleftrightarrow> vt_type v \<noteq> IR_AGG \<or> (vt_agg v < length (m_aggs m) \<and> ra (vt_agg v) < r)"

definition sym_below :: "ir_module \<Rightarrow> (nat \<Rightarrow> nat) \<Rightarrow> nat \<Rightarrow> nat \<Rightarrow> bool" where
  "sym_below m rs r y \<longleftrightarrow> y < length (m_syms m) \<and> rs y < r"

definition agg_ranked :: "ir_module \<Rightarrow> (nat \<Rightarrow> nat) \<Rightarrow> (nat \<Rightarrow> nat) \<Rightarrow> nat \<Rightarrow> bool" where
  "agg_ranked m ra rs a \<longleftrightarrow>
     (let t = m_aggs m ! a
      in list_all (\<lambda>fd. vtype_below m ra (ra a) (fd_type fd)) (agg_fields t) \<and>
         (agg_kind t \<noteq> IR_AGG_ARRAY \<or> (agg_fields t \<noteq> [] \<and> sym_below m rs (ra a) (agg_length t))))"

definition sym_ranked :: "ir_module \<Rightarrow> (nat \<Rightarrow> nat) \<Rightarrow> (nat \<Rightarrow> nat) \<Rightarrow> nat \<Rightarrow> bool" where
  "sym_ranked m ra rs y \<longleftrightarrow>
     (let s = m_syms m ! y
      in case sy_kind s of
           IR_SYM_INT \<Rightarrow> True
         | IR_SYM_SIZE_OF \<Rightarrow> vtype_below m ra (rs y) (sy_of s)
         | IR_SYM_OFFSET_OF \<Rightarrow> vtype_below m ra (rs y) (ir_aggregate (vt_agg (sy_of s)))
         | IR_SYM_OP \<Rightarrow> sym_below m rs (rs y) (sy_a s) \<and>
             (sy_b s = IR_NO_AGG \<or> sym_below m rs (rs y) (sy_b s)))"

definition ranked :: "ir_module \<Rightarrow> (nat \<Rightarrow> nat) \<Rightarrow> (nat \<Rightarrow> nat) \<Rightarrow> bool" where
  "ranked m ra rs \<longleftrightarrow> list_all (agg_ranked m ra rs) [0..<length (m_aggs m)] \<and>
     list_all (sym_ranked m ra rs) [0..<length (m_syms m)]"

lemma ranked_agg: "ranked m ra rs \<Longrightarrow> a < length (m_aggs m) \<Longrightarrow> agg_ranked m ra rs a"
  by (simp add: ranked_def list_all_iff)

lemma ranked_sym: "ranked m ra rs \<Longrightarrow> y < length (m_syms m) \<Longrightarrow> sym_ranked m ra rs y"
  by (simp add: ranked_def list_all_iff)

section \<open>The shape of the tables\<close>

definition shape :: "ir_module \<Rightarrow> layouts \<Rightarrow> bool" where
  "shape m l \<longleftrightarrow> l_m l = m \<and> length (l_agg_state l) = length (m_aggs m)"

named_theorems shapes

lemma shape_fail [shapes]: "shape m (layout_fail l e) = shape m l"
  by (simp add: shape_def layout_fail_def)

lemma shape_set_layout [shapes]: "shape m (set_layout l a lo) = shape m l"
  by (simp add: shape_def set_layout_def)

lemma shape_set_state [shapes]: "shape m (set_state l a s) = shape m l"
  by (simp add: shape_def set_state_def)

lemma shape_begin [shapes]: "shape m (begin_layout l a) = shape m l"
  by (simp add: begin_layout_def Let_def shapes)

lemma shape_length [shapes]: "shape m (fst (array_length l t len)) = shape m l"
  by (simp add: array_length_def shapes split: option.splits)

lemma shape_keep [shapes]: "shape m (fst (keep_value y l x)) = shape m l"
  by (simp add: shape_def keep_value_def)

lemma shape_units [shapes]: "shape m (fst (bit_units t agg l lo is)) = shape m l"
  by (induction t agg l lo "is" rule: bit_units.induct) (auto simp: shapes split: sum.splits)

lemma shape_finish [shapes]: "shape m (finish_layout l a b al lo) = shape m l"
  by (simp add: finish_layout_def Let_def split_def shapes)

lemma finish_done: "shape m l \<Longrightarrow> a < length (m_aggs m) \<Longrightarrow> l_agg_state (finish_layout l a b al lo) ! a = DONE"
proof -
  assume l: "shape m l" "a < length (m_aggs m)"
  have "\<exists>l' lo'. finish_layout l a b al lo = set_state (set_layout l' a lo') a DONE \<and> shape m l'"
    using l(1) by (auto simp: finish_layout_def Let_def split_def shapes intro!: exI)
  then obtain l' lo' where "finish_layout l a b al lo = set_state (set_layout l' a lo') a DONE" "shape m l'"
    by auto
  then show ?thesis using l(2) by (simp add: set_state_def set_layout_def shape_def)
qed

lemma fold_fields_some:
  assumes "\<And>s i. I s \<Longrightarrow> i \<in> set is \<Longrightarrow> \<exists>s'. g s i = Some s' \<and> I s'" and "I s"
  shows "\<exists>s'. fold_fields g s is = Some s' \<and> I s'"
  using assms
proof (induction "is" arbitrary: s)
  case (Cons i "is")
  then obtain s1 where "g s i = Some s1" "I s1" by fastforce
  then show ?case using Cons by auto
qed simp

section \<open>Calls with enough depth\<close>

definition computes_below :: "ir_module \<Rightarrow> (nat \<Rightarrow> nat) \<Rightarrow> layout_calls \<Rightarrow> nat \<Rightarrow> bool" where
  "computes_below m ra c r \<longleftrightarrow>
     (\<forall>l a. shape m l \<and> a < length (m_aggs m) \<and> ra a < r \<longrightarrow> (\<exists>l'. c_compute c l a = Some l' \<and> shape m l'))"

definition folds_below :: "ir_module \<Rightarrow> (nat \<Rightarrow> nat) \<Rightarrow> layout_calls \<Rightarrow> nat \<Rightarrow> bool" where
  "folds_below m rs c r \<longleftrightarrow>
     (\<forall>l y. shape m l \<and> sym_below m rs r y \<longrightarrow> (\<exists>l' v. c_fold c l y = Some (l', v) \<and> shape m l'))"

definition flattens_below :: "ir_module \<Rightarrow> (nat \<Rightarrow> nat) \<Rightarrow> layout_calls \<Rightarrow> nat \<Rightarrow> bool" where
  "flattens_below m ra c r \<longleftrightarrow>
     (\<forall>l ms v off. shape m l \<and> vtype_below m ra r v \<longrightarrow>
        (\<exists>l' ms'. c_flatten c (l, ms) v off = Some (l', ms') \<and> shape m l'))"

definition flattens_done :: "ir_module \<Rightarrow> (nat \<Rightarrow> nat) \<Rightarrow> layout_calls \<Rightarrow> nat \<Rightarrow> bool" where
  "flattens_done m ra c r \<longleftrightarrow>
     (\<forall>l ms a off. shape m l \<and> a < length (m_aggs m) \<and> ra a < r \<and> l_agg_state l ! a = DONE \<longrightarrow>
        (\<exists>l' ms'. c_flatten c (l, ms) (ir_aggregate a) off = Some (l', ms') \<and> shape m l'))"

lemma agg_computes:
  assumes "computes_below m ra c r" and "shape m l" and "a < length (m_aggs m)" and "ra a < r"
  shows "\<exists>l'. layout_agg c l a = Some l' \<and> shape m l'"
  using assms by (auto simp: layout_agg_def computes_below_def)

lemma vtype_computes:
  assumes "computes_below m ra c r" and "shape m l" and "vtype_below m ra r v"
  shows "\<exists>l'. layout_vtype c l v = Some l' \<and> shape m l'"
  using assms agg_computes [OF assms(1,2)] by (auto simp: layout_vtype_def vtype_below_def)

lemma fields_below:
  assumes "agg_ranked m ra rs a" and "i < length (agg_fields (m_aggs m ! a))"
  shows "vtype_below m ra (ra a) (fd_type (agg_fields (m_aggs m ! a) ! i))"
  using assms by (auto simp: agg_ranked_def Let_def list_all_length)

lemma array_ranked:
  assumes "agg_ranked m ra rs a" and "agg_kind (m_aggs m ! a) = IR_AGG_ARRAY"
  shows "vtype_below m ra (ra a) (fd_type (agg_fields (m_aggs m ! a) ! 0))"
    and "sym_below m rs (ra a) (agg_length (m_aggs m ! a))"
  using assms fields_below [OF assms(1), of 0] by (auto simp: agg_ranked_def Let_def)

lemma compute_array_some:
  assumes c: "computes_below m ra c (ra a)" and f: "folds_below m rs c (ra a)" and l: "shape m l"
    and a: "agg_ranked m ra rs a" "agg_kind (m_aggs m ! a) = IR_AGG_ARRAY"
  shows "\<exists>l' p. compute_array c l (m_aggs m ! a) = Some (l', p) \<and> shape m l'"
proof -
  let ?t = "m_aggs m ! a"
  obtain l1 len where f1: "c_fold c l (agg_length ?t) = Some (l1, len)" "shape m l1"
    using f l array_ranked(2) [OF a] unfolding folds_below_def by blast
  obtain l2 n where n: "array_length l1 ?t len = (l2, n)" by (cases "array_length l1 ?t len")
  then have "shape m l2" using f1(2) shape_length [of m l1 ?t len] by simp
  then obtain l3 where "layout_vtype c l2 (fd_type (agg_fields ?t ! 0)) = Some l3" "shape m l3"
    using vtype_computes [OF c _ array_ranked(1) [OF a]] by blast
  then show ?thesis using f1 n by (simp add: compute_array_def Let_def)
qed

lemma compute_fields_some:
  assumes c: "computes_below m ra c (ra a)" and l: "shape m l" and a: "agg_ranked m ra rs a"
  shows "\<exists>l' p. compute_fields c l (m_aggs m ! a) = Some (l', p) \<and> shape m l'"
proof -
  let ?t = "m_aggs m ! a"
  have step: "\<exists>s'. compute_field c ?t s i = Some s' \<and> shape m (fst s')"
    if "shape m (fst s)" "i \<in> set [0..<length (agg_fields ?t)]" for s i
    using that vtype_computes [OF c that(1) fields_below [OF a, of i]]
    by (auto simp: compute_field_def Let_def)
  have "\<exists>s'. fold_fields (compute_field c ?t) (l, placing_start (length (agg_fields ?t)))
      [0..<length (agg_fields ?t)] = Some s' \<and> shape m (fst s')"
    by (rule fold_fields_some [where I = "\<lambda>s. shape m (fst s)"]; (rule step)?; simp add: l)
  then show ?thesis by (auto simp: compute_fields_def split_def)
qed

lemma compute_some:
  assumes c: "computes_below m ra c (ra a)" and f: "folds_below m rs c (ra a)"
    and d: "flattens_done m ra c (Suc (ra a))" and l: "shape m l" and a: "agg_ranked m ra rs a" "a < length (m_aggs m)"
  shows "\<exists>l'. compute c l a = Some l' \<and> shape m l'"
proof (cases "l_agg_state l ! a = BUSY")
  case True
  then show ?thesis using l by (simp add: compute_def Let_def shapes)
next
  case False
  let ?t = "m_aggs m ! a"
  have m: "l_m l = m" using l by (simp add: shape_def)
  have b: "shape m (begin_layout l a)" using l by (simp add: shapes)
  obtain l1 p where p: "(if agg_kind ?t = IR_AGG_ARRAY then compute_array c (begin_layout l a) ?t
      else compute_fields c (begin_layout l a) ?t) = Some (l1, p)" "shape m l1"
    using compute_array_some [OF c f b a(1)] compute_fields_some [OF c b a(1)]
    by (cases "agg_kind ?t = IR_AGG_ARRAY") auto
  obtain bt al st un where q: "p = (bt, al, st, un)" by (cases p) auto
  let ?lo = "(l_aggs l1 ! a)\<lparr>lo_offsets := pl_offsets st, lo_bits := pl_bits st,
      lo_unaligned := lo_unaligned (l_aggs l1 ! a) \<or> un\<rparr>"
  let ?l2 = "finish_layout l1 a bt al ?lo"
  have s2: "shape m ?l2" "l_agg_state ?l2 ! a = DONE" using p(2) finish_done [OF p(2) a(2)] by (simp_all add: shapes)
  obtain l3 ms where "c_flatten c (?l2, []) (ir_aggregate a) 0 = Some (l3, ms)" "shape m l3"
    using d s2 a(2) lessI unfolding flattens_done_def by blast
  then show ?thesis using False p(1) s2(1) unfolding compute_def m Let_def q by (auto simp: shapes split: if_splits)
qed

lemma vt_aggregate [simp]: "vt_type (ir_aggregate a) = IR_AGG" "vt_agg (ir_aggregate a) = a"
  by (simp_all add: ir_aggregate_def)

lemma flatten_done_some:
  assumes c: "computes_below m ra c (ra a)" and g: "flattens_below m ra c (ra a)" and l: "shape m l"
    and a: "agg_ranked m ra rs a"
  shows "agg_kind (m_aggs m ! a) = IR_AGG_ARRAY \<Longrightarrow>
      \<exists>l' ms'. flatten_array c (l, ms) a off = Some (l', ms') \<and> shape m l'"
    and "\<exists>l' ms'. flatten_fields c (l, ms) a off = Some (l', ms') \<and> shape m l'"
proof -
  let ?t = "m_aggs m ! a"
  have m: "l_m l = m" using l by (simp add: shape_def)
  have step: "\<exists>s'. c_flatten c s v off' = Some s' \<and> shape m (fst s')"
    if "shape m (fst s)" "vtype_below m ra (ra a) v" for s v off'
    using g that unfolding flattens_below_def by (metis prod.collapse fst_conv)
  show "\<exists>l' ms'. flatten_array c (l, ms) a off = Some (l', ms') \<and> shape m l'"
    if arr: "agg_kind ?t = IR_AGG_ARRAY"
  proof -
    let ?v = "fd_type (agg_fields ?t ! 0)"
    note v = array_ranked(1) [OF a arr]
    obtain l1 where l1: "layout_vtype c l ?v = Some l1" "shape m l1"
      using vtype_computes [OF c l v] by blast
    have "\<exists>s'. fold_fields (\<lambda>lm i. c_flatten c lm ?v (off + of_nat i * n)) (l1, ms) is = Some s' \<and> shape m (fst s')"
      for n "is"
      by (rule fold_fields_some [where I = "\<lambda>s. shape m (fst s)"]; (rule step)?; simp add: l1(2) v)
    then show ?thesis using l1 by (simp add: flatten_array_def Let_def m)
  qed
  have "\<exists>s'. fold_fields (\<lambda>lm i. if is_unit_break (agg_fields ?t ! i) then Some lm
        else c_flatten c lm (fd_type (agg_fields ?t ! i)) (off + lo_offsets (l_aggs (fst lm) ! a) ! i))
      (l, ms) [0..<length (agg_fields ?t)] = Some s' \<and> shape m (fst s')"
  proof (rule fold_fields_some [where I = "\<lambda>s. shape m (fst s)"])
    fix s :: "layouts \<times> layout_member list" and i
    assume s: "shape m (fst s)" "i \<in> set [0..<length (agg_fields ?t)]"
    show "\<exists>s'. (if is_unit_break (agg_fields ?t ! i) then Some s
        else c_flatten c s (fd_type (agg_fields ?t ! i)) (off + lo_offsets (l_aggs (fst s) ! a) ! i)) = Some s' \<and>
      shape m (fst s')"
      using s step [OF s(1) fields_below [OF a, of i]] by (cases "is_unit_break (agg_fields ?t ! i)") simp_all
  qed (simp add: l)
  then show "\<exists>l' ms'. flatten_fields c (l, ms) a off = Some (l', ms') \<and> shape m l'"
    by (simp add: flatten_fields_def Let_def m)
qed

lemma flatten_agg_some:
  assumes "computes_below m ra c (ra a)" and "flattens_below m ra c (ra a)" and "agg_ranked m ra rs a"
    and "layout_agg c l a = Some l1" and "shape m l1"
  shows "\<exists>l' ms'. flatten c (l, ms) (ir_aggregate a) off = Some (l', ms') \<and> shape m l'"
proof -
  have "l_m l1 = m" using assms(5) by (simp add: shape_def)
  then show ?thesis
    using assms(4) flatten_done_some [OF assms(1,2,5,3), of ms off]
    by (simp add: flatten_def)
qed

lemma flatten_vtype: "vt_type v = IR_AGG \<Longrightarrow> flatten c lm v off = flatten c lm (ir_aggregate (vt_agg v)) off"
  by (simp only: flatten_def vt_aggregate)

lemma flatten_scalar: "vt_type v \<noteq> IR_AGG \<Longrightarrow> \<exists>ms'. flatten c (l, ms) v off = Some (l, ms')"
  by (simp add: flatten_def)

lemma keep_some: "shape m l \<Longrightarrow> \<exists>l' v. Some (keep_value y l x) = Some (l', v) \<and> shape m l'"
  by (metis prod.collapse shape_keep)

lemma fold_operation_some:
  assumes f: "folds_below m rs c r" and l: "shape m l"
    and s: "sym_below m rs r (sy_a s)" "sy_b s = IR_NO_AGG \<or> sym_below m rs r (sy_b s)"
  shows "\<exists>l' v. fold_operation c l y s = Some (l', v) \<and> shape m l'"
proof -
  obtain l1 a where a: "c_fold c l (sy_a s) = Some (l1, a)" "shape m l1"
    using f l s(1) unfolding folds_below_def by blast
  show ?thesis
  proof (cases a)
    case None
    then show ?thesis using a by (simp add: fold_operation_def)
  next
    case (Some x)
    obtain l2 b where b: "(if sy_b s = IR_NO_AGG then Some (l1, Some 0) else c_fold c l1 (sy_b s)) = Some (l2, b)"
      "shape m l2"
      using f a(2) s(2) that unfolding folds_below_def by (cases "sy_b s = IR_NO_AGG") (simp, metis)
    show ?thesis
      using a Some b keep_some [OF b(2)]
      by (cases b) (auto simp: fold_operation_def shapes split: sum.splits)
  qed
qed

lemma layout_fold_some:
  assumes c: "computes_below m ra c (rs y)" and f: "folds_below m rs c (rs y)" and l: "shape m l"
    and y: "sym_ranked m ra rs y"
  shows "\<exists>l' v. layout_fold c l y = Some (l', v) \<and> shape m l'"
proof (cases "l_sym_state l ! y = DONE")
  case True
  then show ?thesis using l by (simp add: layout_fold_def Let_def)
next
  case False
  let ?s = "m_syms m ! y"
  have m: "l_m l = m" using l by (simp add: shape_def)
  show ?thesis
  proof (cases "sy_kind ?s")
    case IR_SYM_INT
    then show ?thesis using False keep_some [OF l] by (simp add: layout_fold_def Let_def m)
  next
    case IR_SYM_SIZE_OF
    then obtain l1 where "layout_vtype c l (sy_of ?s) = Some l1" "shape m l1"
      using vtype_computes [OF c l, of "sy_of ?s"] y by (auto simp: sym_ranked_def Let_def)
    then show ?thesis using False IR_SYM_SIZE_OF keep_some [of m l1] by (simp add: layout_fold_def Let_def m)
  next
    case IR_SYM_OFFSET_OF
    then obtain l1 where "layout_agg c l (vt_agg (sy_of ?s)) = Some l1" "shape m l1"
      using agg_computes [OF c l, of "vt_agg (sy_of ?s)"] y
      by (auto simp: sym_ranked_def Let_def vtype_below_def ir_aggregate_def)
    then show ?thesis using False IR_SYM_OFFSET_OF keep_some [of m l1] by (simp add: layout_fold_def Let_def m)
  next
    case IR_SYM_OP
    then show ?thesis using False fold_operation_some [OF f l, of ?s y] y
      by (auto simp: layout_fold_def Let_def m sym_ranked_def)
  qed
qed

section \<open>Depth\<close>

text \<open>The depth that each function needs at a rank below \<open>r\<close>, when \<open>calls n\<close> has it.\<close>

lemma calls_enough:
  assumes m: "ranked m ra rs"
  shows "(\<forall>r. 3 * r \<le> n \<longrightarrow> computes_below m ra (calls n) r) \<and> (\<forall>r. 3 * r \<le> n \<longrightarrow> folds_below m rs (calls n) r) \<and>
    (\<forall>r. 3 * r + 1 \<le> n \<longrightarrow> flattens_below m ra (calls n) r) \<and>
    (\<forall>r. 3 * r \<le> n + 1 \<longrightarrow> flattens_done m ra (calls n) r)"
proof (induction n)
  case 0
  then show ?case
    by (auto simp: computes_below_def folds_below_def sym_below_def flattens_done_def)
next
  case (Suc n)
  have c: "computes_below m ra (calls n) r" if "3 * r \<le> n" for r using Suc that by blast
  have f: "folds_below m rs (calls n) r" if "3 * r \<le> n" for r using Suc that by blast
  have g: "flattens_below m ra (calls n) r" if "3 * r + 1 \<le> n" for r using Suc that by blast
  have d: "flattens_done m ra (calls n) r" if "3 * r \<le> n + 1" for r using Suc that by blast
  have "computes_below m ra (calls (Suc n)) r" if "3 * r \<le> Suc n" for r
    unfolding computes_below_def
  proof (intro allI impI)
    fix l a
    assume a: "shape m l \<and> a < length (m_aggs m) \<and> ra a < r"
    then have "ra a < r" by simp
    then have "3 * ra a \<le> n" "3 * Suc (ra a) \<le> n + 1" using that by simp_all
    then show "\<exists>l'. c_compute (calls (Suc n)) l a = Some l' \<and> shape m l'"
      using compute_some [OF c f d _ ranked_agg [OF m]] a by simp
  qed
  moreover have "folds_below m rs (calls (Suc n)) r" if "3 * r \<le> Suc n" for r
    unfolding folds_below_def
  proof (intro allI impI)
    fix l y
    assume y: "shape m l \<and> sym_below m rs r y"
    then have "3 * rs y \<le> n" "y < length (m_syms m)" using that by (simp_all add: sym_below_def)
    then show "\<exists>l' v. c_fold (calls (Suc n)) l y = Some (l', v) \<and> shape m l'"
      using layout_fold_some [OF c f _ ranked_sym [OF m]] y by simp
  qed
  moreover have "flattens_below m ra (calls (Suc n)) r" if "3 * r + 1 \<le> Suc n" for r
    unfolding flattens_below_def
  proof (intro allI impI)
    fix l ms v off
    assume v: "shape m l \<and> vtype_below m ra r v"
    show "\<exists>l' ms'. c_flatten (calls (Suc n)) (l, ms) v off = Some (l', ms') \<and> shape m l'"
    proof (cases "vt_type v = IR_AGG")
      case True
      let ?a = "vt_agg v"
      have a: "?a < length (m_aggs m)" "ra ?a < r" using v True by (simp_all add: vtype_below_def)
      then have le: "3 * Suc (ra ?a) \<le> n" "3 * ra ?a \<le> n" "3 * ra ?a + 1 \<le> n" using that by simp_all
      obtain l1 where "layout_agg (calls n) l ?a = Some l1" "shape m l1"
        using agg_computes [OF c [OF le(1)], of l ?a] v a(1) by auto
      then show ?thesis
        using flatten_agg_some [OF c [OF le(2)] g [OF le(3)] ranked_agg [OF m a(1)]] flatten_vtype [OF True]
        by simp
    next
      case False
      then show ?thesis using flatten_scalar [OF False, of "calls n" l ms off] v by auto
    qed
  qed
  moreover have "flattens_done m ra (calls (Suc n)) r" if "3 * r \<le> Suc n + 1" for r
    unfolding flattens_done_def
  proof (intro allI impI)
    fix l ms a off
    assume a: "shape m l \<and> a < length (m_aggs m) \<and> ra a < r \<and> l_agg_state l ! a = DONE"
    then have "ra a < r" by simp
    then have le: "3 * ra a \<le> n" "3 * ra a + 1 \<le> n" using that by simp_all
    have "layout_agg (calls n) l a = Some l" using a by (simp add: layout_agg_def)
    then show "\<exists>l' ms'. c_flatten (calls (Suc n)) (l, ms) (ir_aggregate a) off = Some (l', ms') \<and> shape m l'"
      using flatten_agg_some [OF c [OF le(1)] g [OF le(2)] ranked_agg [OF m]] a by simp
  qed
  ultimately show ?case by blast
qed

text \<open>
  C11. The layout of a module always ends when no type holds itself: with a rank that falls from every
  type to what it is made of, \<open>layouts_init\<close> gives its tables as soon as the calls may be three deep
  per rank.
\<close>

theorem layouts_init_returns:
  assumes "ranked m ra rs" and "list_all (\<lambda>a. ra a < k) [0..<length (m_aggs m)]" and "3 * k \<le> n"
  shows "\<exists>l. layouts_init n t m error_size = Some l \<and> l_m l = m"
proof -
  have c: "computes_below m ra (calls n) k" using calls_enough [OF assms(1)] assms(3) by blast
  have "\<exists>l. layouts_init n t m error_size = Some l \<and> shape m l"
    unfolding layouts_init_def
  proof (rule fold_fields_some)
    fix l i
    assume l: "shape m l" and i: "i \<in> set [0..<length (m_aggs m)]"
    have "ra i < k" "i < length (m_aggs m)" using i assms(2) by (auto simp: list_all_iff)
    then show "\<exists>l'. (if l_failed l then Some l else layout_agg (calls n) l i) = Some l' \<and> shape m l'"
      using agg_computes [OF c l] l by simp
  qed (simp add: shape_def layouts_start_def)
  then show ?thesis by (auto simp: shape_def)
qed

text \<open>A struct of an \<open>i64\<close>, and an array of three of them.\<close>

definition rows :: ir_module where
  "rows = (ir_module_init ''m'')\<lparr>m_aggs :=
     [\<lparr>agg_kind = IR_AGG_STRUCT, agg_name = ''S'', agg_fields =
         [\<lparr>fd_name = Some ''a'', fd_type = \<lparr>vt_type = IR_I64, vt_agg = 0\<rparr>, fd_bits = 0, fd_ext = IR_EXT_NONE\<rparr>],
       agg_packed = False, agg_align = 0, agg_length = 0, agg_length_text = None\<rparr>,
      \<lparr>agg_kind = IR_AGG_ARRAY, agg_name = ''[3]S'', agg_fields =
         [\<lparr>fd_name = None, fd_type = ir_aggregate 0, fd_bits = 0, fd_ext = IR_EXT_NONE\<rparr>],
       agg_packed = False, agg_align = 0, agg_length = 0, agg_length_text = None\<rparr>],
     m_syms := [\<lparr>sy_kind = IR_SYM_INT, sy_type = IR_I64, sy_value = 3, sy_of = \<lparr>vt_type = IR_VOID, vt_agg = 0\<rparr>,
       sy_field = 0, sy_op = IR_ADD, sy_a = 0, sy_b = 0\<rparr>]\<rparr>"

lemma rows_ranked: "ranked rows (\<lambda>a. a) (\<lambda>y. y)" "list_all (\<lambda>a. a < 2) [0..<length (m_aggs rows)]"
  by code_simp+

theorem layouts_init_returns_witness:
  "\<exists>l. layouts_init 6 TARGET_MACOS_ARM64 rows 100 = Some l \<and> l_m l = rows"
  using layouts_init_returns [OF rows_ranked, of 6] by simp

section \<open>A type that holds itself\<close>

definition knot :: ir_module where
  "knot = (ir_module_init ''m'')\<lparr>m_aggs :=
     [\<lparr>agg_kind = IR_AGG_STRUCT, agg_name = ''S'', agg_fields =
         [\<lparr>fd_name = Some ''a'', fd_type = ir_aggregate 0, fd_bits = 0, fd_ext = IR_EXT_NONE\<rparr>],
       agg_packed = False, agg_align = 0, agg_length = 0, agg_length_text = None\<rparr>]\<rparr>"

lemma flatten_knot:
  "l_m l = knot \<Longrightarrow> l_agg_state l ! 0 = DONE \<Longrightarrow> c_flatten (calls n) (l, ms) (ir_aggregate 0) off = None"
proof (induction n arbitrary: ms off)
  case (Suc n)
  then show ?case
    by (simp add: flatten_def layout_agg_def flatten_fields_def knot_def is_unit_break_def)
qed simp

lemma round_up_8: "round_up 0 1 = 0" "round_up 1 1 = 1"
  by (simp_all add: round_up_def)

lemma knot_fields: "agg_fields (m_aggs knot ! 0) =
    [\<lparr>fd_name = Some ''a'', fd_type = ir_aggregate 0, fd_bits = 0, fd_ext = IR_EXT_NONE\<rparr>]"
  "agg_kind (m_aggs knot ! 0) = IR_AGG_STRUCT" "agg_align (m_aggs knot ! 0) = 0" "agg_packed (m_aggs knot ! 0) = False"
  by (simp_all add: knot_def)

lemma finish_knot:
  assumes "shape knot l" and "length (l_aggs l) = 1"
  shows "lo_size (l_aggs (finish_layout l 0 8 1 lo) ! 0) = 1"
  using assms by (simp add: finish_layout_def shape_def knot_fields set_layout_def set_state_def round_up_8)

lemma compute_knot:
  assumes "shape knot l" and "length (l_aggs l) = 1" and "l_agg_state l ! 0 = UNSEEN"
  shows "compute (calls n) l 0 = None"
proof -
  let ?b = "begin_layout l 0"
  let ?l1 = "set_layout (layout_fail ?b (''the layout of `'' @ agg_name (m_aggs knot ! 0) @ ''` depends on itself'')) 0
      ((l_aggs ?b ! 0)\<lparr>lo_size := 1, lo_align := 1\<rparr>)"
  have b: "shape knot ?b" "l_agg_state ?b ! 0 = BUSY" "length (l_aggs ?b) = 1"
    using assms by (simp_all add: shapes begin_layout_def Let_def set_layout_def set_state_def shape_def knot_def)
  have m: "l_m l = knot" using assms(1) by (simp add: shape_def)
  show ?thesis
  proof (cases n)
    case 0
    then have "compute_fields (calls n) ?b (m_aggs knot ! 0) = None"
      using b(2) by (simp add: compute_fields_def compute_field_def layout_vtype_def layout_agg_def knot_fields)
    then show ?thesis using assms(3) by (simp add: compute_def Let_def knot_fields m)
  next
    case (Suc j)
    have l1: "shape knot ?l1" using b by (simp only: shapes)
    have l1': "length (l_aggs ?l1) = 1" "lo_size (l_aggs ?l1 ! 0) = 1" "lo_align (l_aggs ?l1 ! 0) = 1"
      using b by (simp_all add: set_layout_def layout_fail_def)
    have "c_compute (calls n) ?b 0 = Some ?l1"
      using b by (simp add: Suc compute_def shape_def Let_def)
    then obtain st un where f: "compute_fields (calls n) ?b (m_aggs knot ! 0) = Some (?l1, 8, 1, st, un)"
      using b(2) l1'
      by (simp add: compute_fields_def compute_field_def layout_vtype_def layout_agg_def knot_fields size_in_def
          align_in_def place_field_def place_in_struct_def Let_def is_unit_break_def placing_start_def round_up_8 set_offset_def
          unaligned_in_def)
    let ?lo = "(l_aggs ?l1 ! 0)\<lparr>lo_offsets := pl_offsets st, lo_bits := pl_bits st,
        lo_unaligned := lo_unaligned (l_aggs ?l1 ! 0) \<or> un\<rparr>"
    let ?l2 = "finish_layout ?l1 0 8 1 ?lo"
    have l2: "l_m ?l2 = knot" "l_agg_state ?l2 ! 0 = DONE" "lo_size (l_aggs ?l2 ! 0) = 1"
      using l1 finish_done [OF l1, of 0] finish_knot [OF l1 l1'(1)] shape_finish [of knot ?l1]
      by (simp_all add: shape_def knot_def)
    show ?thesis
      using assms(3) f l2(3) flatten_knot [OF l2(1,2)]
      by (simp add: compute_def Let_def knot_fields LAYOUT_MEMBER_LIMIT_def m)
  qed
qed


end
