(* ===== verification/PlaceProps.thy ===== *)
theory PlaceProps
  imports "LayoutProps"
begin

text \<open>
  The fields of a struct lie apart and aligned: the loop of \<open>compute\<close> over the fields, by the rule of every
  target, bitfields included. The argument is on natural numbers, below a bound under which no offset
  wraps.
\<close>

section \<open>Rounding up\<close>

lemma unat_round_up:
  "0 < unat a \<Longrightarrow> unat n + unat a < 2 ^ 64 \<Longrightarrow> unat (round_up n a) = round_nat (unat n) (unat a)"
  unfolding round_up_def by (rule unat_round)

lemma unat_times8: "unat n < 2 ^ 61 \<Longrightarrow> unat (n * 8 :: u64) = 8 * unat n"
  by (simp add: unat_word_ariths)

lemma unat_bytes: "unat b < 2 ^ 63 \<Longrightarrow> unat ((b + 7) div 8 :: u64) = (unat b + 7) div 8"
  by (simp add: unat_div unat_plus_lt)

section \<open>One field\<close>

definition sizes_ok :: "nat \<Rightarrow> ir_field \<Rightarrow> u64 \<Rightarrow> u64 \<Rightarrow> bool" where
  "sizes_ok S fd sz natural \<longleftrightarrow> unat sz \<le> S \<and> 0 < unat natural \<and> unat natural \<le> S \<and> fd_bits fd \<le> 8 * unat sz"

definition placed_inv :: "target \<Rightarrow> nat \<Rightarrow> placing \<Rightarrow> bool" where
  "placed_inv t B st \<longleftrightarrow> unat (pl_bit st) \<le> B \<and>
     (pl_unit_size st = 0 \<or> (on_windows t \<and> unat (pl_unit_used st) \<le> 8 * unat (pl_unit_size st) \<and>
        unat (pl_unit_start st) + 8 * unat (pl_unit_size st) = unat (pl_bit st)))"

text \<open>The first bit that the fields so far leave free.\<close>

definition frontier :: "placing \<Rightarrow> nat" where
  "frontier st = (if pl_unit_size st = 0 then unat (pl_bit st) else unat (pl_unit_start st) + unat (pl_unit_used st))"

definition field_start :: "ir_aggtype \<Rightarrow> placing \<Rightarrow> nat \<Rightarrow> nat" where
  "field_start agg st i =
     (if fd_bits (agg_fields agg ! i) = 0 then 8 * unat (pl_offsets st ! i) else unat (lb_pos (pl_bits st ! i)))"

definition field_end :: "ir_aggtype \<Rightarrow> u64 \<Rightarrow> placing \<Rightarrow> nat \<Rightarrow> nat" where
  "field_end agg sz st i = field_start agg st i +
     (if fd_bits (agg_fields agg ! i) = 0 then 8 * unat sz else fd_bits (agg_fields agg ! i))"

lemma frontier_le: "placed_inv t B st \<Longrightarrow> frontier st \<le> unat (pl_bit st)"
  by (auto simp: placed_inv_def frontier_def)

text \<open>A byte offset rounded up from the current bit.\<close>

lemma byte_offset:
  assumes "unat b \<le> B" and "0 < unat a" and "unat a \<le> S" and "B + 16 * S + 8 < 2 ^ 63"
  defines "off \<equiv> round_up ((b + 7) div 8) a"
  shows "unat b \<le> 8 * unat off" and "8 * unat off < unat b + 8 + 8 * unat a" and "unat a dvd unat off"
    and "unat off < 2 ^ 60"
proof -
  have b: "unat ((b + 7) div 8) = (unat b + 7) div 8" using assms(1,4) by (intro unat_bytes) linarith
  have "(unat b + 7) div 8 + unat a < 2 ^ 64" using assms(1,3,4) by simp
  then have off: "unat off = round_nat ((unat b + 7) div 8) (unat a)"
    unfolding off_def by (subst unat_round_up) (simp_all add: b assms(2))
  note r = round_nat [of "unat a" "(unat b + 7) div 8"]
  show "unat a dvd unat off" using off r(3) by simp
  show "unat b \<le> 8 * unat off" using off r(1) [OF assms(2)] by linarith
  show lt: "8 * unat off < unat b + 8 + 8 * unat a" using off r(2) [OF assms(2)] by linarith
  show "unat off < 2 ^ 60" using lt assms(1,3,4) by simp
qed

lemma place_break_ok:
  assumes "placed_inv t B st" and "0 < unat natural" and "unat natural \<le> S" and "0 < unat fa" and "unat fa \<le> S"
    and "B + 16 * S + 8 < 2 ^ 63"
  shows "placed_inv t (B + 16 * S + 8) (place_break t i natural fa st) \<and>
    frontier st \<le> frontier (place_break t i natural fa st)"
proof -
  have b: "unat (pl_bit st) \<le> B" using assms(1) by (simp add: placed_inv_def)
  have "unat natural < 2 ^ 61" using assms(3,6) by simp
  then have n8: "unat (natural * 8) = 8 * unat natural" by (rule unat_times8)
  have "unat (round_up (pl_bit st) (natural * 8)) = round_nat (unat (pl_bit st)) (8 * unat natural)"
    using b assms(2,3,6) by (subst unat_round_up) (simp_all add: n8)
  then have sysv: "unat (pl_bit st) \<le> unat (round_up (pl_bit st) (natural * 8))"
    "unat (round_up (pl_bit st) (natural * 8)) < unat (pl_bit st) + 8 * unat natural"
    using round_nat [of "8 * unat natural" "unat (pl_bit st)"] assms(2) by simp_all
  note o' = byte_offset [OF b assms(4,5,6)]
  let ?off = "round_up ((pl_bit st + 7) div 8) fa"
  have w: "unat (?off * 8) = 8 * unat ?off" using o'(4) by (intro unat_times8) simp
  show ?thesis
    using assms(1) frontier_le [OF assms(1)] sysv o' w b assms(3,5)
    by (auto simp: place_break_def Let_def placed_inv_def frontier_def set_offset_def)
qed

text \<open>What placing a field that is no break gives: its bits lie between the old and the new frontier.\<close>

definition placed_between :: "target \<Rightarrow> nat \<Rightarrow> nat \<Rightarrow> nat \<Rightarrow> u64 \<Rightarrow> nat \<Rightarrow> placing \<Rightarrow> placing \<Rightarrow> bool" where
  "placed_between t B i w sz fa st st' \<longleftrightarrow> placed_inv t B st' \<and>
     (if w = 0 then frontier st \<le> 8 * unat (pl_offsets st' ! i) \<and> fa dvd unat (pl_offsets st' ! i) \<and>
        8 * unat (pl_offsets st' ! i) + 8 * unat sz \<le> frontier st'
      else frontier st \<le> unat (lb_pos (pl_bits st' ! i)) \<and> unat (lb_pos (pl_bits st' ! i)) + w \<le> frontier st')"

lemma place_plain_ok:
  assumes inv: "placed_inv t B st" and s: "unat sz \<le> S" "0 < unat fa" "unat fa \<le> S"
    and B: "B + 16 * S + 8 < 2 ^ 63" and i: "i < length (pl_offsets st)"
  shows "placed_between t (B + 16 * S + 8) i 0 sz (unat fa) st (place_in_struct t packed i 0 sz natural fa st)"
proof -
  have b: "unat (pl_bit st) \<le> B" using inv by (simp add: placed_inv_def)
  let ?off = "round_up ((pl_bit st + 7) div 8) fa"
  note o' = byte_offset [OF b s(2,3) B]
  have p: "unat (?off + sz) = unat ?off + unat sz" using o'(4) s(1) B by (intro unat_plus_lt) simp
  then have "unat ((?off + sz) * 8) = 8 * unat ?off + 8 * unat sz"
    using o'(4) s(1) B by (subst unat_times8) simp_all
  then show ?thesis
    using frontier_le [OF inv] o' b s i
    by (simp add: placed_between_def place_in_struct_def Let_def set_offset_def placed_inv_def frontier_def)
qed

lemma unat_width: "w \<le> 8 * unat sz \<Longrightarrow> unat sz \<le> S \<Longrightarrow> B + 16 * S + 8 < 2 ^ 63 \<Longrightarrow> unat (of_nat w :: u64) = w"
  by (simp add: unsigned_of_nat take_bit_nat_eq_self)

lemma place_bits_ok:
  assumes inv: "placed_inv t B st" and s: "unat sz \<le> S" "0 < unat fa" "unat fa \<le> S" "0 < unat natural" "unat natural \<le> S"
    and w: "w \<le> 8 * unat sz" "0 < w" and B: "B + 16 * S + 8 < 2 ^ 63" and i: "i < length (pl_bits st)"
  shows "placed_between t (B + 16 * S + 8) i w sz (unat fa) st (place_in_struct t packed i (of_nat w) sz natural fa st)"
proof -
  have b: "unat (pl_bit st) \<le> B" using inv by (simp add: placed_inv_def)
  note uw = unat_width [OF w(1) s(1) B]
  have w0: "of_nat w \<noteq> (0 :: u64)" "sz \<noteq> 0" "w \<noteq> 0" using uw w by auto
  have sz8: "unat (sz * 8) = 8 * unat sz" using s(1) B by (intro unat_times8) simp
  let ?off = "round_up ((pl_bit st + 7) div 8) fa"
  note o' = byte_offset [OF b s(2,3) B]
  have off8: "unat (?off * 8) = 8 * unat ?off" using o'(4) by (intro unat_times8) simp
  show ?thesis
  proof (cases "on_windows t")
    case False
    then have u: "pl_unit_size st = 0" using inv by (simp add: placed_inv_def)
    let ?bit = "if \<not> packed \<and> pl_bit st mod (natural * 8) + of_nat w > sz * 8
                then round_up (pl_bit st) (natural * 8) else pl_bit st"
    have n8: "unat (natural * 8) = 8 * unat natural" using s(5) B by (intro unat_times8) simp
    have "unat (round_up (pl_bit st) (natural * 8)) = round_nat (unat (pl_bit st)) (8 * unat natural)"
      using b s(4,5) B by (subst unat_round_up) (simp_all add: n8)
    then have le: "unat (pl_bit st) \<le> unat ?bit" "unat ?bit \<le> unat (pl_bit st) + 8 * S"
      using round_nat [of "8 * unat natural" "unat (pl_bit st)"] s(4,5) by auto
    have "unat (?bit + of_nat w) = unat ?bit + w"
      using le b w s(1) B by (subst unat_plus_lt) (simp_all only: uw, simp)
    then show ?thesis
      using False u w0 le b w s(1) i
      by (simp add: placed_between_def place_in_struct_def Let_def set_pos_def placed_inv_def frontier_def)
  next
    case win: True
    show ?thesis
    proof (cases "pl_unit_size st = sz \<and> pl_unit_used st + of_nat w \<le> sz * 8")
      case True
      then have u: "unat (pl_unit_used st) \<le> 8 * unat sz" "unat (pl_unit_start st) + 8 * unat sz = unat (pl_bit st)"
        using inv w0 by (auto simp: placed_inv_def)
      have uw': "unat (pl_unit_used st + of_nat w) = unat (pl_unit_used st) + w"
        using u w s(1) B by (subst unat_plus_lt) (simp_all only: uw, simp)
      have le: "unat (pl_unit_used st) + w \<le> 8 * unat sz"
        using True by (simp add: word_le_nat_alt uw' sz8)
      have "unat (pl_unit_start st + pl_unit_used st) = unat (pl_unit_start st) + unat (pl_unit_used st)"
        using u b B by (intro unat_plus_lt) simp
      then show ?thesis
        using win True w0 le u b i uw'
        by (simp add: placed_between_def place_in_struct_def Let_def set_pos_def placed_inv_def frontier_def)
    next
      case False
      have "unat (?off * 8 + sz * 8) = 8 * unat ?off + 8 * unat sz"
        using o'(4) s(1) B by (subst unat_plus_lt) (simp_all add: off8 sz8)
      then show ?thesis
        using win False w0 o' off8 b w s frontier_le [OF inv] i
        by (simp add: placed_between_def place_in_struct_def Let_def set_pos_def placed_inv_def frontier_def uw) blast
    qed
  qed
qed

text \<open>What a turn of the loop over the fields keeps of the fields before.\<close>

definition keeps_others :: "nat \<Rightarrow> placing \<Rightarrow> placing \<Rightarrow> bool" where
  "keeps_others i st st' \<longleftrightarrow> length (pl_offsets st') = length (pl_offsets st) \<and>
     length (pl_bits st') = length (pl_bits st) \<and>
     (\<forall>j. j \<noteq> i \<longrightarrow> pl_offsets st' ! j = pl_offsets st ! j \<and> pl_bits st' ! j = pl_bits st ! j)"

lemma keeps_others_field: "keeps_others i st (place_field t agg i sz natural nested st)"
  by (simp add: keeps_others_def place_field_def place_break_def place_in_struct_def set_offset_def set_pos_def Let_def)

text \<open>The alignment of the offset of a plain field.\<close>

definition field_align :: "ir_aggtype \<Rightarrow> u64 \<Rightarrow> nat" where
  "field_align agg natural = (if agg_packed agg then 1 else unat natural)"

lemma place_field_ok:
  fixes nested :: bool
  assumes inv: "placed_inv t B st" and k: "agg_kind agg = IR_AGG_STRUCT"
    and s: "sizes_ok S (agg_fields agg ! i) sz natural" and B: "B + 16 * S + 8 < 2 ^ 63"
    and i: "i < length (pl_offsets st)" "i < length (pl_bits st)"
  defines "st' \<equiv> place_field t agg i sz natural nested st"
  shows "placed_inv t (B + 16 * S + 8) st'" and "frontier st \<le> frontier st'"
    and "\<not> is_unit_break (agg_fields agg ! i) \<Longrightarrow>
      frontier st \<le> field_start agg st' i \<and> field_end agg sz st' i \<le> frontier st' \<and>
      (fd_bits (agg_fields agg ! i) = 0 \<longrightarrow> field_align agg natural dvd unat (pl_offsets st' ! i))"
proof -
  let ?fd = "agg_fields agg ! i" and ?fa = "if agg_packed agg then 1 else natural"
  let ?w = "fd_bits ?fd"
  have sz: "unat sz \<le> S" "0 < unat natural" "unat natural \<le> S" "?w \<le> 8 * unat sz"
    using s by (simp_all add: sizes_ok_def)
  have fa: "0 < unat ?fa" "unat ?fa \<le> S" "unat ?fa = field_align agg natural"
    using sz by (auto simp: field_align_def)
  have "placed_inv t (B + 16 * S + 8) st' \<and> frontier st \<le> frontier st' \<and> (\<not> is_unit_break ?fd \<longrightarrow>
      frontier st \<le> field_start agg st' i \<and> field_end agg sz st' i \<le> frontier st' \<and>
      (?w = 0 \<longrightarrow> field_align agg natural dvd unat (pl_offsets st' ! i)))"
  proof (cases "is_unit_break ?fd")
    case True
    then show ?thesis using place_break_ok [OF inv sz(2,3) fa(1,2) B, of i]
      by (simp add: st'_def place_field_def Let_def)
  next
    case False
    let ?st1 = "place_in_struct t (agg_packed agg) i (of_nat ?w) sz natural ?fa st"
    have p: "placed_between t (B + 16 * S + 8) i ?w sz (unat ?fa) st ?st1"
      using place_plain_ok [OF inv sz(1) fa(1,2) B i(1)] place_bits_ok [OF inv sz(1) fa(1,2) sz(2,3,4) _ B i(2)]
      by (cases "?w = 0") simp_all
    have w: "(of_nat ?w :: u64) = 0 \<longleftrightarrow> ?w = 0"
    proof
      assume "(of_nat ?w :: u64) = 0"
      then show "?w = 0" using unat_width [OF sz(4,1) B] by simp
    qed simp
    have st': "pl_bit st' = pl_bit ?st1" "pl_unit_start st' = pl_unit_start ?st1" "pl_unit_size st' = pl_unit_size ?st1"
      "pl_unit_used st' = pl_unit_used ?st1" "pl_bits st' = pl_bits ?st1"
      "?w = 0 \<Longrightarrow> pl_offsets st' = pl_offsets ?st1"
      using False k by (simp_all add: st'_def place_field_def Let_def w set_offset_def)
    have "placed_inv t (B + 16 * S + 8) st' = placed_inv t (B + 16 * S + 8) ?st1" "frontier st' = frontier ?st1"
      by (simp_all add: placed_inv_def frontier_def st')
    then show ?thesis using p False st' fa(3)
      by (cases "?w = 0") (simp_all add: placed_between_def field_start_def field_end_def)
  qed
  then show "placed_inv t (B + 16 * S + 8) st'" "frontier st \<le> frontier st'"
    "\<not> is_unit_break (agg_fields agg ! i) \<Longrightarrow>
      frontier st \<le> field_start agg st' i \<and> field_end agg sz st' i \<le> frontier st' \<and>
      (fd_bits (agg_fields agg ! i) = 0 \<longrightarrow> field_align agg natural dvd unat (pl_offsets st' ! i))"
    by blast+
qed

section \<open>All fields\<close>

definition place_all ::
  "target \<Rightarrow> ir_aggtype \<Rightarrow> (nat \<Rightarrow> u64) \<Rightarrow> (nat \<Rightarrow> u64) \<Rightarrow> (nat \<Rightarrow> bool) \<Rightarrow> nat \<Rightarrow> placing" where
  "place_all t agg sz al nest n =
     fold (\<lambda>i st. place_field t agg i (sz i) (al i) (nest i) st) [0..<n] (placing_start (length (agg_fields agg)))"

lemma place_all_Suc:
  "place_all t agg sz al nest (Suc n) = place_field t agg n (sz n) (al n) (nest n) (place_all t agg sz al nest n)"
  by (simp add: place_all_def)

lemma place_all_length:
  "length (pl_offsets (place_all t agg sz al nest n)) = length (agg_fields agg) \<and>
   length (pl_bits (place_all t agg sz al nest n)) = length (agg_fields agg)"
proof (induction n)
  case (Suc n)
  then show ?case using keeps_others_field [of n "place_all t agg sz al nest n" t agg "sz n" "al n" "nest n"]
    by (simp add: place_all_Suc keeps_others_def)
qed (simp add: place_all_def placing_start_def)

text \<open>The fields before \<open>n\<close> that hold a value lie in order, below the frontier, each at its alignment.\<close>

definition fields_apart :: "ir_aggtype \<Rightarrow> (nat \<Rightarrow> u64) \<Rightarrow> (nat \<Rightarrow> u64) \<Rightarrow> placing \<Rightarrow> nat \<Rightarrow> bool" where
  "fields_apart agg sz al st n \<longleftrightarrow> list_all (\<lambda>j.
     field_end agg (sz j) st j \<le> frontier st \<and>
     (fd_bits (agg_fields agg ! j) \<noteq> 0 \<or> field_align agg (al j) dvd unat (pl_offsets st ! j)) \<and>
     list_all (\<lambda>i. field_end agg (sz i) st i \<le> field_start agg st j)
       (filter (\<lambda>i. \<not> is_unit_break (agg_fields agg ! i)) [0..<j]))
     (filter (\<lambda>j. \<not> is_unit_break (agg_fields agg ! j)) [0..<n])"

lemma fields_apart_iff:
  "fields_apart agg sz al st n \<longleftrightarrow> (\<forall>j<n. \<not> is_unit_break (agg_fields agg ! j) \<longrightarrow>
     field_end agg (sz j) st j \<le> frontier st \<and>
     (fd_bits (agg_fields agg ! j) = 0 \<longrightarrow> field_align agg (al j) dvd unat (pl_offsets st ! j)) \<and>
     (\<forall>i<j. \<not> is_unit_break (agg_fields agg ! i) \<longrightarrow> field_end agg (sz i) st i \<le> field_start agg st j))"
  by (auto simp: fields_apart_def list_all_iff)

lemma others_same:
  assumes "keeps_others n st st'" and "j \<noteq> n"
  shows "field_start agg st' j = field_start agg st j" and "field_end agg s st' j = field_end agg s st j"
    and "pl_offsets st' ! j = pl_offsets st ! j"
  using assms by (simp_all add: keeps_others_def field_start_def field_end_def)

lemma fields_apart_step:
  assumes a: "fields_apart agg sz al st n" and k: "keeps_others n st st'" and f: "frontier st \<le> frontier st'"
    and new: "\<not> is_unit_break (agg_fields agg ! n) \<Longrightarrow>
      frontier st \<le> field_start agg st' n \<and> field_end agg (sz n) st' n \<le> frontier st' \<and>
      (fd_bits (agg_fields agg ! n) = 0 \<longrightarrow> field_align agg (al n) dvd unat (pl_offsets st' ! n))"
  shows "fields_apart agg sz al st' (Suc n)"
  unfolding fields_apart_iff
proof (intro allI impI)
  fix j
  assume j: "j < Suc n" "\<not> is_unit_break (agg_fields agg ! j)"
  note old = a [unfolded fields_apart_iff, rule_format]
  show "field_end agg (sz j) st' j \<le> frontier st' \<and>
     (fd_bits (agg_fields agg ! j) = 0 \<longrightarrow> field_align agg (al j) dvd unat (pl_offsets st' ! j)) \<and>
     (\<forall>i<j. \<not> is_unit_break (agg_fields agg ! i) \<longrightarrow> field_end agg (sz i) st' i \<le> field_start agg st' j)"
  proof (cases "j = n")
    case True
    have "field_end agg (sz i) st' i \<le> field_start agg st' n" if "i < n" "\<not> is_unit_break (agg_fields agg ! i)" for i
      using old [OF that] new j True others_same [OF k, of i] that by auto
    then show ?thesis unfolding True using new j(2) [unfolded True] by blast
  next
    case False
    then have "j < n" using j by simp
    then show ?thesis using old [OF _ j(2)] others_same [OF k] False f by auto
  qed
qed

lemma place_all_ok:
  assumes k: "agg_kind agg = IR_AGG_STRUCT"
    and s: "list_all (\<lambda>i. sizes_ok S (agg_fields agg ! i) (sz i) (al i)) [0..<length (agg_fields agg)]"
    and B: "length (agg_fields agg) * (16 * S + 8) < 2 ^ 63"
  shows "n \<le> length (agg_fields agg) \<Longrightarrow>
    placed_inv t (n * (16 * S + 8)) (place_all t agg sz al nest n) \<and>
    fields_apart agg sz al (place_all t agg sz al nest n) n"
proof (induction n)
  case 0
  then show ?case by (simp add: place_all_def placing_start_def placed_inv_def fields_apart_iff)
next
  case (Suc n)
  let ?st = "place_all t agg sz al nest n" and ?st' = "place_all t agg sz al nest (Suc n)"
  have n: "n < length (agg_fields agg)" using Suc.prems by simp
  have ok: "sizes_ok S (agg_fields agg ! n) (sz n) (al n)" using s n by (simp add: list_all_iff)
  have "Suc n * (16 * S + 8) \<le> length (agg_fields agg) * (16 * S + 8)" using Suc.prems by (intro mult_le_mono1)
  then have le: "n * (16 * S + 8) + 16 * S + 8 < 2 ^ 63" using B by simp
  note p = place_field_ok [OF _ k ok le, of t "?st" "nest n", folded place_all_Suc]
  have st': "?st' = place_field t agg n (sz n) (al n) (nest n) ?st" by (rule place_all_Suc)
  have inv: "placed_inv t (n * (16 * S + 8)) ?st" "fields_apart agg sz al ?st n"
    using Suc.IH n by simp_all
  have l: "n < length (pl_offsets ?st)" "n < length (pl_bits ?st)" using place_all_length [of t agg sz al nest n] n by simp_all
  have "fields_apart agg sz al ?st' (Suc n)"
    using fields_apart_step [OF inv(2) keeps_others_field [of n ?st t agg "sz n" "al n" "nest n", folded st'] p(2) [OF inv(1) l]]
      p(3) [OF inv(1) l] by simp
  then show ?case using p(1) [OF inv(1) l] by (simp add: algebra_simps)
qed

text \<open>The loop of \<open>compute\<close> when the layouts of the types of the fields are known.\<close>

lemma compute_fields_loop:
  assumes "\<And>i. i < n \<Longrightarrow> layout_vtype c l (fd_type (agg_fields agg ! i)) = Some l"
  shows "fold_fields (compute_field c agg) (l, placing_start k) [0..<n] =
    Some (l, fold (\<lambda>i st. place_field (l_target l) agg i (size_in l (fd_type (agg_fields agg ! i)))
      (align_in l (fd_type (agg_fields agg ! i))) (unaligned_in l (fd_type (agg_fields agg ! i))) st)
      [0..<n] (placing_start k))"
proof -
  have app: "fold_fields g s (xs @ ys) = Option.bind (fold_fields g s xs) (\<lambda>s. fold_fields g s ys)"
    for g :: "'s \<Rightarrow> nat \<Rightarrow> 's option" and s xs ys
    by (induction xs arbitrary: s) (simp_all split: bind_split)
  show ?thesis using assms
    by (induction n) (simp_all add: app compute_field_def Let_def)
qed

lemma compute_fields_place_all:
  assumes "list_all (\<lambda>fd. layout_vtype c l (fd_type fd) = Some l) (agg_fields agg)"
  defines "st \<equiv> place_all (l_target l) agg (\<lambda>i. size_in l (fd_type (agg_fields agg ! i)))
    (\<lambda>i. align_in l (fd_type (agg_fields agg ! i))) (\<lambda>i. unaligned_in l (fd_type (agg_fields agg ! i)))
    (length (agg_fields agg))"
  shows "compute_fields c l agg = Some (l, pl_bit st, pl_align st, st, pl_unaligned st)"
  using assms(1) compute_fields_loop [of "length (agg_fields agg)" c l agg]
  by (simp add: compute_fields_def st_def place_all_def list_all_length)


text \<open>
  An \<open>i8\<close>, two bitfields of 3 and 7 bits of an \<open>i16\<close>, and an \<open>i32\<close>.
\<close>

definition mixed :: ir_aggtype where
  "mixed = \<lparr>agg_kind = IR_AGG_STRUCT, agg_name = ''S'', agg_fields =
     [\<lparr>fd_name = Some ''a'', fd_type = \<lparr>vt_type = IR_I8, vt_agg = 0\<rparr>, fd_bits = 0, fd_ext = IR_EXT_NONE\<rparr>,
      \<lparr>fd_name = Some ''b'', fd_type = \<lparr>vt_type = IR_I16, vt_agg = 0\<rparr>, fd_bits = 3, fd_ext = IR_EXT_ZERO\<rparr>,
      \<lparr>fd_name = Some ''c'', fd_type = \<lparr>vt_type = IR_I16, vt_agg = 0\<rparr>, fd_bits = 7, fd_ext = IR_EXT_ZERO\<rparr>,
      \<lparr>fd_name = Some ''d'', fd_type = \<lparr>vt_type = IR_I32, vt_agg = 0\<rparr>, fd_bits = 0, fd_ext = IR_EXT_NONE\<rparr>],
     agg_packed = False, agg_align = 0, agg_length = 0, agg_length_text = None\<rparr>"

definition mixed_module :: ir_module where
  "mixed_module = (ir_module_init ''m'')\<lparr>m_aggs := [mixed]\<rparr>"

definition mixed_start :: layouts where
  "mixed_start = layouts_start TARGET_WINDOWS_X86_64 mixed_module 100"


end
