(* ===== verification/Mach.thy ===== *)
theory Mach
  imports Target
begin

text \<open>
  \<open>src/mach.h\<close> and \<open>src/mach.c\<close>: machine code on virtual and physical registers, and the part of
  \<open>src/select.h\<close> that describes a target to the register allocator. The opcodes are those of a
  target, so every type is over the type \<open>'op\<close> of opcodes. An array with its count is a list; the
  array \<open>fp\<close> has one entry for each virtual register, so its length is \<open>vreg_count\<close>.
\<close>

section \<open>Operands and instructions\<close>

datatype mach_kind =
    MACH_NONE | MACH_VREG | MACH_PREG | MACH_IMM | MACH_BLOCK | MACH_FUNC | MACH_COND | MACH_MEM
  | MACH_SLOT | MACH_GLOBAL | MACH_NAME

record names =
  n_target :: target
  n_function :: string

datatype mach_index = INDEX_NONE | INDEX_PRE | INDEX_POST

record mach_operand =
  o_kind :: mach_kind
  o_width :: nat
  o_reg :: nat
  o_base_vreg :: bool
  o_index :: mach_index
  o_value :: int
  o_index_reg :: nat
  o_index_vreg :: bool
  o_scale :: nat
  o_pc_relative :: bool
  o_got :: bool
  o_name :: string

text \<open>The operand that \<open>memset\<close> leaves.\<close>

definition no_operand :: mach_operand where
  "no_operand = \<lparr>o_kind = MACH_NONE, o_width = 0, o_reg = 0, o_base_vreg = False, o_index = INDEX_NONE,
     o_value = 0, o_index_reg = 0, o_index_vreg = False, o_scale = 0, o_pc_relative = False,
     o_got = False, o_name = []\<rparr>"

datatype mach_cond =
    COND_EQ | COND_NE | COND_LT | COND_LE | COND_GT | COND_GE | COND_LO | COND_LS | COND_HI | COND_HS
  | COND_MI | COND_PL | COND_P | COND_NP

definition MACH_MAX_OPERANDS :: nat where
  "MACH_MAX_OPERANDS = 4"

record 'op mach_inst =
  mi_op :: 'op
  mi_operands :: "mach_operand list"
  mi_uses :: u64
  mi_defs :: u64

record 'op mach_block =
  mb_insts :: "'op mach_inst list"
  mb_loop_depth :: nat

record mach_slot =
  ms_size :: u64
  ms_align :: u64
  ms_offset :: int

record 'op mach_function =
  mf_ir :: ir_function
  mf_blocks :: "'op mach_block list"
  mf_slots :: "mach_slot list"
  mf_outgoing :: u64
  mf_stack_params :: bool
  mf_unwind :: bool
  mf_fp :: "bool list"

definition vreg_count :: "'op mach_function \<Rightarrow> nat" where
  "vreg_count f = length (mf_fp f)"

text \<open>How an opcode treats each register operand; the operands the table does not name have no
  role, as the zeros of the C initialiser.\<close>

datatype mach_role = ROLE_USE | ROLE_DEF

datatype mach_flag = FLAG_JUMP | FLAG_BRANCH | FLAG_RET | FLAG_CALL | FLAG_MOVE

record mach_opcode =
  oc_name :: string
  oc_roles :: "mach_role set list"
  oc_flags :: "mach_flag set"

definition opcode_row :: "string \<Rightarrow> mach_role set list \<Rightarrow> mach_flag set \<Rightarrow> mach_opcode" where
  "opcode_row name roles flags = \<lparr>oc_name = name, oc_roles = roles, oc_flags = flags\<rparr>"

definition has_role :: "mach_opcode \<Rightarrow> nat \<Rightarrow> mach_role \<Rightarrow> bool" where
  "has_role oc i r \<longleftrightarrow> i < length (oc_roles oc) \<and> r \<in> oc_roles oc ! i"

section \<open>Building\<close>

definition mach_append :: "'op mach_block \<Rightarrow> 'op mach_inst \<Rightarrow> 'op mach_block" where
  "mach_append b inst = b\<lparr>mb_insts := mb_insts b @ [inst]\<rparr>"

text \<open>The instruction that both targets append in a frame, with the first operands of an array.\<close>

definition append_op :: "'op \<Rightarrow> mach_operand list \<Rightarrow> 'op mach_block \<Rightarrow> 'op mach_block" where
  "append_op op operands b =
     mach_append b \<lparr>mi_op = op, mi_operands = operands, mi_uses = 0, mi_defs = 0\<rparr>"

definition reg_set :: "nat list \<Rightarrow> u64" where
  "reg_set rs = foldr (\<lambda>r s. push_bit r 1 OR s) rs 0"

definition mach_slot_add :: "'op mach_function \<Rightarrow> u64 \<Rightarrow> u64 \<Rightarrow> 'op mach_function \<times> nat" where
  "mach_slot_add f sz align =
     (f\<lparr>mf_slots := mf_slots f @ [\<lparr>ms_size = sz, ms_align = align, ms_offset = 0\<rparr>]\<rparr>,
      length (mf_slots f))"

definition mach_vreg_add :: "'op mach_function \<Rightarrow> bool \<Rightarrow> 'op mach_function \<times> nat" where
  "mach_vreg_add f fp = (f\<lparr>mf_fp := mf_fp f @ [fp]\<rparr>, vreg_count f)"

definition mach_vreg :: "nat \<Rightarrow> nat \<Rightarrow> mach_operand" where
  "mach_vreg vreg width = no_operand\<lparr>o_kind := MACH_VREG, o_width := width, o_reg := vreg\<rparr>"

definition mach_preg :: "nat \<Rightarrow> nat \<Rightarrow> mach_operand" where
  "mach_preg preg width = (mach_vreg preg width)\<lparr>o_kind := MACH_PREG\<rparr>"

definition mach_imm :: "int \<Rightarrow> mach_operand" where
  "mach_imm v = no_operand\<lparr>o_kind := MACH_IMM, o_width := 64, o_value := v\<rparr>"

section \<open>Text\<close>

text \<open>\<open>None\<close> is a symbol that \<open>mangle\<close> has no format for.\<close>

definition mach_function_symbol :: "target \<Rightarrow> ir_function \<Rightarrow> string option" where
  "mach_function_symbol t f =
     (case f_module f of
        None \<Rightarrow> Some (c_symbol t (f_name f))
      | Some md \<Rightarrow> if f_exported f then Some (c_symbol t (f_name f)) else mangle t md (f_name f))"

definition mach_symbol :: "ir_module \<Rightarrow> names option \<Rightarrow> mach_operand \<Rightarrow> string option" where
  "mach_symbol m names x =
     (case o_kind x of
        MACH_BLOCK \<Rightarrow>
          Some (case names of
             None \<Rightarrow> ''b'' @ print_int (o_value x)
           | Some n \<Rightarrow> block_label (n_target n) (n_function n) (nat (o_value x)))
      | MACH_FUNC \<Rightarrow>
          let f = m_functions m ! nat (o_value x)
          in (case names of
                None \<Rightarrow> Some ((case f_module f of None \<Rightarrow> [] | Some md \<Rightarrow> md @ ''.'') @ f_name f)
              | Some n \<Rightarrow> mach_function_symbol (n_target n) f)
      | MACH_GLOBAL \<Rightarrow>
          let g = m_globals m ! nat (o_value x)
          in (case names of
                None \<Rightarrow> Some (the (g_module g) @ ''.'' @ g_name g)
              | Some n \<Rightarrow>
                  if g_exported g then Some (c_symbol (n_target n) (g_name g))
                  else mangle (n_target n) (the (g_module g)) (g_name g))
      | MACH_NAME \<Rightarrow>
          Some (case names of None \<Rightarrow> o_name x | Some n \<Rightarrow> c_symbol (n_target n) (o_name x))
      | _ \<Rightarrow> Some [])"

text \<open>The target's printer of an instruction is a parameter; without names it prints for a dump.\<close>

definition mach_print ::
    "(ir_module \<Rightarrow> 'op mach_inst \<Rightarrow> string) \<Rightarrow> ir_module \<Rightarrow> 'op mach_function \<Rightarrow> string" where
  "mach_print print m f =
     the (f_module (mf_ir f)) @ ''.'' @ f_name (mf_ir f) @ '':'' @ [CHR 0x0A] @
     concat (map (\<lambda>(b, block). ''b'' @ print_nat b @ '':'' @ [CHR 0x0A] @
                 concat (map (\<lambda>inst. ''    '' @ print m inst @ [CHR 0x0A]) (mb_insts block)))
               (zip [0..<length (mf_blocks f)] (mf_blocks f)))"

section \<open>What a target tells the register allocator\<close>

text \<open>The fields of \<open>struct abi\<close> that the allocator and the frames read.\<close>

record abi =
  ab_callee_saved :: u64
  ab_allocatable :: "nat list"
  ab_scratch :: "nat list"
  ab_shadow_space :: nat
  ab_probe_stack :: bool
  ab_fp_allocatable :: "nat list"
  ab_fp_scratch :: "nat list"
  ab_fp_save_size :: u64

text \<open>\<open>struct frame\<close>: the saved registers and their offsets.\<close>

record frame =
  fr_needed :: bool
  fr_size :: u64
  fr_saved :: "nat list"
  fr_saved_offset :: "int list"
  fr_probe :: bool
  fr_unwind :: bool
  fr_convention :: convention

text \<open>The fields of \<open>struct target_desc\<close> that the allocator reads. A function that appends to a
  block gets the instructions so far and gives them with the new ones.\<close>

record 'op target_desc =
  td_name :: string
  td_opcodes :: "'op \<Rightarrow> mach_opcode"
  td_abi :: "convention \<Rightarrow> abi"
  td_frame_limit :: u64
  td_load_spill :: "'op mach_block \<Rightarrow> nat \<Rightarrow> int \<Rightarrow> 'op mach_block"
  td_store_spill :: "'op mach_block \<Rightarrow> nat \<Rightarrow> int \<Rightarrow> 'op mach_block"
  td_resolve_slot :: "mach_operand \<Rightarrow> int \<Rightarrow> mach_operand"
  td_expand :: "('op mach_block \<Rightarrow> 'op mach_inst \<Rightarrow> 'op mach_block) option"
  td_prologue :: "'op mach_block \<Rightarrow> frame \<Rightarrow> 'op mach_block"
  td_epilogue :: "'op mach_block \<Rightarrow> frame \<Rightarrow> 'op mach_block"

end
