(* ===== verification/Regalloc.thy ===== *)
theory Regalloc
  imports Mach
begin

text \<open>
  \<open>src/regalloc.c\<close>: liveness, intervals, linear scan, the rewriting of the instructions and the
  layout of the frame. A set of virtual registers is an array of 64-bit words. Positions are
  integers, \<open>2k\<close> where instruction \<open>k\<close> reads and \<open>2k + 1\<close> where it writes; the source keeps
  them in an \<open>int\<close>. The value \<open>NONE\<close> of a hint, a register or a slot is the option \<open>None\<close>. Pointers
  to intervals are the numbers of their virtual registers. The target and its convention, which
  nothing changes, are arguments of their own.
\<close>

definition PREG_LIMIT :: nat where
  "PREG_LIMIT = 64"

section \<open>Sets of virtual registers\<close>

type_synonym vset = "u64 list"

definition set_has :: "vset \<Rightarrow> nat \<Rightarrow> bool" where
  "set_has s v \<longleftrightarrow> drop_bit (v mod 64) (s ! (v div 64)) AND 1 \<noteq> 0"

definition set_add :: "vset \<Rightarrow> nat \<Rightarrow> vset" where
  "set_add s v = s[v div 64 := s ! (v div 64) OR push_bit (v mod 64) 1]"

section \<open>State\<close>

record interval =
  iv_vreg :: nat
  iv_start :: int
  iv_end :: int
  iv_hint_preg :: "nat option"
  iv_hint_vreg :: "nat option"
  iv_preg :: "nat option"
  iv_slot :: "nat option"
  iv_fp :: bool
  iv_weight :: u64

type_synonym range = "int \<times> int"

record 'op alloc =
  al_f :: "'op mach_function"
  al_use :: "vset list"
  al_def :: "vset list"
  al_live_in :: "vset list"
  al_live_out :: "vset list"
  al_intervals :: "interval list"
  al_fixed :: "range list list"

definition is_reg :: "mach_operand \<Rightarrow> bool" where
  "is_reg x \<longleftrightarrow> o_kind x = MACH_VREG \<or> o_kind x = MACH_PREG"

definition opcode :: "'op target_desc \<Rightarrow> 'op mach_inst \<Rightarrow> mach_opcode" where
  "opcode td inst = td_opcodes td (mi_op inst)"

section \<open>Registers of an instruction\<close>

text \<open>The calls of \<open>visit\<close> in their order, each with its operand and whether it writes.\<close>

definition visit_reads :: "mach_opcode \<Rightarrow> nat \<times> mach_operand \<Rightarrow> mach_operand list" where
  "visit_reads oc p =
     (case p of (i, x) \<Rightarrow>
        if o_kind x = MACH_MEM
        then x\<lparr>o_kind := if o_base_vreg x then MACH_VREG else MACH_PREG\<rparr> #
             (if o_scale x \<noteq> 0
              then [x\<lparr>o_kind := if o_index_vreg x then MACH_VREG else MACH_PREG, o_reg := o_index_reg x\<rparr>]
              else [])
        else if is_reg x \<and> has_role oc i ROLE_USE then [x] else [])"

definition visit_implicit :: "u64 \<Rightarrow> mach_operand list" where
  "visit_implicit regs =
     map (\<lambda>r. no_operand\<lparr>o_kind := MACH_PREG, o_width := 64, o_reg := r\<rparr>)
       (filter (\<lambda>r. drop_bit r regs AND 1 \<noteq> 0) [0..<PREG_LIMIT])"

definition each_register :: "'op target_desc \<Rightarrow> 'op mach_inst \<Rightarrow> (mach_operand \<times> bool) list" where
  "each_register td inst =
     (let oc = opcode td inst; ops = zip [0..<length (mi_operands inst)] (mi_operands inst)
      in map (\<lambda>x. (x, False)) (concat (map (visit_reads oc) ops) @ visit_implicit (mi_uses inst)) @
         map (\<lambda>x. (x, True))
           (map snd (filter (\<lambda>(i, x). is_reg x \<and> has_role oc i ROLE_DEF) ops) @ visit_implicit (mi_defs inst)))"

section \<open>Liveness\<close>

text \<open>The pair is \<open>use\<close> and \<open>def\<close> of the block.\<close>

definition gather_use_def :: "vset \<times> vset \<Rightarrow> mach_operand \<times> bool \<Rightarrow> vset \<times> vset" where
  "gather_use_def ud ev =
     (case (ud, ev) of ((use, def), x, write) \<Rightarrow>
        if o_kind x \<noteq> MACH_VREG then ud
        else if write then (use, set_add def (o_reg x))
        else if \<not> set_has def (o_reg x) then (set_add use (o_reg x), def) else ud)"

definition gather_block :: "'op target_desc \<Rightarrow> nat \<Rightarrow> 'op mach_block \<Rightarrow> vset \<times> vset" where
  "gather_block td words b =
     foldl (\<lambda>ud inst. foldl gather_use_def ud (each_register td inst))
       (replicate words 0, replicate words 0) (mb_insts b)"

text \<open>The block operands of the jumps and branches; the source keeps the first two.\<close>

definition branch_targets :: "'op target_desc \<Rightarrow> 'op mach_inst \<Rightarrow> nat list" where
  "branch_targets td inst =
     (if FLAG_JUMP \<in> oc_flags (opcode td inst) \<or> FLAG_BRANCH \<in> oc_flags (opcode td inst)
      then map (\<lambda>x. nat (o_value x)) (filter (\<lambda>x. o_kind x = MACH_BLOCK) (mi_operands inst))
      else [])"

definition falls :: "'op target_desc \<Rightarrow> 'op mach_block \<Rightarrow> bool" where
  "falls td b \<longleftrightarrow>
     mb_insts b = [] \<or>
     (FLAG_JUMP \<notin> oc_flags (opcode td (last (mb_insts b))) \<and>
      FLAG_RET \<notin> oc_flags (opcode td (last (mb_insts b))))"

definition mach_successors :: "'op target_desc \<Rightarrow> 'op mach_function \<Rightarrow> nat \<Rightarrow> nat list" where
  "mach_successors td f b =
     (let block = mf_blocks f ! b
      in take 2 (concat (map (branch_targets td) (mb_insts block))) @
         (if falls td block \<and> b + 1 < length (mf_blocks f) then [b + 1] else []))"

type_synonym live_state = "vset list \<times> vset list \<times> bool"

text \<open>One word of one block: the sets \<open>live_in\<close> and \<open>live_out\<close>, and whether one changed.\<close>

definition live_word :: "'op alloc \<Rightarrow> nat \<Rightarrow> nat list \<Rightarrow> live_state \<Rightarrow> nat \<Rightarrow> live_state" where
  "live_word a b succ st w =
     (case st of (ins, outs, changed) \<Rightarrow>
        let out = foldl (\<lambda>out s. out OR ins ! s ! w) 0 succ;
            in_word = al_use a ! b ! w OR (out AND NOT (al_def a ! b ! w))
        in if out \<noteq> outs ! b ! w \<or> in_word \<noteq> ins ! b ! w
           then (ins[b := (ins ! b)[w := in_word]], outs[b := (outs ! b)[w := out]], True)
           else st)"

definition live_block :: "'op target_desc \<Rightarrow> 'op alloc \<Rightarrow> nat \<Rightarrow> live_state \<Rightarrow> nat \<Rightarrow> live_state" where
  "live_block td a words st b = foldl (live_word a b (mach_successors td (al_f a) b)) st [0..<words]"

partial_function (option) live_loop ::
    "'op target_desc \<Rightarrow> 'op alloc \<Rightarrow> nat \<Rightarrow> vset list \<Rightarrow> vset list \<Rightarrow> (vset list \<times> vset list) option" where
  "live_loop td a words ins outs =
     (case foldl (live_block td a words) (ins, outs, False) (rev [0..<length (mf_blocks (al_f a))]) of
        (ins, outs, changed) \<Rightarrow> if changed then live_loop td a words ins outs else Some (ins, outs))"

declare live_loop.simps [code]

definition set_count :: "'op mach_function \<Rightarrow> nat" where
  "set_count f = vreg_count f div 64 + 1"

definition compute_liveness :: "'op target_desc \<Rightarrow> 'op alloc \<Rightarrow> 'op alloc option" where
  "compute_liveness td a =
     (let words = set_count (al_f a); ud = map (gather_block td words) (mf_blocks (al_f a));
          none = replicate (length (mf_blocks (al_f a))) (replicate words 0);
          a = a\<lparr>al_use := map fst ud, al_def := map snd ud\<rparr>
      in map_option (\<lambda>(ins, outs). a\<lparr>al_live_in := ins, al_live_out := outs\<rparr>)
           (live_loop td a words none none))"

section \<open>Intervals and fixed ranges\<close>

definition extend_iv :: "int \<Rightarrow> interval \<Rightarrow> interval" where
  "extend_iv position iv =
     (let iv = (if position < iv_start iv then iv\<lparr>iv_start := position\<rparr> else iv)
      in if position > iv_end iv then iv\<lparr>iv_end := position\<rparr> else iv)"

definition update :: "nat \<Rightarrow> ('a \<Rightarrow> 'a) \<Rightarrow> 'a list \<Rightarrow> 'a list" where
  "update i g xs = xs[i := g (xs ! i)]"

text \<open>The intervals, the fixed ranges and the open range of each physical register.\<close>

type_synonym scan_state = "interval list \<times> range list list \<times> nat option list"

record scan_ctx =
  sc_position :: int
  sc_block_start :: int
  sc_weight :: u64

definition add_range :: "int \<Rightarrow> int \<Rightarrow> range list \<Rightarrow> range list" where
  "add_range from_pos to_pos fx = fx @ [(from_pos, to_pos)]"

definition scan_register :: "scan_ctx \<Rightarrow> scan_state \<Rightarrow> mach_operand \<times> bool \<Rightarrow> scan_state" where
  "scan_register c st ev =
     (case (st, ev) of ((ivs, fixed, current), x, write) \<Rightarrow>
        let position = sc_position c + (if write then 1 else 0); r = o_reg x
        in if o_kind x = MACH_VREG
           then (update r (\<lambda>iv. (extend_iv position iv)\<lparr>iv_weight := iv_weight iv + sc_weight c\<rparr>) ivs, fixed, current)
           else if r \<ge> PREG_LIMIT then st
           else if write
           then (ivs, update r (add_range position position) fixed, current[r := Some (length (fixed ! r))])
           else
             (case current ! r of
                None \<Rightarrow>
                  (ivs, update r (add_range (sc_block_start c) position) fixed,
                   current[r := Some (length (fixed ! r))])
              | Some k \<Rightarrow> (ivs, update r (update k (\<lambda>p. (fst p, position))) fixed, current)))"

definition hint_preg :: "nat \<Rightarrow> interval \<Rightarrow> interval" where
  "hint_preg r iv = (if iv_hint_preg iv = None then iv\<lparr>iv_hint_preg := Some r\<rparr> else iv)"

definition hint_vreg :: "nat \<Rightarrow> interval \<Rightarrow> interval" where
  "hint_vreg r iv = (if iv_hint_vreg iv = None then iv\<lparr>iv_hint_vreg := Some r\<rparr> else iv)"

definition record_hint :: "'op target_desc \<Rightarrow> 'op mach_inst \<Rightarrow> interval list \<Rightarrow> interval list" where
  "record_hint td inst ivs =
     (case mi_operands inst of
        [dst, src] \<Rightarrow>
          if FLAG_MOVE \<notin> oc_flags (opcode td inst) \<or> \<not> is_reg dst \<or> \<not> is_reg src then ivs
          else if o_kind dst = MACH_VREG \<and> o_kind src = MACH_PREG
          then update (o_reg dst) (hint_preg (o_reg src)) ivs
          else if o_kind dst = MACH_PREG \<and> o_kind src = MACH_VREG
          then update (o_reg src) (hint_preg (o_reg dst)) ivs
          else if o_kind dst = MACH_VREG \<and> o_kind src = MACH_VREG
          then update (o_reg src) (hint_vreg (o_reg dst)) (update (o_reg dst) (hint_vreg (o_reg src)) ivs)
          else ivs
      | _ \<Rightarrow> ivs)"

section \<open>Building the intervals\<close>

definition no_interval :: "bool \<Rightarrow> nat \<Rightarrow> interval" where
  "no_interval fp v =
     \<lparr>iv_vreg = v, iv_start = 2147483647, iv_end = - 1, iv_hint_preg = None, iv_hint_vreg = None,
      iv_preg = None, iv_slot = None, iv_fp = fp, iv_weight = 0\<rparr>"

text \<open>The loop over the virtual registers at the start of a block.\<close>

definition extend_live :: "vset \<Rightarrow> vset \<Rightarrow> int \<Rightarrow> int \<Rightarrow> nat \<Rightarrow> interval \<Rightarrow> interval" where
  "extend_live ins outs start stop v iv =
     (let iv = (if set_has ins v then extend_iv start iv else iv)
      in if set_has outs v then extend_iv stop iv else iv)"

text \<open>What one use costs in a loop of depth \<open>n\<close>.\<close>

fun loop_weight :: "nat \<Rightarrow> u64 \<Rightarrow> u64" where
  "loop_weight 0 w = w"
| "loop_weight (Suc n) w = (if w < 100000000 then loop_weight n (w * 10) else w)"

definition scan_inst :: "'op target_desc \<Rightarrow> scan_ctx \<Rightarrow> scan_state \<Rightarrow> 'op mach_inst \<Rightarrow> scan_state" where
  "scan_inst td c st inst =
     (case foldl (scan_register c) st (each_register td inst) of
        (ivs, fixed, current) \<Rightarrow> (record_hint td inst ivs, fixed, current))"

text \<open>The state carries \<open>k\<close>, the number of the next instruction.\<close>

type_synonym building = "interval list \<times> range list list \<times> int"

definition build_block :: "'op target_desc \<Rightarrow> 'op alloc \<Rightarrow> building \<Rightarrow> nat \<Rightarrow> building" where
  "build_block td a st b =
     (case st of (ivs, fixed, k) \<Rightarrow>
        let block = mf_blocks (al_f a) ! b; insts = mb_insts block; start = 2 * k;
            stop = (if insts = [] then start else 2 * (k + int (length insts)) - 1);
            ivs = map (\<lambda>v. extend_live (al_live_in a ! b) (al_live_out a ! b) start stop v (ivs ! v))
                    [0..<length ivs];
            weight = loop_weight (mb_loop_depth block) 1;
            (ivs, fixed, _) =
              foldl (\<lambda>st (i, inst). scan_inst td
                       \<lparr>sc_position = 2 * (k + int i), sc_block_start = start, sc_weight = weight\<rparr> st inst)
                (ivs, fixed, replicate PREG_LIMIT None) (zip [0..<length insts] insts)
        in (ivs, fixed, k + int (length insts)))"

definition build_intervals :: "'op target_desc \<Rightarrow> 'op alloc \<Rightarrow> 'op alloc" where
  "build_intervals td a =
     (let f = al_f a;
          (ivs, fixed, _) =
            foldl (build_block td a)
              (map (\<lambda>v. no_interval (mf_fp f ! v) v) [0..<vreg_count f], replicate PREG_LIMIT [], 0)
              [0..<length (mf_blocks f)]
      in a\<lparr>al_intervals := ivs, al_fixed := fixed\<rparr>)"

section \<open>Linear scan\<close>

definition overlaps_fixed :: "'op alloc \<Rightarrow> nat \<Rightarrow> interval \<Rightarrow> bool" where
  "overlaps_fixed a preg iv \<longleftrightarrow>
     list_ex (\<lambda>(from_pos, to_pos). from_pos \<le> iv_end iv \<and> iv_start iv \<le> to_pos) (al_fixed a ! preg)"

definition is_free :: "'op alloc \<Rightarrow> nat list \<Rightarrow> nat \<Rightarrow> interval \<Rightarrow> bool" where
  "is_free a active preg iv \<longleftrightarrow>
     \<not> list_ex (\<lambda>v. iv_preg (al_intervals a ! v) = Some preg) active \<and> \<not> overlaps_fixed a preg iv"

definition class_registers :: "abi \<Rightarrow> interval \<Rightarrow> nat list" where
  "class_registers abi iv = (if iv_fp iv then ab_fp_allocatable abi else ab_allocatable abi)"

definition is_allocatable :: "abi \<Rightarrow> interval \<Rightarrow> nat \<Rightarrow> bool" where
  "is_allocatable abi iv preg \<longleftrightarrow> list_ex (\<lambda>r. r = preg) (class_registers abi iv)"

text \<open>The comparison is below 0 exactly when the first interval comes first.\<close>

definition by_start :: "interval \<Rightarrow> interval \<Rightarrow> int" where
  "by_start x y =
     (if iv_start x \<noteq> iv_start y then if iv_start x < iv_start y then - 1 else 1
      else if iv_vreg x < iv_vreg y then - 1 else if iv_vreg x > iv_vreg y then 1 else 0)"

text \<open>\<open>qsort\<close> of the C library with a comparison.\<close>

fun insert_by :: "('a \<Rightarrow> 'a \<Rightarrow> int) \<Rightarrow> 'a \<Rightarrow> 'a list \<Rightarrow> 'a list" where
  "insert_by cmp x [] = [x]"
| "insert_by cmp x (y # ys) = (if cmp x y \<le> 0 then x # y # ys else y # insert_by cmp x ys)"

definition qsort :: "('a \<Rightarrow> 'a \<Rightarrow> int) \<Rightarrow> 'a list \<Rightarrow> 'a list" where
  "qsort cmp xs = foldr (insert_by cmp) xs []"

definition choose_register :: "abi \<Rightarrow> 'op alloc \<Rightarrow> nat list \<Rightarrow> interval \<Rightarrow> nat option" where
  "choose_register abi a active iv =
     (let hint = (case iv_hint_preg iv of
                    Some r \<Rightarrow> Some r
                  | None \<Rightarrow> (case iv_hint_vreg iv of
                               Some v \<Rightarrow> iv_preg (al_intervals a ! v) | None \<Rightarrow> None));
          first = List.find (\<lambda>r. is_free a active r iv) (class_registers abi iv)
      in (case hint of
           Some h \<Rightarrow> if is_allocatable abi iv h \<and> is_free a active h iv then Some h else first
         | None \<Rightarrow> first))"

text \<open>\<open>active[j] = active[--active_count]\<close>.\<close>

definition swap_remove :: "nat \<Rightarrow> 'a list \<Rightarrow> 'a list" where
  "swap_remove j xs = butlast (xs[j := last xs])"

function expire :: "interval list \<Rightarrow> int \<Rightarrow> nat \<Rightarrow> nat list \<Rightarrow> nat list" where
  "expire ivs start j active =
     (if j < length active
      then if iv_end (ivs ! (active ! j)) < start then expire ivs start j (swap_remove j active)
           else expire ivs start (j + 1) active
      else active)"
  by pat_completeness auto
termination
  by (relation "measure (\<lambda>(ivs, start, j, active). 2 * length active - j)") (auto simp: swap_remove_def)

declare expire.simps [simp del]

definition pick_victim :: "'op alloc \<Rightarrow> interval \<Rightarrow> nat option \<Rightarrow> nat \<Rightarrow> nat option" where
  "pick_victim a cur victim v =
     (let iv = al_intervals a ! v
      in if iv_end iv > iv_end cur \<and> iv_fp iv = iv_fp cur \<and> \<not> overlaps_fixed a (the (iv_preg iv)) cur \<and>
            (case victim of None \<Rightarrow> True | Some m \<Rightarrow> iv_weight iv < iv_weight (al_intervals a ! m))
         then Some v else victim)"

definition remove_active :: "nat \<Rightarrow> nat list \<Rightarrow> nat list" where
  "remove_active v active =
     (let j = length (takeWhile (\<lambda>x. x \<noteq> v) active)
      in if j < length active then swap_remove j active else active)"

definition spill :: "nat \<Rightarrow> 'op alloc \<Rightarrow> 'op alloc" where
  "spill v a =
     (case mach_slot_add (al_f a) 8 8 of
        (f, slot) \<Rightarrow>
          a\<lparr>al_f := f, al_intervals := update v (\<lambda>iv. iv\<lparr>iv_preg := None, iv_slot := Some slot\<rparr>) (al_intervals a)\<rparr>)"

definition assign :: "nat \<Rightarrow> nat \<Rightarrow> 'op alloc \<Rightarrow> 'op alloc" where
  "assign v preg a = a\<lparr>al_intervals := update v (\<lambda>iv. iv\<lparr>iv_preg := Some preg\<rparr>) (al_intervals a)\<rparr>"

definition scan_step :: "abi \<Rightarrow> 'op alloc \<times> nat list \<Rightarrow> nat \<Rightarrow> 'op alloc \<times> nat list" where
  "scan_step abi st v =
     (case st of (a, active) \<Rightarrow>
        let cur = al_intervals a ! v; active = expire (al_intervals a) (iv_start cur) 0 active
        in (case choose_register abi a active cur of
             Some preg \<Rightarrow> (assign v preg a, active @ [v])
           | None \<Rightarrow>
               (case foldl (pick_victim a cur) None active of
                  None \<Rightarrow> (spill v a, active)
                | Some m \<Rightarrow>
                    if iv_weight (al_intervals a ! m) \<ge> iv_weight cur then (spill v a, active)
                    else (assign v (the (iv_preg (al_intervals a ! m))) (spill m a), remove_active m active @ [v]))))"

definition scan_order :: "interval list \<Rightarrow> nat list" where
  "scan_order ivs = map iv_vreg (qsort by_start (filter (\<lambda>iv. iv_end iv \<noteq> - 1) ivs))"

definition linear_scan :: "abi \<Rightarrow> 'op alloc \<Rightarrow> 'op alloc" where
  "linear_scan abi a = fst (foldl (scan_step abi) (a, []) (scan_order (al_intervals a)))"

end
