(* ===== verification/Rewrite.thy ===== *)
theory Rewrite
  imports Regalloc
begin

text \<open>
  The passes of \<open>src/regalloc.c\<close> around the scan: constants that are written again at each use
  before it, the frame and the rewriting of the instructions after it. \<open>None\<close> stands for a read
  past the arrays of a spilled instruction, which C leaves undefined.
\<close>

section \<open>Constants\<close>

text \<open>The loop of \<open>defines_constant\<close> from operand \<open>i\<close> on: whether it defines, and \<open>*vreg\<close>.\<close>

fun defines_from :: "mach_opcode \<Rightarrow> nat \<Rightarrow> mach_operand list \<Rightarrow> bool \<Rightarrow> nat \<Rightarrow> bool \<times> nat" where
  "defines_from oc i [] defines v = (defines, v)"
| "defines_from oc i (x # xs) defines v =
     (if has_role oc i ROLE_DEF
      then if defines \<or> o_kind x \<noteq> MACH_VREG then (False, v)
           else defines_from oc (i + 1) xs True (o_reg x)
      else if o_kind x \<noteq> MACH_IMM then (False, v)
      else defines_from oc (i + 1) xs defines v)"

definition defines_constant :: "'op target_desc \<Rightarrow> 'op mach_inst \<Rightarrow> nat \<Rightarrow> bool \<times> nat" where
  "defines_constant td inst v = defines_from (opcode td inst) 0 (mi_operands inst) False v"

text \<open>The arrays \<open>definition\<close>, \<open>once\<close> and \<open>many\<close>. A definition without operands is \<open>None\<close>.\<close>

type_synonym 'op definitions = "'op mach_inst option list \<times> bool list \<times> bool list"

definition note_writes :: "mach_opcode \<Rightarrow> bool list \<times> bool list \<Rightarrow> nat \<times> mach_operand \<Rightarrow> bool list \<times> bool list" where
  "note_writes oc om p =
     (case (om, p) of ((once, many), i, x) \<Rightarrow>
        if has_role oc i ROLE_DEF \<and> o_kind x = MACH_VREG
        then (once[o_reg x := True], many[o_reg x := many ! o_reg x \<or> once ! o_reg x]) else om)"

definition note_definition :: "'op target_desc \<Rightarrow> nat \<Rightarrow> 'op definitions \<Rightarrow> 'op mach_inst \<Rightarrow> 'op definitions" where
  "note_definition td count st inst =
     (case st of (defs, once, many) \<Rightarrow>
        let (once, many) = foldl (note_writes (opcode td inst)) (once, many)
              (zip [0..<length (mi_operands inst)] (mi_operands inst))
        in (case defines_constant td inst 0 of
              (True, v) \<Rightarrow> (defs[v := Some inst], once, many)
            | (False, v) \<Rightarrow> (if v < count then defs[v := None] else defs, once, many)))"

definition constants :: "'op target_desc \<Rightarrow> 'op mach_function \<Rightarrow> 'op definitions" where
  "constants td f =
     foldl (foldl (note_definition td (vreg_count f)))
       (replicate (vreg_count f) None, replicate (vreg_count f) False, replicate (vreg_count f) False)
       (map mb_insts (mf_blocks f))"

text \<open>A copy of a definition that writes another register.\<close>

definition redefine :: "'op target_desc \<Rightarrow> nat \<Rightarrow> 'op mach_inst \<Rightarrow> 'op mach_inst" where
  "redefine td made inst =
     inst\<lparr>mi_operands :=
       map (\<lambda>(k, x). if has_role (opcode td inst) k ROLE_DEF then x\<lparr>o_reg := made\<rparr> else x)
         (zip [0..<length (mi_operands inst)] (mi_operands inst))\<rparr>"

type_synonym 'op rebuild = "'op mach_function \<times> 'op mach_block \<times> 'op mach_inst"

definition replace_use ::
    "'op target_desc \<Rightarrow> 'op mach_inst option list \<Rightarrow> bool list \<Rightarrow> 'op rebuild \<Rightarrow> nat \<Rightarrow> 'op rebuild" where
  "replace_use td defs many st j =
     (case st of (f, rebuilt, inst) \<Rightarrow>
        let x = mi_operands inst ! j; v = o_reg x
        in if o_kind x \<noteq> MACH_VREG \<or> \<not> has_role (opcode td inst) j ROLE_USE then st
           else if many ! v then st
           else
             (case defs ! v of
                None \<Rightarrow> st
              | Some d \<Rightarrow>
                  let (f, made) = mach_vreg_add f (mf_fp f ! v)
                  in (f, mach_append rebuilt (redefine td made d),
                      inst\<lparr>mi_operands := (mi_operands inst)[j := x\<lparr>o_reg := made\<rparr>]\<rparr>)))"

definition rebuild_inst ::
    "'op target_desc \<Rightarrow> 'op mach_inst option list \<Rightarrow> bool list \<Rightarrow> 'op mach_function \<times> 'op mach_block
      \<Rightarrow> 'op mach_inst \<Rightarrow> 'op mach_function \<times> 'op mach_block" where
  "rebuild_inst td defs many st inst =
     (case st of (f, rebuilt) \<Rightarrow>
        (case foldl (replace_use td defs many) (f, rebuilt, inst) [0..<length (mi_operands inst)] of
           (f, rebuilt, inst) \<Rightarrow>
             (case defines_constant td inst 0 of
                (defines, v) \<Rightarrow>
                  if defines \<and> \<not> many ! v then (f, rebuilt) else (f, mach_append rebuilt inst))))"

definition rebuild_block ::
    "'op target_desc \<Rightarrow> 'op mach_inst option list \<Rightarrow> bool list \<Rightarrow> 'op mach_function \<Rightarrow> nat \<Rightarrow> 'op mach_function" where
  "rebuild_block td defs many f b =
     (let block = mf_blocks f ! b;
          (f, rebuilt) = foldl (rebuild_inst td defs many)
             (f, \<lparr>mb_insts = [], mb_loop_depth = mb_loop_depth block\<rparr>) (mb_insts block)
      in f\<lparr>mf_blocks := (mf_blocks f)[b := rebuilt]\<rparr>)"

definition rematerialise_constants :: "'op target_desc \<Rightarrow> 'op mach_function \<Rightarrow> 'op mach_function" where
  "rematerialise_constants td f =
     (case constants td f of (defs, once, many) \<Rightarrow>
        foldl (rebuild_block td defs many) f [0..<length (mf_blocks f)])"

section \<open>Rewriting\<close>

text \<open>The spilled registers of an instruction with their scratch registers, and the loads of each
  class.\<close>

record spill_map =
  sm_entries :: "(nat \<times> nat) list"
  sm_int_loads :: nat
  sm_fp_loads :: nat

definition no_spills :: spill_map where
  "no_spills = \<lparr>sm_entries = [], sm_int_loads = 0, sm_fp_loads = 0\<rparr>"

type_synonym 'op rewrite = "'op mach_block \<times> spill_map"

definition preg_number :: "nat option \<Rightarrow> nat" where
  "preg_number p = (case p of Some r \<Rightarrow> r | None \<Rightarrow> 4294967295)"

definition spill_offset :: "'op alloc \<Rightarrow> nat \<Rightarrow> int" where
  "spill_offset a slot = ms_offset (mf_slots (al_f a) ! slot)"

definition mach_place ::
    "'op target_desc \<Rightarrow> abi \<Rightarrow> 'op alloc \<Rightarrow> 'op rewrite \<Rightarrow> nat \<Rightarrow> bool \<Rightarrow> ('op rewrite \<times> nat) option" where
  "mach_place td abi a rw vreg reads =
     (case rw of (out, sm) \<Rightarrow>
        let iv = al_intervals a ! vreg
        in (case iv_slot iv of
              None \<Rightarrow> Some (rw, preg_number (iv_preg iv))
            | Some slot \<Rightarrow>
                (case map_of (sm_entries sm) vreg of
                   Some s \<Rightarrow> Some (rw, s)
                 | None \<Rightarrow>
                     let scratch = (if iv_fp iv then ab_fp_scratch abi else ab_scratch abi);
                         loads = (if iv_fp iv then sm_fp_loads sm else sm_int_loads sm);
                         n = (if reads then loads else 0)
                     in if length (sm_entries sm) \<ge> MACH_MAX_OPERANDS \<or> n \<ge> length scratch then None
                        else
                          let s = scratch ! n; sm = sm\<lparr>sm_entries := sm_entries sm @ [(vreg, s)]\<rparr>
                          in if reads
                             then Some ((td_load_spill td out s (spill_offset a slot),
                                         if iv_fp iv then sm\<lparr>sm_fp_loads := loads + 1\<rparr>
                                         else sm\<lparr>sm_int_loads := loads + 1\<rparr>), s)
                             else Some ((out, sm), s))))"

text \<open>A loop over the operands that changes a state and each operand.\<close>

fun map_state :: "('s \<Rightarrow> 'a \<Rightarrow> ('s \<times> 'b) option) \<Rightarrow> 's \<Rightarrow> 'a list \<Rightarrow> ('s \<times> 'b list) option" where
  "map_state g s [] = Some (s, [])"
| "map_state g s (x # xs) =
     (case g s x of
        None \<Rightarrow> None
      | Some (s, y) \<Rightarrow> map_option (\<lambda>(s, ys). (s, y # ys)) (map_state g s xs))"

definition place_base ::
    "'op target_desc \<Rightarrow> abi \<Rightarrow> 'op alloc \<Rightarrow> 'op rewrite \<Rightarrow> mach_operand \<Rightarrow> ('op rewrite \<times> mach_operand) option" where
  "place_base td abi a rw x =
     (if o_kind x = MACH_MEM \<and> o_base_vreg x
      then map_option (\<lambda>(rw, r). (rw, x\<lparr>o_reg := r, o_base_vreg := False\<rparr>)) (mach_place td abi a rw (o_reg x) True)
      else Some (rw, x))"

definition place_index ::
    "'op target_desc \<Rightarrow> abi \<Rightarrow> 'op alloc \<Rightarrow> 'op rewrite \<Rightarrow> mach_operand \<Rightarrow> ('op rewrite \<times> mach_operand) option" where
  "place_index td abi a rw x =
     (if o_kind x = MACH_MEM \<and> o_scale x \<noteq> 0 \<and> o_index_vreg x
      then map_option (\<lambda>(rw, r). (rw, x\<lparr>o_index_reg := r, o_index_vreg := False\<rparr>))
             (mach_place td abi a rw (o_index_reg x) True)
      else Some (rw, x))"

definition place_vreg ::
    "'op target_desc \<Rightarrow> abi \<Rightarrow> 'op alloc \<Rightarrow> bool \<Rightarrow> 'op rewrite \<Rightarrow> mach_operand \<Rightarrow> ('op rewrite \<times> mach_operand) option" where
  "place_vreg td abi a reads rw x =
     map_option (\<lambda>(rw, r). (rw, x\<lparr>o_reg := r, o_kind := MACH_PREG\<rparr>)) (mach_place td abi a rw (o_reg x) reads)"

definition place_read ::
    "'op target_desc \<Rightarrow> abi \<Rightarrow> 'op alloc \<Rightarrow> mach_opcode \<Rightarrow> 'op rewrite \<Rightarrow> nat \<times> mach_operand
      \<Rightarrow> ('op rewrite \<times> mach_operand) option" where
  "place_read td abi a oc rw p =
     (case p of (i, x) \<Rightarrow>
        (case place_base td abi a rw x of
           None \<Rightarrow> None
         | Some (rw, x) \<Rightarrow>
             (case place_index td abi a rw x of
                None \<Rightarrow> None
              | Some (rw, x) \<Rightarrow>
                  if o_kind x = MACH_VREG \<and> has_role oc i ROLE_USE then place_vreg td abi a True rw x
                  else Some (rw, x))))"

definition place_rest ::
    "'op target_desc \<Rightarrow> abi \<Rightarrow> 'op alloc \<Rightarrow> 'op rewrite \<Rightarrow> mach_operand \<Rightarrow> ('op rewrite \<times> mach_operand) option" where
  "place_rest td abi a rw x =
     (if o_kind x = MACH_VREG then place_vreg td abi a False rw x else Some (rw, x))"

text \<open>A move of a register into itself.\<close>

definition moves_itself :: "mach_opcode \<Rightarrow> mach_operand list \<Rightarrow> bool" where
  "moves_itself oc ops \<longleftrightarrow>
     FLAG_MOVE \<in> oc_flags oc \<and> length ops = 2 \<and> o_kind (ops ! 0) = MACH_PREG \<and>
     o_kind (ops ! 1) = MACH_PREG \<and> o_reg (ops ! 0) = o_reg (ops ! 1)"

text \<open>The stores of the spilled results.\<close>

definition store_result ::
    "'op target_desc \<Rightarrow> 'op alloc \<Rightarrow> mach_opcode \<Rightarrow> spill_map \<Rightarrow> 'op mach_block \<Rightarrow> nat \<times> mach_operand \<Rightarrow> 'op mach_block" where
  "store_result td a oc sm out p =
     (case p of (i, x) \<Rightarrow>
        if o_kind x = MACH_VREG \<and> has_role oc i ROLE_DEF
        then (case iv_slot (al_intervals a ! o_reg x) of
                None \<Rightarrow> out
              | Some slot \<Rightarrow> td_store_spill td out (the (map_of (sm_entries sm) (o_reg x))) (spill_offset a slot))
        else out)"

definition rewrite_inst ::
    "'op target_desc \<Rightarrow> abi \<Rightarrow> 'op alloc \<Rightarrow> frame \<Rightarrow> 'op mach_block \<Rightarrow> 'op mach_inst \<Rightarrow> 'op mach_block option" where
  "rewrite_inst td abi a frame out inst =
     (let oc = opcode td inst; ops = zip [0..<length (mi_operands inst)] (mi_operands inst)
      in (case map_state (place_read td abi a oc) (out, no_spills) ops of
            None \<Rightarrow> None
          | Some (rw, xs) \<Rightarrow>
              (case map_state (place_rest td abi a) rw xs of
                 None \<Rightarrow> None
               | Some ((out, sm), xs) \<Rightarrow>
                   let copy = inst\<lparr>mi_operands := xs\<rparr>;
                       out = (if moves_itself oc xs then out
                              else
                                let out = (if FLAG_RET \<in> oc_flags oc then td_epilogue td out frame else out)
                                in (case td_expand td of
                                      Some expand \<Rightarrow> expand out copy | None \<Rightarrow> mach_append out copy))
                   in Some (foldl (store_result td a oc sm) out ops))))"

section \<open>The frame\<close>

definition align_up :: "u64 \<Rightarrow> u64 \<Rightarrow> u64" where
  "align_up v align = (v + align - 1) div align * align"

definition is_fp_register :: "abi \<Rightarrow> nat \<Rightarrow> bool" where
  "is_fp_register abi preg \<longleftrightarrow> list_ex (\<lambda>r. r = preg) (ab_fp_allocatable abi)"

definition save_end :: "abi \<Rightarrow> nat \<Rightarrow> u64 \<Rightarrow> u64" where
  "save_end abi preg used =
     (let sz = (if is_fp_register abi preg then ab_fp_save_size abi else 8)
      in align_up used sz + sz)"

definition has_calls :: "'op target_desc \<Rightarrow> 'op mach_function \<Rightarrow> bool" where
  "has_calls td f \<longleftrightarrow>
     list_ex (\<lambda>b. list_ex (\<lambda>inst. FLAG_CALL \<in> oc_flags (opcode td inst)) (mb_insts b)) (mf_blocks f)"

definition used_registers :: "interval list \<Rightarrow> u64" where
  "used_registers ivs =
     foldl (\<lambda>used iv. case iv_preg iv of None \<Rightarrow> used | Some r \<Rightarrow> used OR push_bit r 1) 0 ivs"

definition saved_registers :: "abi \<Rightarrow> u64 \<Rightarrow> nat list" where
  "saved_registers abi used =
     filter (\<lambda>r. drop_bit r (used AND ab_callee_saved abi) AND 1 \<noteq> 0) [0..<PREG_LIMIT]"

text \<open>The loop over the slots: their offsets, and the bytes below the saved registers.\<close>

definition place_slot :: "mach_slot list \<times> u64 \<Rightarrow> mach_slot \<Rightarrow> mach_slot list \<times> u64" where
  "place_slot st s =
     (case st of (done, offset) \<Rightarrow>
        let offset = align_up offset (ms_align s)
        in (done @ [s\<lparr>ms_offset := sint offset\<rparr>], offset + ms_size s))"

definition place_slots :: "u64 \<Rightarrow> mach_slot list \<Rightarrow> mach_slot list \<times> u64" where
  "place_slots outgoing slots = foldl place_slot ([], outgoing) slots"

text \<open>The ends of the saves, counted from the top of the frame.\<close>

fun save_ends :: "abi \<Rightarrow> u64 \<Rightarrow> nat list \<Rightarrow> u64 list" where
  "save_ends abi used [] = []"
| "save_ends abi used (r # rs) = save_end abi r used # save_ends abi (save_end abi r used) rs"

definition layout_frame ::
    "'op target_desc \<Rightarrow> abi \<Rightarrow> convention \<Rightarrow> object_format \<Rightarrow> 'op alloc \<Rightarrow> 'op alloc \<times> frame" where
  "layout_frame td abi conv fmt a =
     (let f = al_f a;
          saved = saved_registers abi (used_registers (al_intervals a));
          (slots, offset) = place_slots (mf_outgoing f) (mf_slots f);
          ends = save_ends abi 0 saved;
          sz = align_up (offset + (if ends = [] then 0 else last ends)) 16
      in (a\<lparr>al_f := f\<lparr>mf_slots := slots\<rparr>\<rparr>,
          \<lparr>fr_needed = has_calls td f \<or> sz > 0 \<or> mf_stack_params f, fr_size = sz, fr_saved = saved,
           fr_saved_offset = map (\<lambda>e. sint (sz - e)) ends,
           fr_probe = ab_probe_stack abi \<and> sz \<ge> 4096, fr_unwind = (fmt = FORMAT_COFF),
           fr_convention = conv\<rparr>))"

section \<open>The function\<close>

definition resolve_slot :: "'op target_desc \<Rightarrow> 'op alloc \<Rightarrow> mach_operand \<Rightarrow> mach_operand" where
  "resolve_slot td a x =
     (if o_kind x = MACH_SLOT then td_resolve_slot td x (spill_offset a (nat (o_value x))) else x)"

definition resolve_slots :: "'op target_desc \<Rightarrow> 'op alloc \<Rightarrow> 'op mach_inst \<Rightarrow> 'op mach_inst" where
  "resolve_slots td a inst = inst\<lparr>mi_operands := map (resolve_slot td a) (mi_operands inst)\<rparr>"

fun rewrite_insts ::
    "'op target_desc \<Rightarrow> abi \<Rightarrow> 'op alloc \<Rightarrow> frame \<Rightarrow> 'op mach_block \<Rightarrow> 'op mach_inst list \<Rightarrow> 'op mach_block option" where
  "rewrite_insts td abi a frame out [] = Some out"
| "rewrite_insts td abi a frame out (inst # insts) =
     (case rewrite_inst td abi a frame out (resolve_slots td a inst) of
        None \<Rightarrow> None
      | Some out \<Rightarrow> rewrite_insts td abi a frame out insts)"

definition rewrite_block ::
    "'op target_desc \<Rightarrow> abi \<Rightarrow> 'op alloc \<Rightarrow> frame \<Rightarrow> nat \<Rightarrow> 'op mach_block \<Rightarrow> 'op mach_block option" where
  "rewrite_block td abi a frame b block =
     (let out = \<lparr>mb_insts = [], mb_loop_depth = 0\<rparr>;
          out = (if b = 0 then td_prologue td out frame else out)
      in rewrite_insts td abi a frame out (mb_insts block))"

fun rewrite_blocks ::
    "'op target_desc \<Rightarrow> abi \<Rightarrow> 'op alloc \<Rightarrow> frame \<Rightarrow> nat \<Rightarrow> 'op mach_block list \<Rightarrow> 'op mach_block list option" where
  "rewrite_blocks td abi a frame b [] = Some []"
| "rewrite_blocks td abi a frame b (block # blocks) =
     (case rewrite_block td abi a frame b block of
        None \<Rightarrow> None
      | Some out \<Rightarrow> map_option (\<lambda>outs. out # outs) (rewrite_blocks td abi a frame (b + 1) blocks))"

text \<open>The passes before the frame.\<close>

definition alloc_start :: "'op mach_function \<Rightarrow> 'op alloc" where
  "alloc_start f = \<lparr>al_f = f, al_use = [], al_def = [], al_live_in = [], al_live_out = [],
     al_intervals = [], al_fixed = []\<rparr>"

definition allocate_registers :: "'op target_desc \<Rightarrow> abi \<Rightarrow> 'op mach_function \<Rightarrow> 'op alloc option" where
  "allocate_registers td abi f =
     map_option (\<lambda>a. linear_scan abi (build_intervals td a))
       (compute_liveness td (alloc_start (rematerialise_constants td f)))"

definition frame_error :: "'op target_desc \<Rightarrow> 'op mach_function \<Rightarrow> u64 \<Rightarrow> string" where
  "frame_error td f sz =
     ''the stack frame of `'' @ the (f_module (mf_ir f)) @ ''.'' @ f_name (mf_ir f) @ ''` needs '' @
     print_nat (unat sz) @ '' bytes, and an '' @ td_name td @ '' frame holds at most '' @
     print_nat (unat (td_frame_limit td))"

text \<open>The function after allocation, and the error when its frame is too large.\<close>

definition regalloc_function ::
    "'op target_desc \<Rightarrow> target \<Rightarrow> 'op mach_function \<Rightarrow> nat \<Rightarrow> ('op mach_function \<times> string option) option" where
  "regalloc_function td t f error_size =
     (let conv = ti_convention (target_info t); abi = td_abi td conv
      in (case allocate_registers td abi f of
            None \<Rightarrow> None
          | Some a \<Rightarrow>
              (case layout_frame td abi conv (ti_format (target_info t)) a of
                 (a, frame) \<Rightarrow>
                   let f = (al_f a)\<lparr>mf_unwind := fr_unwind frame \<and> fr_needed frame\<rparr>
                   in if td_frame_limit td = 0 \<or> fr_size frame \<le> td_frame_limit td
                      then map_option (\<lambda>bs. (f\<lparr>mf_blocks := bs\<rparr>, None))
                             (rewrite_blocks td abi a frame 0 (mf_blocks f))
                      else Some (f, Some (take (error_size - 1) (frame_error td f (fr_size frame)))))))"

end
