(* ===== verification/BitSets.thy ===== *)
theory BitSets
  imports Prelude
begin

text \<open>
  Arrays of 64-bit words as sets of numbers, the form in which the sources keep sets of
  temporaries and of virtual registers.
\<close>

definition word_has :: "u64 list \<Rightarrow> nat \<Rightarrow> bool" where
  "word_has s v \<longleftrightarrow> bit (s ! (v div 64)) (v mod 64)"

definition elems :: "u64 list \<Rightarrow> nat set" where
  "elems s = {v. v < 64 * length s \<and> word_has s v}"

lemma finite_elems [simp]: "finite (elems s)"
  by (simp add: elems_def)

lemma card_elems_le: "card (elems s) \<le> 64 * length s"
proof -
  have "card (elems s) \<le> card {..<64 * length s}" by (rule card_mono) (auto simp: elems_def)
  then show ?thesis by simp
qed

lemma word_index_less: "v < 64 * n \<Longrightarrow> v div 64 < (n :: nat)"
  by (simp add: less_mult_imp_div_less mult.commute)

lemma elems_zero [simp]: "elems (replicate n 0) = {}"
  by (auto simp: elems_def word_has_def word_index_less)

lemma word_at: "k < 64 \<Longrightarrow> word_has s (w * 64 + k) = bit (s ! w) k"
  by (simp add: word_has_def)

text \<open>Two words are equal when the sets agree on their members.\<close>

lemma word_eqI:
  fixes x y :: u64
  assumes "\<And>k. k < 64 \<Longrightarrow> bit x k = bit y k"
  shows "x = y"
  using assms by (intro bit_eqI) (simp add: bit_imp_le_length)

lemma word_has_update:
  assumes "w < length s" "v < 64 * length s"
  shows "word_has (s[w := x]) v \<longleftrightarrow> (if v div 64 = w then bit x (v mod 64) else word_has s v)"
  using assms by (auto simp: word_has_def)

lemma elems_psubset_card:
  assumes "elems s \<subseteq> elems t" "word_has t v" "\<not> word_has s v" "v < 64 * length t"
  shows "card (elems s) < card (elems t)"
proof (rule psubset_card_mono)
  have "v \<in> elems t - elems s" using assms by (simp add: elems_def)
  then show "elems s \<subset> elems t" using assms(1) by blast
qed simp

end
