(* ===== verification/Liveness.thy ===== *)
theory Liveness
  imports Rewrite BitSets
begin

text \<open>
  Liveness: the loop of \<open>compute_liveness\<close> always ends, and its sets are those of the registers
  that some path through the blocks reads before it writes them.
\<close>

section \<open>What the sets mean\<close>

type_synonym events = "(mach_operand \<times> bool) list"

text \<open>Whether the first access to \<open>v\<close> is a read, and whether one is a write.\<close>

fun reads_first :: "events \<Rightarrow> nat \<Rightarrow> bool" where
  "reads_first [] v = False"
| "reads_first ((x, write) # es) v =
     (if o_kind x = MACH_VREG \<and> o_reg x = v then \<not> write else reads_first es v)"

definition writes :: "events \<Rightarrow> nat \<Rightarrow> bool" where
  "writes es v \<longleftrightarrow> (\<exists>x. (x, True) \<in> set es \<and> o_kind x = MACH_VREG \<and> o_reg x = v)"

definition events :: "'op target_desc \<Rightarrow> 'op mach_inst list \<Rightarrow> events" where
  "events td insts = concat (map (each_register td) insts)"

definition block_insts :: "'op mach_function \<Rightarrow> nat \<Rightarrow> 'op mach_inst list" where
  "block_insts f b = mb_insts (mf_blocks f ! b)"

text \<open>The edges of the control flow, without a bound on the targets of a block.\<close>

definition targets_of :: "'op target_desc \<Rightarrow> 'op mach_function \<Rightarrow> nat \<Rightarrow> nat list" where
  "targets_of td f b = concat (map (branch_targets td) (block_insts f b))"

definition mach_edge :: "'op target_desc \<Rightarrow> 'op mach_function \<Rightarrow> nat \<Rightarrow> nat \<Rightarrow> bool" where
  "mach_edge td f b s \<longleftrightarrow>
     s \<in> set (targets_of td f b) \<or> (s = b + 1 \<and> falls td (mf_blocks f ! b) \<and> b + 1 < length (mf_blocks f))"

inductive live_in :: "'op target_desc \<Rightarrow> 'op mach_function \<Rightarrow> nat \<Rightarrow> nat \<Rightarrow> bool" for td f where
  used: "reads_first (events td (block_insts f b)) v \<Longrightarrow> live_in td f b v"
| passed: "mach_edge td f b s \<Longrightarrow> live_in td f s v \<Longrightarrow> \<not> writes (events td (block_insts f b)) v \<Longrightarrow> live_in td f b v"

definition live_out :: "'op target_desc \<Rightarrow> 'op mach_function \<Rightarrow> nat \<Rightarrow> nat \<Rightarrow> bool" where
  "live_out td f b v \<longleftrightarrow> (\<exists>s. mach_edge td f b s \<and> live_in td f s v)"

text \<open>The functions that selection gives: registers and targets exist, and a block has at most two
  targets besides the next block.\<close>

definition moperand_ok :: "nat \<Rightarrow> mach_operand \<Rightarrow> bool" where
  "moperand_ok count x \<longleftrightarrow>
     (o_kind x = MACH_VREG \<or> (o_kind x = MACH_MEM \<and> o_base_vreg x) \<longrightarrow> o_reg x < count) \<and>
     (o_kind x = MACH_MEM \<and> o_scale x \<noteq> 0 \<and> o_index_vreg x \<longrightarrow> o_index_reg x < count)"

definition minst_ok :: "'op target_desc \<Rightarrow> nat \<Rightarrow> nat \<Rightarrow> 'op mach_inst \<Rightarrow> bool" where
  "minst_ok td count blocks inst \<longleftrightarrow>
     list_all (moperand_ok count) (mi_operands inst) \<and> list_all (\<lambda>t. t < blocks) (branch_targets td inst)"

definition mach_ok :: "'op target_desc \<Rightarrow> 'op mach_function \<Rightarrow> bool" where
  "mach_ok td f \<longleftrightarrow>
     list_all (\<lambda>b. list_all (minst_ok td (vreg_count f) (length (mf_blocks f))) (mb_insts b) \<and>
                   length (concat (map (branch_targets td) (mb_insts b))) \<le> 2) (mf_blocks f)"

lemma implicit_preg: "x \<in> set (visit_implicit regs) \<Longrightarrow> o_kind x = MACH_PREG"
  by (auto simp: visit_implicit_def)

lemma operands_in_zip: "(i, x) \<in> set (zip [0..<length xs] xs) \<Longrightarrow> x \<in> set xs"
  by (rule set_zip_rightD)

lemma visit_reads_less:
  assumes "moperand_ok count y" "x \<in> set (visit_reads oc (i, y))" "o_kind x = MACH_VREG"
  shows "o_reg x < count"
proof (cases "o_kind y = MACH_MEM")
  case True
  then show ?thesis using assms
    by (cases "o_base_vreg y"; cases "o_index_vreg y"; cases "o_scale y = 0") (auto simp: visit_reads_def moperand_ok_def)
next
  case False
  then show ?thesis using assms by (auto simp: visit_reads_def moperand_ok_def split: if_splits)
qed

lemma each_register_less:
  assumes "minst_ok td count blocks inst" "(x, w) \<in> set (each_register td inst)" "o_kind x = MACH_VREG"
  shows "o_reg x < count"
proof -
  let ?ops = "zip [0..<length (mi_operands inst)] (mi_operands inst)"
  have ok: "moperand_ok count y" if "(i, y) \<in> set ?ops" for i y
    using assms(1) operands_in_zip [OF that] by (simp add: minst_ok_def list_all_iff)
  consider i y where "(i, y) \<in> set ?ops" "x \<in> set (visit_reads (opcode td inst) (i, y))"
    | "x \<in> set (visit_implicit (mi_uses inst)) \<union> set (visit_implicit (mi_defs inst))"
    | i where "(i, x) \<in> set ?ops"
    using assms(2) unfolding each_register_def Let_def by auto
  then show ?thesis
  proof cases
    case 1
    then show ?thesis using visit_reads_less [OF ok] assms(3) by blast
  next
    case 2
    then show ?thesis using implicit_preg assms(3) by fastforce
  next
    case 3
    then show ?thesis using ok [OF 3] assms(3) by (simp add: moperand_ok_def)
  qed
qed

section \<open>The sets of a block\<close>

lemma set_has_word: "set_has s v = word_has s v"
  by (simp add: set_has_def word_has_def and_one_eq bit_iff_odd_drop_bit odd_iff_mod_2_eq_one)

lemma word_has_set_add:
  assumes "u < 64 * length s" "v < 64 * length s"
  shows "word_has (set_add s v) u \<longleftrightarrow> word_has s u \<or> u = v"
proof -
  have b: "bit (push_bit (v mod 64) 1 :: u64) (u mod 64) \<longleftrightarrow> u mod 64 = v mod 64"
    by (auto simp: bit_exp_iff)
  have "u = v" if "u div 64 = v div 64" "u mod 64 = v mod 64"
    using that by (metis div_mult_mod_eq)
  then show ?thesis
    using word_has_update [OF word_index_less [OF assms(2)] assms(1), of "s ! (v div 64) OR push_bit (v mod 64) 1"]
    by (auto simp only: set_add_def bit_or_iff b word_has_def split: if_splits)
qed

lemma length_set_add [simp]: "length (set_add s v) = length s"
  by (simp add: set_add_def)

definition vregs_below :: "nat \<Rightarrow> events \<Rightarrow> bool" where
  "vregs_below n es \<longleftrightarrow> (\<forall>(x, w) \<in> set es. o_kind x = MACH_VREG \<longrightarrow> o_reg x < n)"

lemma gather_events:
  assumes "vregs_below (64 * words) es" "length u = words" "length d = words" "v < 64 * words"
  shows "case foldl gather_use_def (u, d) es of (u', d') \<Rightarrow>
     length u' = words \<and> length d' = words \<and>
     (word_has u' v \<longleftrightarrow> word_has u v \<or> (\<not> word_has d v \<and> reads_first es v)) \<and>
     (word_has d' v \<longleftrightarrow> word_has d v \<or> writes es v)"
  using assms
proof (induction es arbitrary: u d)
  case Nil
  then show ?case by (simp add: writes_def)
next
  case (Cons e es)
  obtain x w where e: "e = (x, w)" by (cases e)
  obtain u1 d1 where g: "gather_use_def (u, d) e = (u1, d1)" by (cases "gather_use_def (u, d) e")
  have r: "o_kind x = MACH_VREG \<Longrightarrow> o_reg x < 64 * words" using Cons.prems(1) by (auto simp: vregs_below_def e)
  have len: "length u1 = words" "length d1 = words"
    using g Cons.prems(2,3) by (auto simp: gather_use_def_def e split: if_splits)
  have u1: "word_has u1 v \<longleftrightarrow> word_has u v \<or> (\<not> word_has d v \<and> o_kind x = MACH_VREG \<and> o_reg x = v \<and> \<not> w)"
    and d1: "word_has d1 v \<longleftrightarrow> word_has d v \<or> (o_kind x = MACH_VREG \<and> o_reg x = v \<and> w)"
    using g r Cons.prems by (auto simp: gather_use_def_def e set_has_word word_has_set_add split: if_splits)
  have w': "writes (e # es) v \<longleftrightarrow> (o_kind x = MACH_VREG \<and> o_reg x = v \<and> w) \<or> writes es v"
    by (auto simp: writes_def e)
  have "vregs_below (64 * words) es" using Cons.prems(1) by (simp add: vregs_below_def)
  from Cons.IH [OF this len Cons.prems(4)] show ?case
    unfolding foldl_Cons g w' by (auto simp: u1 d1 e split: prod.splits)
qed

lemma gather_block_eq:
  "gather_block td words b = foldl gather_use_def (replicate words 0, replicate words 0) (events td (mb_insts b))"
proof -
  have "foldl (\<lambda>ud inst. foldl gather_use_def ud (each_register td inst)) p is =
      foldl gather_use_def p (concat (map (each_register td) is))" for p "is"
    by (induction "is" arbitrary: p) simp_all
  then show ?thesis by (simp add: gather_block_def events_def)
qed

lemma word_has_zero [simp]: "v < 64 * n \<Longrightarrow> \<not> word_has (replicate n 0) v"
  by (simp add: word_has_def word_index_less)

lemma gather_block_sets:
  assumes "vregs_below (64 * words) (events td (mb_insts b))" "v < 64 * words"
  shows "word_has (fst (gather_block td words b)) v \<longleftrightarrow> reads_first (events td (mb_insts b)) v"
    and "word_has (snd (gather_block td words b)) v \<longleftrightarrow> writes (events td (mb_insts b)) v"
    and "length (fst (gather_block td words b)) = words" "length (snd (gather_block td words b)) = words"
  using gather_events [OF assms(1) length_replicate [of words 0] length_replicate [of words 0] assms(2)] assms(2)
  by (auto simp: gather_block_eq split: prod.splits)

section \<open>The loop\<close>

text \<open>One pass over the blocks, as a list of words.\<close>

definition pass_words :: "nat \<Rightarrow> nat \<Rightarrow> (nat \<times> nat) list" where
  "pass_words n words = concat (map (\<lambda>b. map (Pair b) [0..<words]) (rev [0..<n]))"

definition live_step :: "'op target_desc \<Rightarrow> 'op alloc \<Rightarrow> live_state \<Rightarrow> nat \<times> nat \<Rightarrow> live_state" where
  "live_step td a st p = live_word a (fst p) (mach_successors td (al_f a) (fst p)) st (snd p)"

lemma pass_eq: "foldl (live_block td a words) st bs = foldl (live_step td a) st (concat (map (\<lambda>b. map (Pair b) [0..<words]) bs))"
  by (induction bs arbitrary: st) (simp_all add: live_block_def live_step_def foldl_map)

lemma in_pass_words: "(b, w) \<in> set (pass_words n words) \<longleftrightarrow> b < n \<and> w < words"
  by (force simp: pass_words_def)

text \<open>What holds of the sets at every moment: they are sets of the right size, below the solution
  of the equations that they are to reach, and below what the next pass gives.\<close>

definition live_inv :: "'op target_desc \<Rightarrow> 'op alloc \<Rightarrow> nat \<Rightarrow> (nat \<Rightarrow> nat \<Rightarrow> bool) \<Rightarrow> vset list \<Rightarrow> vset list \<Rightarrow> bool" where
  "live_inv td a words L ins outs \<longleftrightarrow>
     length ins = length (mf_blocks (al_f a)) \<and> length outs = length (mf_blocks (al_f a)) \<and>
     (\<forall>b < length (mf_blocks (al_f a)).
        length (ins ! b) = words \<and> length (outs ! b) = words \<and>
        (\<forall>v < 64 * words.
           (word_has (outs ! b) v \<longrightarrow> (\<exists>s \<in> set (mach_successors td (al_f a) b). word_has (ins ! s) v)) \<and>
           (word_has (ins ! b) v \<longrightarrow>
              word_has (al_use a ! b) v \<or> (word_has (outs ! b) v \<and> \<not> word_has (al_def a ! b) v)) \<and>
           (word_has (ins ! b) v \<longrightarrow> L b v)))"

text \<open>A solution of the equations.\<close>

definition closed_under :: "'op target_desc \<Rightarrow> 'op alloc \<Rightarrow> nat \<Rightarrow> (nat \<Rightarrow> nat \<Rightarrow> bool) \<Rightarrow> bool" where
  "closed_under td a words L \<longleftrightarrow>
     (\<forall>b < length (mf_blocks (al_f a)). \<forall>v < 64 * words.
        (word_has (al_use a ! b) v \<longrightarrow> L b v) \<and>
        ((\<exists>s \<in> set (mach_successors td (al_f a) b). L s v) \<and> \<not> word_has (al_def a ! b) v \<longrightarrow> L b v))"

definition balanced :: "'op target_desc \<Rightarrow> 'op alloc \<Rightarrow> vset list \<Rightarrow> vset list \<Rightarrow> nat \<Rightarrow> nat \<Rightarrow> bool" where
  "balanced td a ins outs b w \<longleftrightarrow>
     (\<forall>k < 64. let v = w * 64 + k in
        (word_has (outs ! b) v \<longleftrightarrow> (\<exists>s \<in> set (mach_successors td (al_f a) b). word_has (ins ! s) v)) \<and>
        (word_has (ins ! b) v \<longleftrightarrow>
           word_has (al_use a ! b) v \<or> (word_has (outs ! b) v \<and> \<not> word_has (al_def a ! b) v)))"

definition live_size :: "vset list \<Rightarrow> vset list \<Rightarrow> nat" where
  "live_size ins outs = sum_list (map (card \<circ> elems) ins) + sum_list (map (card \<circ> elems) outs)"

lemma bit_foldl_or: "bit (foldl (\<lambda>out s. out OR g s) x ss) k \<longleftrightarrow> bit x k \<or> (\<exists>s \<in> set ss. bit (g s) k)"
  by (induction ss arbitrary: x) (auto simp: bit_or_iff)

lemma elems_update_mono:
  assumes "w < length s" "\<And>k. k < 64 \<Longrightarrow> bit (s ! w) k \<Longrightarrow> bit x k"
  shows "elems s \<subseteq> elems (s[w := x])"
  using assms by (auto simp: elems_def word_has_update) (simp add: word_has_def)

lemma sum_list_update_less:
  fixes g :: "'a \<Rightarrow> nat"
  assumes "i < length xs" "g (xs ! i) < g y"
  shows "sum_list (map g xs) < sum_list (map g (xs[i := y]))"
proof -
  have "sum_list (map g (xs[i := y])) + g (xs ! i) = sum_list (map g xs) + g y"
    using assms(1)
  proof (induction xs arbitrary: i)
    case (Cons x xs)
    then show ?case by (cases i) auto
  qed simp
  with assms(2) show ?thesis by linarith
qed

lemma sum_list_update_le:
  fixes g :: "'a \<Rightarrow> nat"
  assumes "g (xs ! i) \<le> g y"
  shows "sum_list (map g xs) \<le> sum_list (map g (xs[i := y]))"
proof (cases "i < length xs \<and> g (xs ! i) < g y")
  case True
  then show ?thesis using sum_list_update_less [of i xs g y] by simp
next
  case False
  then have "map g (xs[i := y]) = map g xs" using assms
    by (cases "i < length xs") (auto simp: map_update list_update_same_conv list_update_beyond)
  then show ?thesis by simp
qed

lemma live_word_step:
  assumes inv: "live_inv td a words L ins outs" and cl: "closed_under td a words L"
    and b: "b < length (mf_blocks (al_f a))" and w: "w < words"
    and succ: "\<forall>c < length (mf_blocks (al_f a)). \<forall>s \<in> set (mach_successors td (al_f a) c). s < length (mf_blocks (al_f a))"
    and st: "live_step td a (ins, outs, ch) (b, w) = (ins', outs', ch')"
  shows "live_inv td a words L ins' outs' \<and>
     (ch' = ch \<and> ins' = ins \<and> outs' = outs \<and> balanced td a ins outs b w \<or>
      ch' \<and> live_size ins outs < live_size ins' outs')"
proof -
  let ?succ = "mach_successors td (al_f a) b" and ?n = "length (mf_blocks (al_f a))"
  define out where "out = foldl (\<lambda>out s. out OR ins ! s ! w) 0 ?succ"
  define inw where "inw = al_use a ! b ! w OR (out AND NOT (al_def a ! b ! w))"
  have len: "length ins = ?n" "length outs = ?n" "\<And>c. c < ?n \<Longrightarrow> length (ins ! c) = words \<and> length (outs ! c) = words"
    using inv by (auto simp: live_inv_def)
  have v: "w * 64 + k < 64 * words" if "k < 64" for k
    using that w by (metis add.commute div_less_iff_less_mult div_mult_self3 mult.commute
        add_0 div_less zero_less_numeral zero_neq_numeral)
  have out: "bit out k \<longleftrightarrow> (\<exists>s \<in> set ?succ. word_has (ins ! s) (w * 64 + k))" if "k < 64" for k
    using that by (simp add: out_def bit_foldl_or word_at)
  have inw: "bit inw k \<longleftrightarrow> word_has (al_use a ! b) (w * 64 + k) \<or> (bit out k \<and> \<not> word_has (al_def a ! b) (w * 64 + k))"
    if "k < 64" for k
    using that by (auto simp: inw_def bit_or_iff bit_and_iff bit_not_iff word_at)
  show ?thesis
  proof (cases "out = outs ! b ! w \<and> inw = ins ! b ! w")
    case True
    have "balanced td a ins outs b w"
      using out inw True by (auto simp: balanced_def Let_def word_at)
    with True st inv show ?thesis
      by (auto simp: live_step_def live_word_def Let_def out_def inw_def)
  next
    case False
    then have eq: "ins' = ins[b := (ins ! b)[w := inw]]" "outs' = outs[b := (outs ! b)[w := out]]" "ch'"
      using st by (auto simp: live_step_def live_word_def Let_def out_def inw_def split: if_splits)
    have old: "word_has (outs ! b) (w * 64 + k) \<Longrightarrow> bit out k"
      "word_has (ins ! b) (w * 64 + k) \<Longrightarrow> bit inw k" if "k < 64" for k
      using inv b v [OF that] out [OF that] inw [OF that] by (auto simp: live_inv_def)
    have at: "word_has (ins' ! c) u \<longleftrightarrow> (if c = b \<and> u div 64 = w then bit inw (u mod 64) else word_has (ins ! c) u)"
      "word_has (outs' ! c) u \<longleftrightarrow> (if c = b \<and> u div 64 = w then bit out (u mod 64) else word_has (outs ! c) u)"
      if "c < ?n" "u < 64 * words" for c u
      using that len b w by (auto simp: eq nth_list_update word_has_update)
    have split: "\<exists>k < 64. u = w * 64 + k \<and> u mod 64 = k" if "u div 64 = w" for u :: nat
      using that by (intro exI [of _ "u mod 64"]) auto
    have grow: "word_has (ins ! c) u \<Longrightarrow> word_has (ins' ! c) u" if "c < ?n" "u < 64 * words" for c u
      using at(1) [OF that] old(2) split [of u] by auto
    have "live_inv td a words L ins' outs'"
      unfolding live_inv_def
    proof (intro conjI allI impI)
      fix c u assume c: "c < ?n" and u: "u < 64 * words"
      note I = inv [unfolded live_inv_def, THEN conjunct2, THEN conjunct2, rule_format, OF c,
          THEN conjunct2, THEN conjunct2, rule_format, OF u]
      note C = cl [unfolded closed_under_def, rule_format, OF c u]
      show "\<exists>s \<in> set (mach_successors td (al_f a) c). word_has (ins' ! s) u" if h: "word_has (outs' ! c) u"
      proof -
        have "\<exists>s \<in> set (mach_successors td (al_f a) c). word_has (ins ! s) u"
          using h I at(2) [OF c u] split [of u] out by (auto split: if_splits)
        then show ?thesis using grow u succ [rule_format, OF c] by blast
      qed
      show "word_has (al_use a ! c) u \<or> (word_has (outs' ! c) u \<and> \<not> word_has (al_def a ! c) u)"
        if h: "word_has (ins' ! c) u"
        using h I at [OF c u] split [of u] inw by (auto split: if_splits)
      show "L c u" if h: "word_has (ins' ! c) u"
      proof (cases "c = b \<and> u div 64 = w")
        case True
        then obtain k where k: "k < 64" "u = w * 64 + k" "u mod 64 = k" using split [of u] by blast
        have "word_has (al_use a ! c) u \<or> (\<exists>s \<in> set (mach_successors td (al_f a) c). word_has (ins ! s) u) \<and> \<not> word_has (al_def a ! c) u"
          using h at(1) [OF c u] inw [OF k(1)] out [OF k(1)] True k by auto
        moreover have "L s u" if "s \<in> set (mach_successors td (al_f a) c)" "word_has (ins ! s) u" for s
          using inv u that succ [rule_format, OF c that(1)] by (auto simp: live_inv_def)
        ultimately show ?thesis using C by blast
      next
        case False
        then show ?thesis using h I at(1) [OF c u] by simp
      qed
    next
      fix c assume c: "c < ?n"
      show "length (ins' ! c) = words" "length (outs' ! c) = words"
        using len c b by (auto simp: eq nth_list_update)
    qed (simp_all add: eq len)
    moreover have "live_size ins outs < live_size ins' outs'"
    proof -
      have mono: "elems (ins ! b) \<subseteq> elems ((ins ! b)[w := inw])" "elems (outs ! b) \<subseteq> elems ((outs ! b)[w := out])"
        using old len(3) [OF b] w by (intro elems_update_mono; simp add: word_at)+
      have le: "card (elems (ins ! b)) \<le> card (elems ((ins ! b)[w := inw]))"
        "card (elems (outs ! b)) \<le> card (elems ((outs ! b)[w := out]))"
        using mono by (simp_all add: card_mono)
      consider k where "k < 64" "bit out k \<noteq> bit (outs ! b ! w) k" | k where "k < 64" "bit inw k \<noteq> bit (ins ! b ! w) k"
        using False word_eqI by metis
      then show ?thesis
      proof cases
        case 1
        have "card (elems (outs ! b)) < card (elems ((outs ! b)[w := out]))"
          by (rule elems_psubset_card [OF mono(2), of "w * 64 + k"])
            (use 1 old(1) [OF 1(1)] len(3) [OF b] w v [OF 1(1)] in \<open>auto simp: word_at\<close>)
        then show ?thesis
          unfolding live_size_def eq using sum_list_update_less [of b outs "card \<circ> elems" "(outs ! b)[w := out]"]
            sum_list_update_le [of "card \<circ> elems" ins b "(ins ! b)[w := inw]"] le(1) b len by simp
      next
        case 2
        have "card (elems (ins ! b)) < card (elems ((ins ! b)[w := inw]))"
          by (rule elems_psubset_card [OF mono(1), of "w * 64 + k"])
            (use 2 old(2) [OF 2(1)] len(3) [OF b] w v [OF 2(1)] in \<open>auto simp: word_at\<close>)
        then show ?thesis
          unfolding live_size_def eq using sum_list_update_less [of b ins "card \<circ> elems" "(ins ! b)[w := inw]"]
            sum_list_update_le [of "card \<circ> elems" outs b "(outs ! b)[w := out]"] le(2) b len by simp
      qed
    qed
    ultimately show ?thesis using eq(3) by blast
  qed
qed

text \<open>A pass leaves the sets balanced, or it makes them larger.\<close>

lemma live_pass:
  assumes cl: "closed_under td a words L" and p: "set ps \<subseteq> set (pass_words (length (mf_blocks (al_f a))) words)"
    and succ: "\<forall>c < length (mf_blocks (al_f a)). \<forall>s \<in> set (mach_successors td (al_f a) c). s < length (mf_blocks (al_f a))"
    and inv: "live_inv td a words L ins outs"
    and st: "foldl (live_step td a) (ins, outs, ch) ps = (ins', outs', ch')"
  shows "live_inv td a words L ins' outs' \<and> (ch \<longrightarrow> ch') \<and>
     (ins' = ins \<and> outs' = outs \<and> ch' = ch \<and> (\<forall>(b, w) \<in> set ps. balanced td a ins outs b w) \<or>
      ch' \<and> live_size ins outs < live_size ins' outs')"
  using p inv st
proof (induction ps arbitrary: ins outs ch)
  case (Cons p ps)
  obtain b w where bw: "p = (b, w)" by (cases p)
  obtain ins1 outs1 ch1 where s1: "live_step td a (ins, outs, ch) (b, w) = (ins1, outs1, ch1)"
    by (cases "live_step td a (ins, outs, ch) (b, w)")
  have "b < length (mf_blocks (al_f a))" "w < words" using Cons.prems(1) by (auto simp: bw in_pass_words)
  note one = live_word_step [OF Cons.prems(2) cl this succ s1]
  from one Cons.IH [of ins1 outs1 ch1] Cons.prems(1,3) s1 show ?case
    by (auto simp: bw)
qed simp

lemma live_size_le:
  assumes "live_inv td a words L ins outs"
  shows "live_size ins outs \<le> 128 * words * length (mf_blocks (al_f a))"
proof -
  have le: "sum_list (map (card \<circ> elems) xs) \<le> 64 * words * length xs"
    if "\<forall>x \<in> set xs. length x = words" for xs
    using that
  proof (induction xs)
    case (Cons x xs)
    then show ?case using card_elems_le [of x] by (auto simp: algebra_simps)
  qed simp
  have "\<forall>x \<in> set ins. length x = words" "\<forall>x \<in> set outs. length x = words"
    using assms by (auto simp: live_inv_def in_set_conv_nth)
  from this [THEN le] assms show ?thesis by (simp add: live_size_def live_inv_def)
qed

lemma live_loop_returns:
  assumes cl: "closed_under td a words L"
    and succ: "\<forall>c < length (mf_blocks (al_f a)). \<forall>s \<in> set (mach_successors td (al_f a) c). s < length (mf_blocks (al_f a))"
    and inv: "live_inv td a words L ins outs"
  shows "\<exists>ins' outs'. live_loop td a words ins outs = Some (ins', outs') \<and> live_inv td a words L ins' outs' \<and>
     (\<forall>b < length (mf_blocks (al_f a)). \<forall>w < words. balanced td a ins' outs' b w)"
  using inv
proof (induction "128 * words * length (mf_blocks (al_f a)) - live_size ins outs" arbitrary: ins outs rule: less_induct)
  case less
  let ?n = "length (mf_blocks (al_f a))"
  obtain ins1 outs1 ch where s1: "foldl (live_step td a) (ins, outs, False) (pass_words ?n words) = (ins1, outs1, ch)"
    by (cases "foldl (live_step td a) (ins, outs, False) (pass_words ?n words)")
  have loop: "live_loop td a words ins outs = (if ch then live_loop td a words ins1 outs1 else Some (ins1, outs1))"
    by (subst live_loop.simps) (simp add: pass_eq s1 [unfolded pass_words_def])
  note p = live_pass [OF cl subset_refl succ less.prems s1]
  show ?case
  proof (cases ch)
    case True
    with p have lt: "live_size ins outs < live_size ins1 outs1" and inv1: "live_inv td a words L ins1 outs1" by auto
    from live_size_le [OF inv1] lt less.hyps [of ins1 outs1] inv1 show ?thesis
      by (simp add: loop True)
  next
    case False
    with p show ?thesis by (auto simp: loop in_pass_words)
  qed
qed

section \<open>The least solution\<close>

lemma balanced_at:
  assumes "\<forall>w < words. balanced td a ins outs b w" "v < 64 * words"
  shows "word_has (outs ! b) v \<longleftrightarrow> (\<exists>s \<in> set (mach_successors td (al_f a) b). word_has (ins ! s) v)"
    "word_has (ins ! b) v \<longleftrightarrow> word_has (al_use a ! b) v \<or> (word_has (outs ! b) v \<and> \<not> word_has (al_def a ! b) v)"
proof -
  have "balanced td a ins outs b (v div 64)" using assms word_index_less by blast
  from this [unfolded balanced_def, rule_format, of "v mod 64"]
  show "word_has (outs ! b) v \<longleftrightarrow> (\<exists>s \<in> set (mach_successors td (al_f a) b). word_has (ins ! s) v)"
    "word_has (ins ! b) v \<longleftrightarrow> word_has (al_use a ! b) v \<or> (word_has (outs ! b) v \<and> \<not> word_has (al_def a ! b) v)"
    by (simp_all add: Let_def)
qed

lemma mach_okD:
  assumes "mach_ok td f" "b < length (mf_blocks f)"
  shows "length (targets_of td f b) \<le> 2" "inst \<in> set (block_insts f b) \<Longrightarrow> minst_ok td (vreg_count f) (length (mf_blocks f)) inst"
  using assms by (auto simp: mach_ok_def list_all_iff targets_of_def block_insts_def)

lemma mach_successors_edges:
  assumes "mach_ok td f" "b < length (mf_blocks f)"
  shows "s \<in> set (mach_successors td f b) \<longleftrightarrow> mach_edge td f b s"
  using mach_okD(1) [OF assms] by (auto simp: mach_successors_def mach_edge_def targets_of_def block_insts_def Let_def)

lemma mach_edge_less:
  assumes "mach_ok td f" "b < length (mf_blocks f)" "mach_edge td f b s"
  shows "s < length (mf_blocks f)"
  using assms mach_okD(2) [OF assms(1,2)] by (fastforce simp: mach_edge_def targets_of_def minst_ok_def list_all_iff)

lemma vreg_in_words: "v < vreg_count f \<Longrightarrow> v < 64 * set_count f"
  by (simp add: set_count_def)

lemma events_vregs_below:
  assumes "mach_ok td f" "b < length (mf_blocks f)"
  shows "vregs_below (64 * set_count f) (events td (block_insts f b))"
  unfolding vregs_below_def
proof (intro ballI, clarify)
  fix x w assume h: "(x, w) \<in> set (events td (block_insts f b))" "o_kind x = MACH_VREG"
  then obtain inst where i: "inst \<in> set (block_insts f b)" "(x, w) \<in> set (each_register td inst)"
    by (auto simp: events_def)
  with mach_okD(2) [OF assms i(1)] h(2) show "o_reg x < 64 * set_count f"
    by (blast intro: vreg_in_words dest: each_register_less)
qed

text \<open>The sets of blocks in the allocator after \<open>compute_liveness\<close>.\<close>

definition gathered :: "'op target_desc \<Rightarrow> 'op alloc \<Rightarrow> bool" where
  "gathered td a \<longleftrightarrow>
     al_use a = map (fst \<circ> gather_block td (set_count (al_f a))) (mf_blocks (al_f a)) \<and>
     al_def a = map (snd \<circ> gather_block td (set_count (al_f a))) (mf_blocks (al_f a))"

lemma gathered_sets:
  assumes "mach_ok td (al_f a)" "gathered td a" "b < length (mf_blocks (al_f a))" "v < 64 * set_count (al_f a)"
  shows "word_has (al_use a ! b) v \<longleftrightarrow> reads_first (events td (block_insts (al_f a) b)) v"
    "word_has (al_def a ! b) v \<longleftrightarrow> writes (events td (block_insts (al_f a) b)) v"
  using gather_block_sets [OF _ assms(4), of td "mf_blocks (al_f a) ! b"] events_vregs_below [OF assms(1,3)] assms(2,3)
  by (simp_all add: gathered_def block_insts_def)

lemma live_closed:
  assumes "mach_ok td (al_f a)" "gathered td a"
  shows "closed_under td a (set_count (al_f a)) (live_in td (al_f a))"
  unfolding closed_under_def
proof (intro allI impI conjI)
  fix b v assume b: "b < length (mf_blocks (al_f a))" and v: "v < 64 * set_count (al_f a)"
  note g = gathered_sets [OF assms b v] and e = mach_successors_edges [OF assms(1) b]
  show "live_in td (al_f a) b v" if "word_has (al_use a ! b) v" using that g by (auto intro: live_in.used)
  show "live_in td (al_f a) b v"
    if "(\<exists>s \<in> set (mach_successors td (al_f a) b). live_in td (al_f a) s v) \<and> \<not> word_has (al_def a ! b) v"
    using that g e by (auto intro: live_in.passed)
qed

lemma live_below_balanced:
  assumes ok: "mach_ok td (al_f a)" and g: "gathered td a"
    and bal: "\<forall>b < length (mf_blocks (al_f a)). \<forall>w < set_count (al_f a). balanced td a ins outs b w"
    and live: "live_in td (al_f a) b v" and b: "b < length (mf_blocks (al_f a))" and v: "v < 64 * set_count (al_f a)"
  shows "word_has (ins ! b) v"
  using live b v
proof (induction rule: live_in.induct)
  case (used b v)
  then show ?case
    using balanced_at(2) [OF bal [THEN spec, THEN mp, OF used(2)] used(3)] gathered_sets [OF ok g used(2,3)] by blast
next
  case (passed b s v)
  note s = mach_edge_less [OF ok passed.prems(1) passed.hyps(1)]
    and bal_b = bal [THEN spec, THEN mp, OF passed.prems(1)]
  have "word_has (outs ! b) v"
    using balanced_at(1) [OF bal_b passed.prems(2)] passed.IH [OF s passed.prems(2)] passed.hyps(1)
      mach_successors_edges [OF ok passed.prems(1)] by blast
  then show ?case
    using balanced_at(2) [OF bal_b passed.prems(2)] passed.hyps(3) gathered_sets [OF ok g passed.prems]
    by blast
qed

lemma live_inv_start:
  assumes "n = length (mf_blocks (al_f a))"
  shows "live_inv td a words L (replicate n (replicate words 0)) (replicate n (replicate words 0))"
  using assms by (simp add: live_inv_def)

lemma compute_liveness_sets:
  assumes ok: "mach_ok td (al_f a)"
  obtains a' where "compute_liveness td a = Some a'" "al_f a' = al_f a"
    "length (al_live_in a') = length (mf_blocks (al_f a))" "length (al_live_out a') = length (mf_blocks (al_f a))"
    "\<And>b v. b < length (mf_blocks (al_f a)) \<Longrightarrow> v < vreg_count (al_f a) \<Longrightarrow>
       set_has (al_live_in a' ! b) v = live_in td (al_f a) b v"
    "\<And>b v. b < length (mf_blocks (al_f a)) \<Longrightarrow> v < vreg_count (al_f a) \<Longrightarrow>
       set_has (al_live_out a' ! b) v = live_out td (al_f a) b v"
proof -
  let ?f = "al_f a"
  let ?w = "set_count ?f" and ?n = "length (mf_blocks ?f)"
  define a1 where "a1 = a\<lparr>al_use := map (fst \<circ> gather_block td ?w) (mf_blocks ?f),
      al_def := map (snd \<circ> gather_block td ?w) (mf_blocks ?f)\<rparr>"
  have f1: "al_f a1 = ?f" and g: "gathered td a1" by (simp_all add: a1_def gathered_def)
  have ok1: "mach_ok td (al_f a1)" using ok f1 by simp
  have succ: "\<forall>c < ?n. \<forall>s \<in> set (mach_successors td ?f c). s < ?n"
    using mach_successors_edges [OF ok] mach_edge_less [OF ok] by blast
  obtain ins outs where l: "live_loop td a1 ?w (replicate ?n (replicate ?w 0)) (replicate ?n (replicate ?w 0)) = Some (ins, outs)"
    and inv: "live_inv td a1 ?w (live_in td ?f) ins outs"
    and bal: "\<forall>b < ?n. \<forall>w < ?w. balanced td a1 ins outs b w"
    using live_loop_returns [OF live_closed [OF ok1 g], unfolded f1, OF succ live_inv_start [of ?n a1, unfolded f1, OF refl]] by blast
  have ins: "word_has (ins ! b) v \<longleftrightarrow> live_in td ?f b v" if "b < ?n" "v < vreg_count ?f" for b v
    using live_below_balanced [OF ok1 g, unfolded f1, OF bal _ that(1) vreg_in_words [OF that(2)]]
      inv that(1) vreg_in_words [OF that(2)] by (auto simp: live_inv_def f1)
  have outs: "word_has (outs ! b) v \<longleftrightarrow> live_out td ?f b v" if "b < ?n" "v < vreg_count ?f" for b v
  proof -
    have "word_has (outs ! b) v \<longleftrightarrow> (\<exists>s. mach_edge td ?f b s \<and> word_has (ins ! s) v)"
      using balanced_at(1) [OF bal [THEN spec, THEN mp, OF that(1)] vreg_in_words [OF that(2)]]
        mach_successors_edges [OF ok that(1)] by (auto simp: f1)
    also have "\<dots> \<longleftrightarrow> live_out td ?f b v"
      using ins [OF mach_edge_less [OF ok that(1)] that(2)] by (auto simp: live_out_def)
    finally show ?thesis .
  qed
  have "compute_liveness td a = Some (a1\<lparr>al_live_in := ins, al_live_out := outs\<rparr>)"
    using l by (simp add: compute_liveness_def Let_def a1_def comp_def)
  then show ?thesis
    by (rule that) (use inv ins outs in \<open>simp_all add: f1 live_inv_def set_has_word\<close>)
qed

end
