(* ===== verification/Intervals.thy ===== *)
theory Intervals
  imports Liveness
begin

text \<open>
  The intervals and the fixed ranges of \<open>build_intervals\<close> cover what they must: an interval every
  position where its register is live or accessed, a fixed range every position from the write of
  a physical register to the last read of that value.
\<close>

section \<open>Positions\<close>

definition block_start :: "'op mach_function \<Rightarrow> nat \<Rightarrow> int" where
  "block_start f b = int (sum_list (map (length \<circ> mb_insts) (take b (mf_blocks f))))"

text \<open>The position at which instruction \<open>i\<close> of block \<open>b\<close> reads.\<close>

definition reads_at :: "'op mach_function \<Rightarrow> nat \<Rightarrow> nat \<Rightarrow> int" where
  "reads_at f b i = 2 * (block_start f b + int i)"

definition covers :: "interval \<Rightarrow> int \<Rightarrow> bool" where
  "covers iv p \<longleftrightarrow> iv_start iv \<le> p \<and> p \<le> iv_end iv"

lemma block_start_Suc:
  "b < length (mf_blocks f) \<Longrightarrow> block_start f (Suc b) = block_start f b + int (length (block_insts f b))"
  by (simp add: block_start_def block_insts_def take_Suc_conv_app_nth)

lemma covers_between: "covers iv p \<Longrightarrow> covers iv q \<Longrightarrow> p \<le> m \<Longrightarrow> m \<le> q \<Longrightarrow> covers iv m"
  by (auto simp: covers_def)

section \<open>Folds\<close>

text \<open>A property that each element establishes and no later one destroys.\<close>

lemma foldl_established:
  assumes "\<And>s x. I s \<Longrightarrow> x \<in> set xs \<Longrightarrow> I (g s x)"
    and "\<And>s x. I s \<Longrightarrow> x \<in> set xs \<Longrightarrow> Q x (g s x)"
    and "\<And>s x y. I s \<Longrightarrow> x \<in> set xs \<Longrightarrow> Q y s \<Longrightarrow> Q y (g s x)"
    and "I s"
  shows "I (foldl g s xs) \<and> (\<forall>x \<in> set xs. Q x (foldl g s xs)) \<and> (\<forall>y. Q y s \<longrightarrow> Q y (foldl g s xs))"
  using assms
proof (induction xs arbitrary: s)
  case (Cons x xs)
  have "I (g s x)" "Q x (g s x)" "\<And>y. Q y s \<Longrightarrow> Q y (g s x)" using Cons.prems by auto
  with Cons.IH [of "g s x"] Cons.prems(1-3) show ?case by auto
qed simp

section \<open>Intervals only grow\<close>

text \<open>What the allocator keeps of an interval while it builds: the register, the class and that no
  place is chosen.\<close>

definition same_interval :: "interval \<Rightarrow> interval \<Rightarrow> bool" where
  "same_interval iv iv' \<longleftrightarrow>
     iv_vreg iv' = iv_vreg iv \<and> iv_fp iv' = iv_fp iv \<and> iv_preg iv' = iv_preg iv \<and> iv_slot iv' = iv_slot iv"

definition widens :: "interval list \<Rightarrow> interval list \<Rightarrow> bool" where
  "widens ivs ivs' \<longleftrightarrow>
     length ivs' = length ivs \<and>
     (\<forall>v < length ivs. same_interval (ivs ! v) (ivs' ! v) \<and> (\<forall>p. covers (ivs ! v) p \<longrightarrow> covers (ivs' ! v) p))"

lemma widens_refl [simp]: "widens ivs ivs"
  by (simp add: widens_def same_interval_def)

lemma widens_trans: "widens x y \<Longrightarrow> widens y z \<Longrightarrow> widens x z"
  by (auto simp: widens_def same_interval_def)

lemma widens_update:
  assumes "same_interval (ivs ! v) (g (ivs ! v))" "\<And>p. covers (ivs ! v) p \<Longrightarrow> covers (g (ivs ! v)) p"
  shows "widens ivs (update v g ivs)"
  unfolding widens_def
proof (intro conjI allI impI)
  fix u assume u: "u < length ivs"
  have eq: "update v g ivs ! u = (if u = v then g (ivs ! v) else ivs ! u)"
    using u by (auto simp: update_def nth_list_update)
  show "same_interval (ivs ! u) (update v g ivs ! u)" using assms(1) by (simp add: eq same_interval_def)
  show "covers (update v g ivs ! u) p" if "covers (ivs ! u) p" for p using assms(2) that by (auto simp: eq)
qed (simp add: update_def)

lemma covers_extend: "covers (extend_iv p iv) q \<longleftrightarrow> min (iv_start iv) p \<le> q \<and> q \<le> max (iv_end iv) p"
  by (auto simp: covers_def extend_iv_def Let_def)

lemma extend_covers: "covers iv q \<Longrightarrow> covers (extend_iv p iv) q" "covers (extend_iv p iv) p"
  by (simp_all add: covers_extend) (auto simp: covers_def)

lemma extend_same: "same_interval iv (extend_iv p iv)"
  by (simp add: same_interval_def extend_iv_def Let_def)

lemma widens_hint: "widens ivs (record_hint td inst ivs)"
proof -
  have p: "widens is (update v (hint_preg r) is)" and w: "widens is (update v (hint_vreg r) is)" for "is" v r
    by (rule widens_update; simp add: same_interval_def covers_def hint_preg_def hint_vreg_def)+
  show ?thesis
    by (auto simp: record_hint_def intro: p widens_trans [OF w w] split: list.split)
qed

definition ivs_of :: "scan_state \<Rightarrow> interval list" where
  "ivs_of st = fst st"

definition fixed_of :: "scan_state \<Rightarrow> range list list \<times> nat option list" where
  "fixed_of st = snd st"

lemma scan_register_ivs:
  "widens (ivs_of st) (ivs_of (scan_register c st ev))"
  "o_kind (fst ev) = MACH_VREG \<Longrightarrow> o_reg (fst ev) < length (ivs_of st) \<Longrightarrow>
     covers (ivs_of (scan_register c st ev) ! o_reg (fst ev)) (sc_position c + (if snd ev then 1 else 0))"
proof -
  obtain ivs fixed current where st: "st = (ivs, fixed, current)" by (cases st)
  obtain x w where ev: "ev = (x, w)" by (cases ev)
  let ?p = "sc_position c + (if w then 1 else 0)"
  let ?g = "\<lambda>iv. (extend_iv ?p iv)\<lparr>iv_weight := iv_weight iv + sc_weight c\<rparr>"
  have g: "same_interval iv (?g iv)" "covers (?g iv) q \<longleftrightarrow> covers (extend_iv ?p iv) q" for iv q
    using extend_same [of iv ?p] by (simp_all add: same_interval_def covers_def)
  have "widens ivs (update (o_reg x) ?g ivs)"
    by (rule widens_update) (auto simp only: g intro: extend_covers g)
  then show "widens (ivs_of st) (ivs_of (scan_register c st ev))"
    by (auto simp: scan_register_def ivs_of_def Let_def st ev split: option.split)
  assume "o_kind (fst ev) = MACH_VREG" "o_reg (fst ev) < length (ivs_of st)"
  then have "ivs_of (scan_register c st ev) ! o_reg (fst ev) = ?g (ivs ! o_reg x)"
    by (simp add: scan_register_def ivs_of_def Let_def st ev update_def)
  then show "covers (ivs_of (scan_register c st ev) ! o_reg (fst ev)) (sc_position c + (if snd ev then 1 else 0))"
    by (simp only: g ev snd_conv) (simp add: extend_covers)
qed

text \<open>An event at a position, over intervals.\<close>

definition event_covered :: "int \<Rightarrow> mach_operand \<times> bool \<Rightarrow> interval list \<Rightarrow> bool" where
  "event_covered p ev ivs \<longleftrightarrow>
     (o_kind (fst ev) = MACH_VREG \<longrightarrow> covers (ivs ! o_reg (fst ev)) (p + (if snd ev then 1 else 0)))"

lemma event_covered_widens:
  assumes "event_covered p ev ivs" "widens ivs ivs'" "o_kind (fst ev) = MACH_VREG \<longrightarrow> o_reg (fst ev) < length ivs"
  shows "event_covered p ev ivs'"
  using assms by (auto simp: event_covered_def widens_def)

lemma scan_inst_ivs:
  assumes "\<And>x w. (x, w) \<in> set (each_register td inst) \<Longrightarrow> o_kind x = MACH_VREG \<Longrightarrow> o_reg x < length (ivs_of st)"
  shows "widens (ivs_of st) (ivs_of (scan_inst td c st inst)) \<and>
     (\<forall>ev \<in> set (each_register td inst). event_covered (sc_position c) ev (ivs_of (scan_inst td c st inst)))"
proof -
  let ?es = "each_register td inst"
  define st1 where "st1 = foldl (scan_register c) st ?es"
  let ?n = "length (ivs_of st)"
  have in_n: "o_kind (fst ev) = MACH_VREG \<longrightarrow> o_reg (fst ev) < ?n" if "ev \<in> set ?es" for ev
    using assms that by (cases ev) auto
  have "widens (ivs_of st) (ivs_of st1) \<and> (\<forall>ev \<in> set ?es. event_covered (sc_position c) ev (ivs_of st1))"
  proof -
    define Q where "Q ev s \<longleftrightarrow> ev \<in> set ?es \<and> event_covered (sc_position c) ev (ivs_of s)" for ev s
    have "(\<lambda>s. widens (ivs_of st) (ivs_of s)) st1 \<and> (\<forall>ev \<in> set ?es. Q ev st1) \<and> (\<forall>ev. Q ev st \<longrightarrow> Q ev st1)"
      unfolding st1_def
    proof (rule foldl_established)
      fix s ev assume I: "widens (ivs_of st) (ivs_of s)" and ev: "ev \<in> set ?es"
      have len: "length (ivs_of s) = ?n" using I by (simp add: widens_def)
      show "widens (ivs_of st) (ivs_of (scan_register c s ev))"
        using I scan_register_ivs(1) widens_trans by blast
      show "Q ev (scan_register c s ev)"
        using scan_register_ivs(2) [of ev s c] ev in_n [OF ev] by (simp add: Q_def event_covered_def len)
      fix e assume "Q e s"
      then show "Q e (scan_register c s ev)"
        using event_covered_widens [OF _ scan_register_ivs(1)] in_n [of e] by (auto simp: Q_def len)
    qed simp
    then show ?thesis by (simp add: Q_def)
  qed
  moreover have "ivs_of (scan_inst td c st inst) = record_hint td inst (ivs_of st1)"
    by (simp add: scan_inst_def ivs_of_def st1_def split: prod.split)
  moreover have "widens (ivs_of st1) (record_hint td inst (ivs_of st1))" by (rule widens_hint)
  ultimately show ?thesis
    using widens_trans event_covered_widens [of "sc_position c" _ "ivs_of st1"] in_n
    by (metis (no_types, lifting) widens_def)
qed

section \<open>One block\<close>

definition block_stop :: "'op mach_function \<Rightarrow> nat \<Rightarrow> int" where
  "block_stop f b =
     (if block_insts f b = [] then reads_at f b 0 else reads_at f b (length (block_insts f b)) - 1)"

definition block_live :: "'op alloc \<Rightarrow> nat \<Rightarrow> interval list \<Rightarrow> interval list" where
  "block_live a b ivs =
     map (\<lambda>v. extend_live (al_live_in a ! b) (al_live_out a ! b) (reads_at (al_f a) b 0) (block_stop (al_f a) b)
            v (ivs ! v)) [0..<length ivs]"

definition block_ctx :: "'op mach_function \<Rightarrow> nat \<Rightarrow> nat \<Rightarrow> scan_ctx" where
  "block_ctx f b i = \<lparr>sc_position = reads_at f b i, sc_block_start = reads_at f b 0,
     sc_weight = loop_weight (mb_loop_depth (mf_blocks f ! b)) 1\<rparr>"

definition indexed :: "'a list \<Rightarrow> (nat \<times> 'a) list" where
  "indexed xs = zip [0..<length xs] xs"

definition block_scan :: "'op target_desc \<Rightarrow> 'op mach_function \<Rightarrow> nat \<Rightarrow> scan_state \<Rightarrow> scan_state" where
  "block_scan td f b st =
     foldl (\<lambda>st (i, inst). scan_inst td (block_ctx f b i) st inst) st (indexed (block_insts f b))"

definition build_at :: "'op target_desc \<Rightarrow> 'op alloc \<Rightarrow> interval list \<times> range list list \<Rightarrow> nat \<Rightarrow>
    interval list \<times> range list list" where
  "build_at td a st b =
     (let r = block_scan td (al_f a) b (block_live a b (fst st), snd st, replicate PREG_LIMIT None)
      in (ivs_of r, fst (fixed_of r)))"

lemma build_block_at:
  assumes "k = block_start (al_f a) b" "b < length (mf_blocks (al_f a))"
  shows "build_block td a (ivs, fixed, k) b =
     (fst (build_at td a (ivs, fixed) b), snd (build_at td a (ivs, fixed) b), block_start (al_f a) (Suc b))"
  using assms(2)
  by (auto simp: build_block_def build_at_def block_scan_def block_ctx_def block_live_def block_stop_def reads_at_def
      block_start_Suc indexed_def block_insts_def Let_def ivs_of_def fixed_of_def assms(1) split: prod.splits)

lemma build_blocks_at:
  assumes "n \<le> length (mf_blocks (al_f a))"
  shows "foldl (build_block td a) (ivs, fixed, 0) [0..<n] =
     (fst (foldl (build_at td a) (ivs, fixed) [0..<n]), snd (foldl (build_at td a) (ivs, fixed) [0..<n]),
      block_start (al_f a) n)"
  using assms
proof (induction n)
  case 0
  then show ?case by (simp add: block_start_def)
next
  case (Suc n)
  then show ?case by (simp add: build_block_at)
qed

definition start_intervals :: "'op mach_function \<Rightarrow> interval list" where
  "start_intervals f = map (\<lambda>v. no_interval (mf_fp f ! v) v) [0..<vreg_count f]"

definition built :: "'op target_desc \<Rightarrow> 'op alloc \<Rightarrow> interval list \<times> range list list" where
  "built td a = foldl (build_at td a) (start_intervals (al_f a), replicate PREG_LIMIT []) [0..<length (mf_blocks (al_f a))]"

lemma build_intervals_built:
  "build_intervals td a = a\<lparr>al_intervals := fst (built td a), al_fixed := snd (built td a)\<rparr>"
  using build_blocks_at [OF order_refl, of td a "start_intervals (al_f a)" "replicate PREG_LIMIT []"]
  by (simp add: build_intervals_def built_def start_intervals_def Let_def split: prod.split)

lemma in_indexed: "(i, x) \<in> set (indexed xs) \<longleftrightarrow> i < length xs \<and> x = xs ! i"
  by (force simp: indexed_def set_zip)

lemma block_live_widens: "widens ivs (block_live a b ivs)"
  by (auto simp: widens_def block_live_def extend_live_def Let_def same_interval_def extend_covers
      extend_same [unfolded same_interval_def])

lemma block_live_covers:
  assumes "v < length ivs"
  shows "set_has (al_live_in a ! b) v \<Longrightarrow> covers (block_live a b ivs ! v) (reads_at (al_f a) b 0)"
    "set_has (al_live_out a ! b) v \<Longrightarrow> covers (block_live a b ivs ! v) (block_stop (al_f a) b)"
  using assms by (auto simp: block_live_def extend_live_def Let_def extend_covers)

lemma event_reg_less:
  assumes "mach_ok td f" "b < length (mf_blocks f)" "i < length (block_insts f b)"
    "(x, w) \<in> set (each_register td (block_insts f b ! i))" "o_kind x = MACH_VREG"
  shows "o_reg x < vreg_count f"
  using mach_okD(2) [OF assms(1,2), of "block_insts f b ! i"] assms(3-5) each_register_less nth_mem by blast

lemma block_scan_ivs:
  assumes ok: "mach_ok td f" and b: "b < length (mf_blocks f)" and n: "length (ivs_of st) = vreg_count f"
  shows "widens (ivs_of st) (ivs_of (block_scan td f b st)) \<and>
     (\<forall>i < length (block_insts f b). \<forall>ev \<in> set (each_register td (block_insts f b ! i)).
        event_covered (reads_at f b i) ev (ivs_of (block_scan td f b st)))"
proof -
  let ?g = "\<lambda>st (i, inst). scan_inst td (block_ctx f b i) st inst" and ?xs = "indexed (block_insts f b)"
  define Q where "Q p s \<longleftrightarrow> p \<in> set ?xs \<and>
      (\<forall>ev \<in> set (each_register td (snd p)). event_covered (reads_at f b (fst p)) ev (ivs_of s))" for p and s :: scan_state
  have "(\<lambda>s. widens (ivs_of st) (ivs_of s)) (foldl ?g st ?xs) \<and> (\<forall>p \<in> set ?xs. Q p (foldl ?g st ?xs)) \<and>
      (\<forall>p. Q p st \<longrightarrow> Q p (foldl ?g st ?xs))"
  proof (rule foldl_established)
    fix s p assume I: "widens (ivs_of st) (ivs_of s)" and p: "p \<in> set ?xs"
    obtain i inst where pi: "p = (i, inst)" by (cases p)
    have i: "i < length (block_insts f b)" "inst = block_insts f b ! i" using p by (auto simp: pi in_indexed)
    have len: "length (ivs_of s) = vreg_count f" using I n by (simp add: widens_def)
    note one = scan_inst_ivs [of td inst s "block_ctx f b i"]
    have one: "widens (ivs_of s) (ivs_of (?g s p))"
      "\<forall>ev \<in> set (each_register td inst). event_covered (reads_at f b i) ev (ivs_of (?g s p))"
      using one event_reg_less [OF ok b i(1)] by (auto simp: len pi i(2) block_ctx_def)
    show "widens (ivs_of st) (ivs_of (?g s p))" using widens_trans [OF I one(1)] .
    show "Q p (?g s p)" using one(2) p by (simp add: Q_def pi)
    fix q assume q: "Q q s"
    have "o_reg (fst ev) < vreg_count f" if "ev \<in> set (each_register td (snd q))" "o_kind (fst ev) = MACH_VREG" for ev
      using event_reg_less [OF ok b, of "fst q" "fst ev" "snd ev"] q that by (cases q) (auto simp: Q_def in_indexed)
    then show "Q q (?g s p)"
      using q event_covered_widens [OF _ one(1)] by (auto simp: Q_def len)
  qed simp
  note r = this [folded block_scan_def]
  have "Q (i, block_insts f b ! i) (block_scan td f b st)" if "i < length (block_insts f b)" for i
    using r that by (auto simp: in_indexed)
  then have "\<forall>ev \<in> set (each_register td (block_insts f b ! i)). event_covered (reads_at f b i) ev (ivs_of (block_scan td f b st))"
    if "i < length (block_insts f b)" for i
    using that by (simp add: Q_def)
  with r show ?thesis by blast
qed

section \<open>All blocks\<close>

text \<open>The intervals cover the accesses and the live ends of block \<open>b\<close>.\<close>

definition block_covered :: "'op target_desc \<Rightarrow> 'op alloc \<Rightarrow> nat \<Rightarrow> interval list \<Rightarrow> bool" where
  "block_covered td a b ivs \<longleftrightarrow>
     (\<forall>v < vreg_count (al_f a).
        (set_has (al_live_in a ! b) v \<longrightarrow> covers (ivs ! v) (reads_at (al_f a) b 0)) \<and>
        (set_has (al_live_out a ! b) v \<longrightarrow> covers (ivs ! v) (block_stop (al_f a) b))) \<and>
     (\<forall>i < length (block_insts (al_f a) b). \<forall>ev \<in> set (each_register td (block_insts (al_f a) b ! i)).
        event_covered (reads_at (al_f a) b i) ev ivs)"

lemma block_covered_widens:
  assumes "mach_ok td (al_f a)" "b < length (mf_blocks (al_f a))" "length ivs = vreg_count (al_f a)"
    "block_covered td a b ivs" "widens ivs ivs'"
  shows "block_covered td a b ivs'"
  unfolding block_covered_def
proof (intro conjI allI impI ballI)
  fix i ev assume i: "i < length (block_insts (al_f a) b)" and ev: "ev \<in> set (each_register td (block_insts (al_f a) b ! i))"
  show "event_covered (reads_at (al_f a) b i) ev ivs'"
    using event_covered_widens [OF _ assms(5), of "reads_at (al_f a) b i" ev] assms(3,4) i ev
      event_reg_less [OF assms(1,2) i, of "fst ev" "snd ev"]
    by (auto simp: block_covered_def)
qed (use assms(3-5) in \<open>auto simp: block_covered_def widens_def\<close>)

lemma built_covered:
  assumes ok: "mach_ok td (al_f a)"
  shows "widens (start_intervals (al_f a)) (fst (built td a)) \<and>
     (\<forall>b < length (mf_blocks (al_f a)). block_covered td a b (fst (built td a)))"
proof -
  let ?n = "length (mf_blocks (al_f a))" and ?st = "(start_intervals (al_f a), replicate PREG_LIMIT [])"
  define Q where "Q b s \<longleftrightarrow> b < ?n \<and> block_covered td a b (fst s)" for b and s :: "interval list \<times> range list list"
  have "(\<lambda>s. widens (start_intervals (al_f a)) (fst s)) (foldl (build_at td a) ?st [0..<?n]) \<and>
     (\<forall>b \<in> set [0..<?n]. Q b (foldl (build_at td a) ?st [0..<?n])) \<and>
     (\<forall>b. Q b ?st \<longrightarrow> Q b (foldl (build_at td a) ?st [0..<?n]))"
  proof (rule foldl_established)
    fix s :: "interval list \<times> range list list" and b assume I: "widens (start_intervals (al_f a)) (fst s)" and "b \<in> set [0..<?n]"
    then have b: "b < ?n" by simp
    have len: "length (fst s) = vreg_count (al_f a)" using I by (simp add: widens_def start_intervals_def)
    let ?live = "block_live a b (fst s)"
    have l: "length ?live = vreg_count (al_f a)" by (simp add: block_live_def len)
    have s': "fst (build_at td a s b) = ivs_of (block_scan td (al_f a) b (?live, snd s, replicate PREG_LIMIT None))"
      by (simp add: build_at_def Let_def)
    note scan = block_scan_ivs [OF ok b, of "(?live, snd s, replicate PREG_LIMIT None)", folded s',
        unfolded ivs_of_def fst_conv, OF l]
    have g: "widens (fst s) (fst (build_at td a s b))" using widens_trans [OF block_live_widens] scan by blast
    show "widens (start_intervals (al_f a)) (fst (build_at td a s b))" using widens_trans [OF I g] .
    show "Q b (build_at td a s b)"
      using b scan block_live_covers [of _ "fst s" a b]
      by (auto simp: Q_def block_covered_def widens_def len l)
    show "Q c (build_at td a s b)" if "Q c s" for c
      using that block_covered_widens [OF ok _ len _ g] by (simp add: Q_def)
  qed simp
  then show ?thesis by (simp add: built_def Q_def)
qed

end
