(* ===== verification/Points.thy ===== *)
theory Points
  imports Intervals
begin

text \<open>
  Liveness between the instructions of a block, and the intervals there. The point \<open>i\<close> of a block
  is the one before its instruction \<open>i\<close>.
\<close>

definition live_at :: "'op target_desc \<Rightarrow> 'op mach_function \<Rightarrow> nat \<Rightarrow> nat \<Rightarrow> nat \<Rightarrow> bool" where
  "live_at td f b i v \<longleftrightarrow>
     reads_first (events td (drop i (block_insts f b))) v \<or>
     (\<not> writes (events td (drop i (block_insts f b))) v \<and> live_out td f b v)"

lemma reads_first_append:
  "reads_first (es @ fs) v \<longleftrightarrow> reads_first es v \<or> (\<not> writes es v \<and> reads_first fs v)"
  by (induction es v rule: reads_first.induct) (auto simp: writes_def)

lemma writes_append [simp]: "writes (es @ fs) v \<longleftrightarrow> writes es v \<or> writes fs v"
  by (auto simp: writes_def)

lemma writes_Nil [simp]: "\<not> writes [] v"
  by (simp add: writes_def)

lemma events_simps [simp]: "events td [] = []" "events td (inst # insts) = each_register td inst @ events td insts"
  by (simp_all add: events_def)

lemma events_drop:
  assumes "i < length (block_insts f b)"
  shows "events td (drop i (block_insts f b)) =
     each_register td (block_insts f b ! i) @ events td (drop (Suc i) (block_insts f b))"
  using assms by (simp add: Cons_nth_drop_Suc [symmetric])

text \<open>An instruction writes \<open>v\<close>.\<close>

abbreviation inst_writes :: "'op target_desc \<Rightarrow> 'op mach_inst \<Rightarrow> nat \<Rightarrow> bool" where
  "inst_writes td inst v \<equiv> writes (each_register td inst) v"

lemma live_at_end: "live_at td f b (length (block_insts f b)) v \<longleftrightarrow> live_out td f b v"
  by (simp add: live_at_def)

lemma live_at_start: "live_at td f b 0 v \<longleftrightarrow> live_in td f b v"
proof
  assume "live_at td f b 0 v"
  then show "live_in td f b v"
    by (auto simp: live_at_def live_out_def intro: live_in.used live_in.passed)
next
  assume "live_in td f b v"
  then show "live_at td f b 0 v"
    by (cases rule: live_in.cases) (auto simp: live_at_def live_out_def)
qed

text \<open>A register that is live after an instruction is live before it or written by it.\<close>

lemma live_at_back:
  assumes "i < length (block_insts f b)" "live_at td f b (Suc i) v" "\<not> inst_writes td (block_insts f b ! i) v"
  shows "live_at td f b i v"
  using assms by (auto simp: live_at_def events_drop reads_first_append)

lemma live_at_origin:
  assumes "i \<le> length (block_insts f b)" "live_at td f b i v"
  shows "live_in td f b v \<or> (\<exists>j < i. inst_writes td (block_insts f b ! j) v)"
  using assms
proof (induction i)
  case 0
  then show ?case by (simp add: live_at_start)
next
  case (Suc i)
  then show ?case using live_at_back [of i f b td v] less_Suc_eq by (metis Suc_le_lessD Suc_leD)
qed

lemma reads_first_event:
  "reads_first es v \<Longrightarrow> \<exists>x. (x, False) \<in> set es \<and> o_kind x = MACH_VREG \<and> o_reg x = v"
  by (induction es v rule: reads_first.induct) (auto split: if_splits)

lemma events_at:
  assumes "e \<in> set (events td (drop i (block_insts f b)))"
  obtains j where "i \<le> j" "j < length (block_insts f b)" "e \<in> set (each_register td (block_insts f b ! j))"
proof -
  obtain inst where inst: "inst \<in> set (drop i (block_insts f b))" "e \<in> set (each_register td inst)"
    using assms by (auto simp: events_def)
  then obtain k where "k < length (block_insts f b) - i" "inst = block_insts f b ! (i + k)"
    by (auto simp: in_set_conv_nth)
  with inst(2) show ?thesis by (intro that [of "i + k"]) auto
qed

section \<open>The intervals at a point\<close>

text \<open>What the scan relies on: the intervals of a function cover where its registers are live and every
  access.\<close>

locale live_intervals =
  fixes intervals :: "'op target_desc \<Rightarrow> 'op mach_function \<Rightarrow> interval list"
  assumes live_in_covered: "mach_ok td f \<Longrightarrow> b < length (mf_blocks f) \<Longrightarrow> live_in td f b v \<Longrightarrow>
      v < vreg_count f \<Longrightarrow> covers (intervals td f ! v) (reads_at f b 0)"
    and live_out_covered: "mach_ok td f \<Longrightarrow> b < length (mf_blocks f) \<Longrightarrow> live_out td f b v \<Longrightarrow>
      v < vreg_count f \<Longrightarrow> covers (intervals td f ! v) (block_stop f b)"
    and access_covered: "mach_ok td f \<Longrightarrow> b < length (mf_blocks f) \<Longrightarrow> i < length (block_insts f b) \<Longrightarrow>
      ev \<in> set (each_register td (block_insts f b ! i)) \<Longrightarrow>
      event_covered (reads_at f b i) ev (intervals td f)"
begin

lemma write_covered:
  assumes ok: "mach_ok td f" and b: "b < length (mf_blocks f)" and r: "i < length (block_insts f b)" "inst_writes td (block_insts f b ! i) v"
  shows "covers (intervals td f ! v) (reads_at f b i + 1)"
  using assms access_covered [OF assms(1-3)] by (fastforce simp: writes_def event_covered_def)

lemma live_before_start:
  assumes ok: "mach_ok td f" and b: "b < length (mf_blocks f)" and r: "i \<le> length (block_insts f b)" "live_at td f b i v" "v < vreg_count f"
  obtains p where "covers (intervals td f ! v) p" "p \<le> reads_at f b i" "0 < i \<Longrightarrow> p \<le> reads_at f b i - 1"
  using live_at_origin [OF assms(3,4)]
proof
  assume "live_in td f b v"
  from live_in_covered [OF ok b this assms(5)] show thesis by (rule that) (simp_all add: reads_at_def)
next
  assume "\<exists>j < i. inst_writes td (block_insts f b ! j) v"
  then obtain j where "j < i" "inst_writes td (block_insts f b ! j) v" by blast
  with write_covered [OF ok b, of j v] assms(3) show thesis
    by (intro that [of "reads_at f b j + 1"]) (auto simp: reads_at_def)
qed

lemma live_after_end:
  assumes ok: "mach_ok td f" and b: "b < length (mf_blocks f)" and r: "i \<le> length (block_insts f b)" "live_at td f b i v" "v < vreg_count f"
    "block_insts f b \<noteq> []"
  obtains q where "covers (intervals td f ! v) q" "reads_at f b i - 1 \<le> q" "i < length (block_insts f b) \<Longrightarrow> reads_at f b i \<le> q"
proof (cases "reads_first (events td (drop i (block_insts f b))) v")
  case True
  then obtain x where x: "(x, False) \<in> set (events td (drop i (block_insts f b)))" "o_kind x = MACH_VREG" "o_reg x = v"
    using reads_first_event by blast
  from x(1) obtain j where j: "i \<le> j" "j < length (block_insts f b)" "(x, False) \<in> set (each_register td (block_insts f b ! j))"
    by (rule events_at)
  with access_covered [OF ok b j(2,3)] x(2,3) show ?thesis
    by (intro that [of "reads_at f b j"]) (auto simp: event_covered_def reads_at_def)
next
  case False
  then have "live_out td f b v" using assms(4) by (simp add: live_at_def)
  with live_out_covered [OF ok b this assms(5)] assms(3,6) show ?thesis
    by (intro that [of "block_stop f b"]) (auto simp: block_stop_def reads_at_def)
qed

lemma live_before_covered:
  assumes ok: "mach_ok td f" and b: "b < length (mf_blocks f)" and r: "i < length (block_insts f b)" "live_at td f b i v" "v < vreg_count f"
  shows "covers (intervals td f ! v) (reads_at f b i)"
proof -
  obtain p where "covers (intervals td f ! v) p" "p \<le> reads_at f b i"
    using live_before_start [OF ok b less_imp_le [OF assms(3)] assms(4,5)] .
  moreover obtain q where "covers (intervals td f ! v) q" "reads_at f b i \<le> q"
    using live_after_end [OF ok b less_imp_le [OF assms(3)] assms(4,5)] assms(3)
    by (metis length_0_conv not_less_zero)
  ultimately show ?thesis by (meson covers_between)
qed

lemma live_after_covered:
  assumes ok: "mach_ok td f" and b: "b < length (mf_blocks f)" and r: "i < length (block_insts f b)" "live_at td f b (Suc i) v" "v < vreg_count f"
  shows "covers (intervals td f ! v) (reads_at f b i + 1)"
proof -
  have next_at: "reads_at f b (Suc i) - 1 = reads_at f b i + 1" by (simp add: reads_at_def)
  obtain p where "covers (intervals td f ! v) p" "p \<le> reads_at f b i + 1"
    using live_before_start [OF ok b _ assms(4,5)] assms(3) next_at by (metis Suc_leI zero_less_Suc)
  moreover obtain q where "covers (intervals td f ! v) q" "reads_at f b i + 1 \<le> q"
    using live_after_end [OF ok b _ assms(4,5)] assms(3) next_at by (metis Suc_leI length_0_conv not_less_zero)
  ultimately show ?thesis by (meson covers_between)
qed

end

end
