(* ===== verification/FixedRanges.thy ===== *)
theory FixedRanges
  imports Points
begin

text \<open>
  The fixed ranges: a physical register is taken from each write to the last read of what it wrote,
  and from the start of the block to a read that no write comes before.
\<close>

definition names_preg :: "mach_operand \<times> bool \<Rightarrow> nat \<Rightarrow> bool" where
  "names_preg ev r \<longleftrightarrow> o_kind (fst ev) \<noteq> MACH_VREG \<and> o_reg (fst ev) = r"

definition preg_writes :: "'op target_desc \<Rightarrow> 'op mach_inst \<Rightarrow> nat \<Rightarrow> bool" where
  "preg_writes td inst r \<longleftrightarrow> (\<exists>ev \<in> set (each_register td inst). names_preg ev r \<and> snd ev)"

definition preg_reads :: "'op target_desc \<Rightarrow> 'op mach_inst \<Rightarrow> nat \<Rightarrow> bool" where
  "preg_reads td inst r \<longleftrightarrow> (\<exists>ev \<in> set (each_register td inst). names_preg ev r \<and> \<not> snd ev)"

text \<open>The position since which \<open>r\<close> holds what it holds before instruction \<open>i\<close>.\<close>

primrec since :: "'op target_desc \<Rightarrow> 'op mach_function \<Rightarrow> nat \<Rightarrow> nat \<Rightarrow> nat \<Rightarrow> int" where
  "since td f b r 0 = reads_at f b 0"
| "since td f b r (Suc i) =
     (if preg_writes td (block_insts f b ! i) r then reads_at f b i + 1 else since td f b r i)"

definition has_range :: "range list list \<Rightarrow> nat \<Rightarrow> int \<Rightarrow> int \<Rightarrow> bool" where
  "has_range fixed r lo hi \<longleftrightarrow> (\<exists>(p, q) \<in> set (fixed ! r). p \<le> lo \<and> hi \<le> q)"

section \<open>One event\<close>

type_synonym ranges = "range list list \<times> nat option list"

definition range_step :: "scan_ctx \<Rightarrow> ranges \<Rightarrow> mach_operand \<times> bool \<Rightarrow> ranges" where
  "range_step c st ev =
     (case (st, ev) of ((fixed, current), x, write) \<Rightarrow>
        let r = o_reg x
        in if o_kind x = MACH_VREG \<or> r \<ge> PREG_LIMIT then st
           else if write
           then (update r (add_range (sc_position c + 1) (sc_position c + 1)) fixed,
                 current[r := Some (length (fixed ! r))])
           else
             (case current ! r of
                None \<Rightarrow>
                  (update r (add_range (sc_block_start c) (sc_position c)) fixed,
                   current[r := Some (length (fixed ! r))])
              | Some k \<Rightarrow> (update r (update k (\<lambda>p. (fst p, sc_position c))) fixed, current)))"

lemma fixed_of_scan_register: "fixed_of (scan_register c st ev) = range_step c (fixed_of st) ev"
  by (auto simp: scan_register_def range_step_def fixed_of_def Let_def split: prod.split option.split)

lemma fixed_of_scan_inst:
  "fixed_of (scan_inst td c st inst) = foldl (range_step c) (fixed_of st) (each_register td inst)"
proof -
  have "fixed_of (foldl (scan_register c) st es) = foldl (range_step c) (fixed_of st) es" for es
    by (induction es arbitrary: st) (simp_all add: fixed_of_scan_register)
  from this [of "each_register td inst"] show ?thesis
    by (cases "foldl (scan_register c) st (each_register td inst)") (simp add: scan_inst_def fixed_of_def)
qed

text \<open>The open range of a register starts no later than \<open>lo\<close> says and ends no later than \<open>hi\<close>.\<close>

definition open_ok :: "(nat \<Rightarrow> int) \<Rightarrow> int \<Rightarrow> ranges \<Rightarrow> bool" where
  "open_ok lo hi st \<longleftrightarrow>
     length (fst st) = PREG_LIMIT \<and> length (snd st) = PREG_LIMIT \<and>
     (\<forall>r < PREG_LIMIT. \<forall>k. snd st ! r = Some k \<longrightarrow>
        k < length (fst st ! r) \<and> fst (fst st ! r ! k) \<le> lo r \<and> snd (fst st ! r ! k) \<le> hi)"

lemma has_range_update:
  assumes "has_range fixed r lo hi" "k < length (fixed ! s)" "snd (fixed ! s ! k) \<le> p" "s < length fixed"
  shows "has_range (update s (update k (\<lambda>q. (fst q, p))) fixed) r lo hi"
proof -
  obtain i where i: "i < length (fixed ! r)" "fst (fixed ! r ! i) \<le> lo" "hi \<le> snd (fixed ! r ! i)"
    using assms(1) by (auto simp: has_range_def in_set_conv_nth split: prod.splits)
  let ?fx = "update s (update k (\<lambda>q. (fst q, p))) fixed"
  have "i < length (?fx ! r)" "fst (?fx ! r ! i) \<le> lo" "hi \<le> snd (?fx ! r ! i)"
    using i assms by (auto simp: update_def nth_list_update)
  then show ?thesis unfolding has_range_def by (metis (mono_tags, lifting) case_prod_beta nth_mem)
qed

lemma has_range_add:
  assumes "s < length fixed"
  shows "has_range fixed r lo hi \<Longrightarrow> has_range (update s (add_range p q) fixed) r lo hi"
    "p \<le> lo \<Longrightarrow> hi \<le> q \<Longrightarrow> has_range (update s (add_range p q) fixed) s lo hi"
  using assms by (auto simp: has_range_def update_def add_range_def nth_list_update)

lemma range_step_keeps:
  assumes "open_ok lo hi st" "hi \<le> sc_position c" "has_range (fst st) r p q"
  shows "has_range (fst (range_step c st ev)) r p q"
proof -
  obtain fixed current where st: "st = (fixed, current)" by (cases st)
  obtain x w where ev: "ev = (x, w)" by (cases ev)
  show ?thesis
  proof (cases "o_kind x = MACH_VREG \<or> o_reg x \<ge> PREG_LIMIT")
    case True
    then show ?thesis using assms(3) by (auto simp: range_step_def st ev Let_def)
  next
    case False
    then have r: "o_reg x < length fixed" using assms(1) by (simp add: open_ok_def st)
    have up: "has_range (update (o_reg x) (update k (\<lambda>p. (fst p, sc_position c))) fixed) r p q"
      if "current ! o_reg x = Some k" for k
      by (rule has_range_update) (use assms False r that in \<open>auto simp: open_ok_def st\<close>)
    show ?thesis using False has_range_add(1) [OF r] assms(3) up
      by (auto simp: range_step_def st ev Let_def split: option.split)
  qed
qed

lemma range_step_read:
  assumes "open_ok lo hi st" "hi \<le> sc_position c" "\<And>r. sc_block_start c \<le> lo r" "\<not> snd ev"
  shows "open_ok lo (sc_position c) (range_step c st ev)"
    "names_preg ev r \<Longrightarrow> r < PREG_LIMIT \<Longrightarrow> has_range (fst (range_step c st ev)) r (lo r) (sc_position c)"
proof -
  obtain fixed current where st: "st = (fixed, current)" by (cases st)
  obtain x where ev: "ev = (x, False)" using assms(4) by (cases ev) auto
  have len: "length fixed = PREG_LIMIT" "length current = PREG_LIMIT" using assms(1) by (auto simp: open_ok_def st)
  have old: "k < length (fixed ! r) \<and> fst (fixed ! r ! k) \<le> lo r \<and> snd (fixed ! r ! k) \<le> hi"
    if "r < PREG_LIMIT" "current ! r = Some k" for r k
    using assms(1) that by (auto simp: open_ok_def st)
  have "k < length (fst (range_step c st ev) ! r) \<and> fst (fst (range_step c st ev) ! r ! k) \<le> lo r \<and>
      snd (fst (range_step c st ev) ! r ! k) \<le> sc_position c \<and>
      (names_preg ev r \<longrightarrow> snd (fst (range_step c st ev) ! r ! k) = sc_position c)"
    if r: "r < PREG_LIMIT" and k: "snd (range_step c st ev) ! r = Some k" for r k
  proof (cases "o_kind x \<noteq> MACH_VREG \<and> o_reg x = r")
    case True
    show ?thesis
    proof (cases "current ! r")
      case None
      then show ?thesis using True r k len assms(3) [of r]
        by (auto simp: range_step_def st ev Let_def update_def add_range_def nth_append)
    next
      case (Some j)
      then show ?thesis using True r k len old [OF r Some]
        by (auto simp: range_step_def st ev Let_def update_def)
    qed
  next
    case False
    then have "fst (range_step c st ev) ! r = fixed ! r" "snd (range_step c st ev) ! r = current ! r"
      by (auto simp: range_step_def st ev Let_def update_def split: option.split)
    with old [OF r, of k] k assms(2) False show ?thesis by (auto simp: names_preg_def ev)
  qed
  note K = this
  have len': "length (fst (range_step c st ev)) = PREG_LIMIT" "length (snd (range_step c st ev)) = PREG_LIMIT"
    using len by (auto simp: range_step_def st ev Let_def update_def split: option.split)
  show "open_ok lo (sc_position c) (range_step c st ev)" using K len' by (auto simp: open_ok_def)
  assume r: "names_preg ev r" "r < PREG_LIMIT"
  then have "snd (range_step c st ev) ! r \<noteq> None"
    using len by (auto simp: range_step_def st ev Let_def names_preg_def split: option.split)
  then obtain k where k: "snd (range_step c st ev) ! r = Some k" by blast
  show "has_range (fst (range_step c st ev)) r (lo r) (sc_position c)"
    unfolding has_range_def using K [OF r(2) k] r(1) nth_mem [of k "fst (range_step c st ev) ! r"]
    by (intro bexI [of _ "fst (range_step c st ev) ! r ! k"]) (auto split: prod.split)
qed

lemma range_step_write:
  assumes "open_ok lo hi st" "hi \<le> sc_position c + 1" "snd ev"
    "\<And>r. names_preg ev r \<Longrightarrow> sc_position c + 1 \<le> lo r"
  shows "open_ok lo (sc_position c + 1) (range_step c st ev)"
    "names_preg ev r \<Longrightarrow> r < PREG_LIMIT \<Longrightarrow>
       has_range (fst (range_step c st ev)) r (sc_position c + 1) (sc_position c + 1)"
    "has_range (fst st) r p q \<Longrightarrow> has_range (fst (range_step c st ev)) r p q"
proof -
  obtain fixed current where st: "st = (fixed, current)" by (cases st)
  obtain x where ev: "ev = (x, True)" using assms(3) by (cases ev) auto
  have len: "length fixed = PREG_LIMIT" "length current = PREG_LIMIT" using assms(1) by (auto simp: open_ok_def st)
  have named: "range_step c st ev = (update r (add_range (sc_position c + 1) (sc_position c + 1)) fixed,
      current[r := Some (length (fixed ! r))])" if "names_preg ev r" "r < PREG_LIMIT" for r
    using that by (auto simp: range_step_def st ev Let_def names_preg_def)
  have other: "fst (range_step c st ev) ! r = fixed ! r \<and> snd (range_step c st ev) ! r = current ! r"
    if "\<not> names_preg ev r" for r
    using that by (auto simp: range_step_def st ev Let_def names_preg_def update_def)
  have "k < length (fst (range_step c st ev) ! r) \<and> fst (fst (range_step c st ev) ! r ! k) \<le> lo r \<and>
      snd (fst (range_step c st ev) ! r ! k) \<le> sc_position c + 1"
    if r: "r < PREG_LIMIT" and k: "snd (range_step c st ev) ! r = Some k" for r k
  proof (cases "names_preg ev r")
    case True
    then show ?thesis using named [OF True r] k len r assms(4) [OF True]
      by (auto simp: update_def add_range_def nth_append)
  next
    case False
    have "k < length (fixed ! r) \<and> fst (fixed ! r ! k) \<le> lo r \<and> snd (fixed ! r ! k) \<le> hi"
      using other [OF False] k assms(1) r by (simp add: open_ok_def st)
    then show ?thesis using other [OF False] assms(2) by auto
  qed
  moreover have "length (fst (range_step c st ev)) = PREG_LIMIT" "length (snd (range_step c st ev)) = PREG_LIMIT"
    using len by (auto simp: range_step_def st ev Let_def update_def)
  ultimately show "open_ok lo (sc_position c + 1) (range_step c st ev)" by (auto simp: open_ok_def)
  show "names_preg ev r \<Longrightarrow> r < PREG_LIMIT \<Longrightarrow>
       has_range (fst (range_step c st ev)) r (sc_position c + 1) (sc_position c + 1)"
    using named len by (simp add: has_range_add(2))
  show "has_range (fst (range_step c st ev)) r p q" if "has_range (fst st) r p q"
    using that len has_range_add(1) [of "o_reg x" fixed r p q]
    by (auto simp: range_step_def st ev Let_def)
qed

section \<open>One instruction\<close>

lemma each_register_split:
  obtains rs ws where "each_register td inst = map (\<lambda>x. (x, False)) rs @ map (\<lambda>x. (x, True)) ws"
  by (rule that) (simp only: each_register_def Let_def)

lemma open_ok_mono:
  "open_ok lo hi st \<Longrightarrow> (\<And>r. lo r \<le> lo' r) \<Longrightarrow> hi \<le> hi' \<Longrightarrow> open_ok lo' hi' st"
  unfolding open_ok_def by (meson order_trans)

definition inst_ranges :: "'op target_desc \<Rightarrow> 'op mach_function \<Rightarrow> nat \<Rightarrow> nat \<Rightarrow> range list list \<Rightarrow> bool" where
  "inst_ranges td f b i fixed \<longleftrightarrow>
     (\<forall>r < PREG_LIMIT.
        (preg_reads td (block_insts f b ! i) r \<longrightarrow> has_range fixed r (since td f b r i) (reads_at f b i)) \<and>
        (preg_writes td (block_insts f b ! i) r \<longrightarrow> has_range fixed r (reads_at f b i + 1) (reads_at f b i + 1)))"

lemma since_ge: "reads_at f b 0 \<le> since td f b r i"
  by (induction i) (auto simp: reads_at_def)

lemma since_le: "since td f b r i \<le> reads_at f b i" "since td f b r i \<le> since td f b r (Suc i)"
proof -
  show "since td f b r i \<le> reads_at f b i" by (induction i) (auto simp: reads_at_def)
  then show "since td f b r i \<le> since td f b r (Suc i)" by simp
qed

lemma range_reads:
  assumes "open_ok lo hi st" "hi \<le> sc_position c" "\<And>r. sc_block_start c \<le> lo r" "\<forall>ev \<in> set es. \<not> snd ev"
  shows "open_ok lo (sc_position c) (foldl (range_step c) st es) \<and>
     (\<forall>ev \<in> set es. \<forall>r < PREG_LIMIT. names_preg ev r \<longrightarrow>
        has_range (fst (foldl (range_step c) st es)) r (lo r) (sc_position c)) \<and>
     (\<forall>r p q. has_range (fst st) r p q \<longrightarrow> has_range (fst (foldl (range_step c) st es)) r p q)"
  using open_ok_mono [OF assms(1) order_refl assms(2)] assms(4)
proof (induction es arbitrary: st)
  case (Cons ev es)
  note one = range_step_read [OF Cons.prems(1) order_refl assms(3), of ev]
    and keep = range_step_keeps [OF Cons.prems(1) order_refl]
  have "\<not> snd ev" using Cons.prems(2) by simp
  with Cons.IH [of "range_step c st ev"] one keep Cons.prems(2) show ?case by auto
qed simp

lemma range_writes:
  assumes "open_ok lo (sc_position c + 1) st" "\<forall>ev \<in> set es. snd ev"
    "\<forall>ev \<in> set es. \<forall>r. names_preg ev r \<longrightarrow> sc_position c + 1 \<le> lo r"
  shows "open_ok lo (sc_position c + 1) (foldl (range_step c) st es) \<and>
     (\<forall>ev \<in> set es. \<forall>r < PREG_LIMIT. names_preg ev r \<longrightarrow>
        has_range (fst (foldl (range_step c) st es)) r (sc_position c + 1) (sc_position c + 1)) \<and>
     (\<forall>r p q. has_range (fst st) r p q \<longrightarrow> has_range (fst (foldl (range_step c) st es)) r p q)"
  using assms
proof (induction es arbitrary: st)
  case (Cons ev es)
  have "snd ev" "\<And>r. names_preg ev r \<Longrightarrow> sc_position c + 1 \<le> lo r" using Cons.prems(2,3) by simp_all
  note one = range_step_write [OF Cons.prems(1) order_refl this]
  from Cons.IH [OF one(1)] one Cons.prems(2,3) show ?case by auto
qed simp

lemma inst_step:
  assumes op: "open_ok (\<lambda>r. since td f b r i) (reads_at f b i) st"
  defines "st' \<equiv> foldl (range_step (block_ctx f b i)) st (each_register td (block_insts f b ! i))"
  shows "open_ok (\<lambda>r. since td f b r (Suc i)) (reads_at f b (Suc i)) st'"
    and "inst_ranges td f b i (fst st')"
    and "has_range (fst st) r p q \<Longrightarrow> has_range (fst st') r p q"
proof -
  let ?c = "block_ctx f b i" and ?inst = "block_insts f b ! i"
  let ?lo = "\<lambda>r. since td f b r i" and ?lo' = "\<lambda>r. since td f b r (Suc i)" and ?p = "reads_at f b i"
  have c: "sc_position ?c = ?p" "\<And>r. sc_block_start ?c \<le> ?lo r" by (simp_all add: block_ctx_def since_ge)
  obtain rs ws where es: "each_register td ?inst = map (\<lambda>x. (x, False)) rs @ map (\<lambda>x. (x, True)) ws"
    by (rule each_register_split)
  define s1 where "s1 = foldl (range_step ?c) st (map (\<lambda>x. (x, False)) rs)"
  have st': "st' = foldl (range_step ?c) s1 (map (\<lambda>x. (x, True)) ws)" by (simp add: st'_def es s1_def)
  note R = range_reads [OF op, of ?c "map (\<lambda>x. (x, False)) rs", folded s1_def, unfolded c(1)]
  have R: "open_ok ?lo ?p s1" "names_preg (x, False) r \<Longrightarrow> x \<in> set rs \<Longrightarrow> r < PREG_LIMIT \<Longrightarrow> has_range (fst s1) r (?lo r) ?p"
    "has_range (fst st) r p q \<Longrightarrow> has_range (fst s1) r p q" for x r p q
    using R c(2) by simp_all
  have lo': "?lo r \<le> ?lo' r" for r
    using since_le [of td f b r i] by simp
  have "open_ok ?lo' (sc_position ?c + 1) s1" by (rule open_ok_mono [OF R(1) lo']) (simp add: c)
  note W = range_writes [OF this, where es = "map (\<lambda>x. (x, True)) ws", folded st', unfolded c(1)]
  have w: "preg_writes td ?inst r" if "x \<in> set ws" "names_preg (x, True) r" for x r
    using that by (force simp: preg_writes_def es)
  have W: "open_ok ?lo' (?p + 1) st'"
    "names_preg (x, True) r \<Longrightarrow> x \<in> set ws \<Longrightarrow> r < PREG_LIMIT \<Longrightarrow> has_range (fst st') r (?p + 1) (?p + 1)"
    "has_range (fst s1) r p q \<Longrightarrow> has_range (fst st') r p q" for x r p q
    using W w by simp_all
  show "open_ok ?lo' (reads_at f b (Suc i)) st'"
    by (rule open_ok_mono [OF W(1)]) (simp_all add: reads_at_def)
  show "inst_ranges td f b i (fst st')"
    unfolding inst_ranges_def
  proof (intro allI impI conjI)
    fix r assume r: "r < PREG_LIMIT"
    show "has_range (fst st') r (?lo r) ?p" if "preg_reads td ?inst r"
      using that R(2) [of _ r] W(3) r by (auto simp: preg_reads_def es)
    show "has_range (fst st') r (?p + 1) (?p + 1)" if "preg_writes td ?inst r"
      using that W(2) [of _ r] r by (auto simp: preg_writes_def es)
  qed
  show "has_range (fst st') r p q" if "has_range (fst st) r p q" using that R(3) W(3) by blast
qed

section \<open>All blocks\<close>

lemma fixed_of_block_scan:
  "fixed_of (block_scan td f b st) =
     foldl (\<lambda>s i. foldl (range_step (block_ctx f b i)) s (each_register td (block_insts f b ! i))) (fixed_of st)
       [0..<length (block_insts f b)]"
proof -
  let ?xs = "block_insts f b"
  let ?h = "\<lambda>s i. foldl (range_step (block_ctx f b i)) s (each_register td (?xs ! i))"
  have "fixed_of (foldl (\<lambda>st (i, inst). scan_inst td (block_ctx f b i) st inst) st (indexed (take n ?xs))) =
      foldl ?h (fixed_of st) [0..<n]" if "n \<le> length ?xs" for n
    using that
  proof (induction n)
    case 0
    then show ?case by (simp add: indexed_def)
  next
    case (Suc n)
    have "indexed (take (Suc n) ?xs) = indexed (take n ?xs) @ [(n, ?xs ! n)]"
      using Suc.prems by (simp add: indexed_def take_Suc_conv_app_nth)
    with Suc show ?case by (simp add: fixed_of_scan_inst)
  qed
  from this [of "length ?xs"] show ?thesis by (simp add: block_scan_def)
qed

lemma block_ranges:
  fixes ivs :: "interval list" and b :: nat and f :: "'op mach_function" and td :: "'op target_desc"
  assumes "length fixed = PREG_LIMIT"
  defines "st' \<equiv> fixed_of (block_scan td f b (ivs, fixed, replicate PREG_LIMIT None))"
  shows "length (fst st') = PREG_LIMIT" "i < length (block_insts f b) \<Longrightarrow> inst_ranges td f b i (fst st')"
    "has_range fixed r p q \<Longrightarrow> has_range (fst st') r p q"
proof -
  let ?xs = "block_insts f b"
  let ?h = "\<lambda>s i. foldl (range_step (block_ctx f b i)) s (each_register td (?xs ! i))"
  let ?st = "(fixed, replicate PREG_LIMIT None)"
  have "open_ok (\<lambda>r. since td f b r n) (reads_at f b n) (foldl ?h ?st [0..<n]) \<and>
      (\<forall>i < n. inst_ranges td f b i (fst (foldl ?h ?st [0..<n]))) \<and>
      (\<forall>r p q. has_range fixed r p q \<longrightarrow> has_range (fst (foldl ?h ?st [0..<n])) r p q)" for n
  proof (induction n)
    case 0
    then show ?case using assms(1) by (simp add: open_ok_def)
  next
    case (Suc n)
    note step = inst_step [OF Suc.IH [THEN conjunct1]]
    have "inst_ranges td f b i (fst (foldl ?h ?st [0..<Suc n]))" if "i < Suc n" for i
      using step(2,3) Suc.IH that by (cases "i = n") (auto simp: inst_ranges_def)
    with step Suc.IH show ?case by simp
  qed
  from this [of "length ?xs"] show "length (fst st') = PREG_LIMIT"
    "i < length (block_insts f b) \<Longrightarrow> inst_ranges td f b i (fst st')"
    "has_range fixed r p q \<Longrightarrow> has_range (fst st') r p q"
    by (simp_all add: st'_def fixed_of_block_scan open_ok_def) (simp_all add: fixed_of_def)
qed

lemma built_ranges:
  assumes "b < length (mf_blocks (al_f a))" "i < length (block_insts (al_f a) b)"
  shows "inst_ranges td (al_f a) b i (snd (built td a))"
proof -
  let ?n = "length (mf_blocks (al_f a))"
  define Q where "Q b s \<longleftrightarrow> (\<forall>i < length (block_insts (al_f a) b). inst_ranges td (al_f a) b i (snd s))"
    for b and s :: "interval list \<times> range list list"
  let ?st = "(start_intervals (al_f a), replicate PREG_LIMIT []) :: interval list \<times> range list list"
  have "(\<lambda>s. length (snd s) = PREG_LIMIT) (foldl (build_at td a) ?st [0..<?n]) \<and>
     (\<forall>b \<in> set [0..<?n]. Q b (foldl (build_at td a) ?st [0..<?n])) \<and>
     (\<forall>b. Q b ?st \<longrightarrow> Q b (foldl (build_at td a) ?st [0..<?n]))"
  proof (rule foldl_established)
    fix s :: "interval list \<times> range list list" and c
    assume I: "length (snd s) = PREG_LIMIT"
    note r = block_ranges [OF I, where td = td and f = "al_f a" and b = c and ivs = "block_live a c (fst s)"]
    show "length (snd (build_at td a s c)) = PREG_LIMIT" "Q c (build_at td a s c)"
      using r by (simp_all add: build_at_def Let_def Q_def)
    fix d assume "Q d s"
    then show "Q d (build_at td a s c)"
      using r(3) by (auto simp: build_at_def Let_def Q_def inst_ranges_def)
  qed simp
  then have "Q b (built td a)" using assms(1) by (simp add: built_def)
  with assms(2) show ?thesis by (simp add: Q_def)
qed

end
