(* ===== verification/LinearScan.thy ===== *)
theory LinearScan
  imports Intervals "HOL-Library.Multiset"
begin

text \<open>
  The scan keeps its invariant: two registers that share a physical register have intervals apart,
  and a physical register is one of the class that no fixed range takes from the interval. Each
  register that is live has a register or a slot of its own.
\<close>

section \<open>The active list\<close>

lemma swap_remove_split:
  assumes "j < length xs"
  shows "swap_remove j xs = take j xs @ (if Suc j = length xs then [] else last xs # butlast (drop (Suc j) xs))"
proof (cases "Suc j = length xs")
  case True
  then show ?thesis by (simp add: swap_remove_def butlast_list_update) (simp add: butlast_conv_take flip: True)
next
  case False
  then have ne: "drop (Suc j) xs \<noteq> []" using assms by auto
  have "xs[j := last xs] = take j xs @ last xs # drop (Suc j) xs" using assms by (simp add: upd_conv_take_nth_drop)
  then show ?thesis using False ne by (simp add: swap_remove_def butlast_append)
qed

lemma swap_remove_set:
  assumes "j < length xs" "distinct xs"
  shows "distinct (swap_remove j xs)" "take j (swap_remove j xs) = take j xs"
    "set (drop j (swap_remove j xs)) = set (drop (Suc j) xs)" "set (swap_remove j xs) = set xs - {xs ! j}"
    "length (swap_remove j xs) < length xs"
proof -
  let ?d = "drop (Suc j) xs"
  have xs: "xs = take j xs @ xs ! j # ?d" using assms(1) by (simp add: id_take_nth_drop [symmetric])
  have tail: "last xs # butlast ?d = last ?d # butlast ?d" "set (last ?d # butlast ?d) = set ?d" "distinct (last ?d # butlast ?d)"
    if "?d \<noteq> []"
  proof -
    have l: "butlast ?d @ [last ?d] = ?d" using that by (rule append_butlast_last_id)
    show "last xs # butlast ?d = last ?d # butlast ?d" using that by (subst xs) (simp del: drop_eq_Nil)
    show "set (last ?d # butlast ?d) = set ?d" by (subst (3) l [symmetric]) auto
    have "distinct (butlast ?d @ [last ?d])" using assms(2) l by simp
    then show "distinct (last ?d # butlast ?d)" by auto
  qed
  have s: "swap_remove j xs = take j xs @ (if ?d = [] then [] else last ?d # butlast ?d)"
    using swap_remove_split [OF assms(1)] tail(1) assms(1) by auto
  have d: "distinct (take j xs @ xs ! j # ?d)" using assms(2) xs by simp
  show "distinct (swap_remove j xs)" using d tail(2,3) by (auto simp: s)
  show "take j (swap_remove j xs) = take j xs" using assms(1) by (simp add: s)
  show "set (drop j (swap_remove j xs)) = set ?d" using assms(1) tail(2) by (simp add: s)
  show "set (swap_remove j xs) = set xs - {xs ! j}" using d tail(2) arg_cong [OF xs, of set] by (auto simp: s)
  show "length (swap_remove j xs) < length xs" using assms(1) by (auto simp: swap_remove_def)
qed

lemma expire_set:
  assumes "distinct active"
  shows "distinct (expire ivs start j active) \<and>
     set (expire ivs start j active) =
       set (take j active) \<union> {v \<in> set (drop j active). start \<le> iv_end (ivs ! v)}"
  using assms
proof (induction ivs start j active rule: expire.induct)
  case (1 ivs start j active)
  show ?case
  proof (cases "j < length active")
    case False
    then show ?thesis using 1 by (simp add: expire.simps [of ivs start j active])
  next
    case True
    note d = take_drop_nth [OF True]
    show ?thesis
    proof (cases "iv_end (ivs ! (active ! j)) < start")
      case gone: True
      have e: "expire ivs start j active = expire ivs start j (swap_remove j active)"
        using True gone by (subst expire.simps) simp
      show ?thesis
        unfolding e using 1(1) [OF True gone swap_remove_set(1) [OF True 1(3)]] swap_remove_set [OF True 1(3)] gone
        by (auto simp: d)
    next
      case stays: False
      have e: "expire ivs start j active = expire ivs start (j + 1) active"
        using True stays by (subst expire.simps) simp
      show ?thesis
        unfolding e using 1(2) [OF True stays 1(3)] stays by (auto simp: d take_Suc_conv_app_nth [OF True])
    qed
  qed
qed

lemma expire_start:
  assumes "distinct active"
  shows "distinct (expire ivs start 0 active)"
    "set (expire ivs start 0 active) = {v \<in> set active. start \<le> iv_end (ivs ! v)}"
  using expire_set [OF assms, of ivs start 0] by simp_all

lemma remove_active_set:
  assumes "distinct active" "v \<in> set active"
  shows "distinct (remove_active v active)" "set (remove_active v active) = set active - {v}"
proof -
  let ?j = "length (takeWhile (\<lambda>x. x \<noteq> v) active)"
  have "takeWhile (\<lambda>x. x \<noteq> v) active \<noteq> active"
    using assms(2) by (simp add: takeWhile_eq_all_conv)
  then have "?j \<noteq> length active"
    using takeWhile_eq_take [of "\<lambda>x. x \<noteq> v" active] by force
  then have "?j < length active"
    using length_takeWhile_le [of "\<lambda>x. x \<noteq> v" active] by linarith
  with nth_length_takeWhile [OF this] have j: "?j < length active" "active ! ?j = v" by simp_all
  show "distinct (remove_active v active)" "set (remove_active v active) = set active - {v}"
    using swap_remove_set [OF j(1) assms(1)] j by (simp_all add: remove_active_def)
qed

section \<open>The order\<close>

lemma insert_by_set: "mset (insert_by cmp x ys) = add_mset x (mset ys)"
  by (induction ys) auto

lemma qsort_mset: "mset (qsort cmp xs) = mset xs"
  unfolding qsort_def by (induction xs) (simp_all add: insert_by_set)

lemma by_start_le:
  "by_start x y \<le> 0 \<Longrightarrow> iv_start x \<le> iv_start y" "\<not> by_start x y \<le> 0 \<Longrightarrow> iv_start y \<le> iv_start x"
  by (auto simp: by_start_def split: if_splits)

lemma insert_by_sorted:
  "sorted (map iv_start ys) \<Longrightarrow> sorted (map iv_start (insert_by by_start x ys))"
proof (induction ys)
  case (Cons y ys)
  have s: "set (insert_by by_start x ys) = insert x (set ys)"
    using arg_cong [OF insert_by_set [of by_start x ys], of set_mset] by simp
  show ?case
  proof (cases "by_start x y \<le> 0")
    case True
    then show ?thesis using Cons.prems by_start_le(1) [OF True] by auto
  next
    case False
    then show ?thesis using Cons by_start_le(2) [OF False] by (auto simp: s)
  qed
qed simp

lemma qsort_sorted: "sorted (map iv_start (qsort by_start ivs))"
  unfolding qsort_def by (induction ivs) (simp_all add: insert_by_sorted)

text \<open>The registers of the intervals that are not empty, by their starts.\<close>

definition numbered :: "interval list \<Rightarrow> bool" where
  "numbered ivs \<longleftrightarrow> (\<forall>v < length ivs. iv_vreg (ivs ! v) = v)"

lemma scan_order_facts:
  assumes "numbered ivs"
  shows "set (scan_order ivs) = {v. v < length ivs \<and> iv_end (ivs ! v) \<noteq> - 1}"
    "distinct (scan_order ivs)" "sorted (map (\<lambda>v. iv_start (ivs ! v)) (scan_order ivs))"
proof -
  let ?xs = "filter (\<lambda>iv. iv_end iv \<noteq> - 1) ivs"
  have v: "iv_vreg iv < length ivs \<and> ivs ! iv_vreg iv = iv" if "iv \<in> set ivs" for iv
    using that assms by (auto simp: numbered_def in_set_conv_nth)
  have m: "mset (scan_order ivs) = mset (map iv_vreg ?xs)"
    by (simp only: scan_order_def mset_map qsort_mset)
  show "set (scan_order ivs) = {v. v < length ivs \<and> iv_end (ivs ! v) \<noteq> - 1}"
  proof -
    have "set (scan_order ivs) = iv_vreg ` {iv \<in> set ivs. iv_end iv \<noteq> - 1}"
      using mset_eq_setD [OF m] by simp
    also have "\<dots> = {v. v < length ivs \<and> iv_end (ivs ! v) \<noteq> - 1}"
    proof (intro equalityI subsetI)
      fix u assume "u \<in> iv_vreg ` {iv \<in> set ivs. iv_end iv \<noteq> - 1}"
      then show "u \<in> {v. v < length ivs \<and> iv_end (ivs ! v) \<noteq> - 1}" using v by auto
    next
      fix u assume u: "u \<in> {v. v < length ivs \<and> iv_end (ivs ! v) \<noteq> - 1}"
      then have "u = iv_vreg (ivs ! u)" "ivs ! u \<in> set ivs" using assms by (simp_all add: numbered_def)
      with u show "u \<in> iv_vreg ` {iv \<in> set ivs. iv_end iv \<noteq> - 1}" by blast
    qed
    finally show ?thesis .
  qed
  have "map iv_vreg ivs = [0..<length ivs]"
    using assms by (intro nth_equalityI) (simp_all add: numbered_def)
  then have "distinct (map iv_vreg ?xs)" by (metis distinct_map_filter distinct_upt)
  then show "distinct (scan_order ivs)" using m mset_eq_imp_distinct_iff by blast
  have "set (qsort by_start ?xs) \<subseteq> set ivs" using mset_eq_setD [OF qsort_mset [of by_start ?xs]] by auto
  then have "map (\<lambda>v. iv_start (ivs ! v)) (scan_order ivs) = map iv_start (qsort by_start ?xs)"
    using v by (auto simp: scan_order_def)
  then show "sorted (map (\<lambda>v. iv_start (ivs ! v)) (scan_order ivs))" by (simp add: qsort_sorted)
qed

section \<open>The invariant\<close>

definition apart :: "interval \<Rightarrow> interval \<Rightarrow> bool" where
  "apart x y \<longleftrightarrow> iv_end x < iv_start y \<or> iv_end y < iv_start x"

definition same_range :: "interval \<Rightarrow> interval \<Rightarrow> bool" where
  "same_range x y \<longleftrightarrow> iv_vreg x = iv_vreg y \<and> iv_start x = iv_start y \<and> iv_end x = iv_end y \<and> iv_fp x = iv_fp y"

text \<open>The physical registers that \<open>v\<close> may take, and what holds of the places chosen so far.\<close>

definition may_take :: "abi \<Rightarrow> 'op alloc \<Rightarrow> interval \<Rightarrow> nat \<Rightarrow> bool" where
  "may_take abi a iv r \<longleftrightarrow> r \<in> set (class_registers abi iv) \<and> \<not> overlaps_fixed a r iv"

definition places_ok :: "abi \<Rightarrow> 'op alloc \<Rightarrow> nat set \<Rightarrow> bool" where
  "places_ok abi a seen \<longleftrightarrow>
     (\<forall>v < length (al_intervals a). v \<notin> seen \<longrightarrow> iv_preg (al_intervals a ! v) = None \<and> iv_slot (al_intervals a ! v) = None) \<and>
     (\<forall>v \<in> seen. (iv_preg (al_intervals a ! v) = None) \<noteq> (iv_slot (al_intervals a ! v) = None)) \<and>
     (\<forall>v \<in> seen. \<forall>r. iv_preg (al_intervals a ! v) = Some r \<longrightarrow> may_take abi a (al_intervals a ! v) r) \<and>
     (\<forall>u \<in> seen. \<forall>v \<in> seen. \<forall>r. u \<noteq> v \<and> iv_preg (al_intervals a ! u) = Some r \<and> iv_preg (al_intervals a ! v) = Some r \<longrightarrow>
        apart (al_intervals a ! u) (al_intervals a ! v))"

text \<open>The active registers are those that may still meet one that comes later.\<close>

definition active_ok :: "interval list \<Rightarrow> nat set \<Rightarrow> nat set \<Rightarrow> nat list \<Rightarrow> bool" where
  "active_ok ivs seen rest active \<longleftrightarrow>
     distinct active \<and> set active \<subseteq> seen \<and>
     (\<forall>v \<in> set active. iv_preg (ivs ! v) \<noteq> None \<and> (\<forall>w \<in> rest. iv_start (ivs ! v) \<le> iv_start (ivs ! w))) \<and>
     (\<forall>v \<in> seen. iv_preg (ivs ! v) \<noteq> None \<and> v \<notin> set active \<longrightarrow> (\<forall>w \<in> rest. iv_end (ivs ! v) < iv_start (ivs ! w)))"

text \<open>The spill slots are new, and each has one register.\<close>

definition slots_ok :: "mach_slot list \<Rightarrow> 'op alloc \<Rightarrow> bool" where
  "slots_ok slots a \<longleftrightarrow>
     (\<exists>n. mf_slots (al_f a) = slots @ replicate n \<lparr>ms_size = 8, ms_align = 8, ms_offset = 0\<rparr>) \<and>
     (\<forall>v < length (al_intervals a). \<forall>s. iv_slot (al_intervals a ! v) = Some s \<longrightarrow>
        length slots \<le> s \<and> s < length (mf_slots (al_f a)) \<and>
        (\<forall>u < length (al_intervals a). iv_slot (al_intervals a ! u) = Some s \<longrightarrow> u = v))"

text \<open>What no step changes.\<close>

definition frozen :: "'op alloc \<Rightarrow> 'op alloc \<Rightarrow> bool" where
  "frozen a a' \<longleftrightarrow>
     al_fixed a' = al_fixed a \<and> length (al_intervals a') = length (al_intervals a) \<and>
     (\<forall>v < length (al_intervals a). same_range (al_intervals a ! v) (al_intervals a' ! v)) \<and>
     (\<exists>slots. al_f a' = (al_f a)\<lparr>mf_slots := slots\<rparr>)"

definition scan_inv :: "abi \<Rightarrow> 'op alloc \<Rightarrow> nat set \<Rightarrow> nat set \<Rightarrow> 'op alloc \<times> nat list \<Rightarrow> bool" where
  "scan_inv abi a0 seen rest st \<longleftrightarrow>
     seen \<union> rest \<subseteq> {..<length (al_intervals a0)} \<and> seen \<inter> rest = {} \<and>
     frozen a0 (fst st) \<and> places_ok abi (fst st) seen \<and>
     active_ok (al_intervals (fst st)) seen rest (snd st) \<and> slots_ok (mf_slots (al_f a0)) (fst st)"

lemma frozen_refl: "frozen a a"
  by (auto simp: frozen_def same_range_def intro!: exI [of _ "mf_slots (al_f a)"])

lemma overlaps_fixed_same:
  "al_fixed a' = al_fixed a \<Longrightarrow> same_range x y \<Longrightarrow> overlaps_fixed a' r y \<longleftrightarrow> overlaps_fixed a r x"
  by (simp add: overlaps_fixed_def same_range_def)

lemma may_take_same:
  "al_fixed a' = al_fixed a \<Longrightarrow> same_range x y \<Longrightarrow> may_take abi a' y r \<longleftrightarrow> may_take abi a x r"
  by (simp add: may_take_def overlaps_fixed_same class_registers_def) (simp add: same_range_def)

lemma intervals_assign:
  "v < length (al_intervals a) \<Longrightarrow> al_intervals (assign v r a) ! u =
     (if u = v then (al_intervals a ! u)\<lparr>iv_preg := Some r\<rparr> else al_intervals a ! u)"
  "length (al_intervals (assign v r a)) = length (al_intervals a)" "al_fixed (assign v r a) = al_fixed a"
  "al_f (assign v r a) = al_f a"
  by (simp_all add: assign_def update_def)

lemma intervals_spill:
  "v < length (al_intervals a) \<Longrightarrow> al_intervals (spill v a) ! u =
     (if u = v then (al_intervals a ! u)\<lparr>iv_preg := None, iv_slot := Some (length (mf_slots (al_f a)))\<rparr>
      else al_intervals a ! u)"
  "length (al_intervals (spill v a)) = length (al_intervals a)" "al_fixed (spill v a) = al_fixed a"
  "al_f (spill v a) = (al_f a)\<lparr>mf_slots := mf_slots (al_f a) @ [\<lparr>ms_size = 8, ms_align = 8, ms_offset = 0\<rparr>]\<rparr>"
  by (simp_all add: spill_def update_def mach_slot_add_def)

text \<open>The two ways a step gives a register its place.\<close>

lemma scan_assign:
  assumes inv: "scan_inv abi a0 seen (insert v rest) (a, active)"
    and v: "v \<notin> rest" and take: "may_take abi a (al_intervals a ! v) r"
    and free: "\<And>u. u \<in> seen \<Longrightarrow> iv_preg (al_intervals a ! u) = Some r \<Longrightarrow> apart (al_intervals a ! u) (al_intervals a ! v)"
    and sorted: "\<forall>w \<in> rest. iv_start (al_intervals a ! v) \<le> iv_start (al_intervals a ! w)"
  shows "scan_inv abi a0 (insert v seen) rest (assign v r a, active @ [v])"
proof -
  let ?a = "assign v r a"
  have n: "v < length (al_intervals a)" "v \<notin> seen" "\<And>u. u \<in> seen \<Longrightarrow> u < length (al_intervals a)"
    using inv by (auto simp: scan_inv_def frozen_def)
  note at = intervals_assign(1) [OF n(1)]
  have same: "same_range (al_intervals a ! u) (al_intervals ?a ! u)" for u by (simp add: at same_range_def)
  have "frozen a0 ?a"
    using inv same by (auto simp: scan_inv_def frozen_def intervals_assign(2-4) same_range_def)
  moreover have "places_ok abi ?a (insert v seen)"
    unfolding places_ok_def
  proof (intro conjI ballI allI impI)
    fix u w s assume "u \<in> insert v seen" "w \<in> insert v seen"
      and h: "u \<noteq> w \<and> iv_preg (al_intervals ?a ! u) = Some s \<and> iv_preg (al_intervals ?a ! w) = Some s"
    then consider "u = v" "w \<in> seen" "w \<noteq> v" | "w = v" "u \<in> seen" "u \<noteq> v" | "u \<in> seen" "w \<in> seen" "u \<noteq> v" "w \<noteq> v"
      using n(2) by auto
    then show "apart (al_intervals ?a ! u) (al_intervals ?a ! w)"
      using h free inv by cases (auto simp: at apart_def scan_inv_def places_ok_def)
  next
    fix u s assume "u \<in> insert v seen" "iv_preg (al_intervals ?a ! u) = Some s"
    then have "may_take abi a (al_intervals a ! u) s"
      using inv take by (cases "u = v") (auto simp: at scan_inv_def places_ok_def)
    then show "may_take abi ?a (al_intervals ?a ! u) s" using may_take_same [OF intervals_assign(3) same] by blast
  qed (use inv n in \<open>auto simp: at intervals_assign(2) scan_inv_def places_ok_def\<close>)
  moreover have "active_ok (al_intervals ?a) (insert v seen) rest (active @ [v])"
    using inv n v sorted unfolding scan_inv_def active_ok_def by (auto simp: at)
  moreover have "slots_ok (mf_slots (al_f a0)) ?a"
  proof -
    have "iv_slot (al_intervals ?a ! u) = iv_slot (al_intervals a ! u)" for u by (simp add: at)
    then have "slots_ok slots ?a \<longleftrightarrow> slots_ok slots a" for slots
      by (simp only: slots_ok_def intervals_assign(2,4))
    with inv show ?thesis by (simp only: scan_inv_def fst_conv simp_thms)
  qed
  ultimately show ?thesis using inv v by (auto simp: scan_inv_def)
qed

text \<open>A register that is spilled: the new one, which has no place yet, or an active one.\<close>

lemma slots_spill:
  assumes "slots_ok slots a" "v < length (al_intervals a)"
  shows "slots_ok slots (spill v a)"
proof -
  let ?n = "length (mf_slots (al_f a))"
  obtain n where n: "mf_slots (al_f a) = slots @ replicate n \<lparr>ms_size = 8, ms_align = 8, ms_offset = 0\<rparr>"
    using assms(1) by (auto simp: slots_ok_def)
  have old: "length slots \<le> s \<and> s < ?n \<and> (\<forall>w < length (al_intervals a). iv_slot (al_intervals a ! w) = Some s \<longrightarrow> w = u)"
    if "u < length (al_intervals a)" "iv_slot (al_intervals a ! u) = Some s" for u s
    using assms(1) that unfolding slots_ok_def by blast
  note at = intervals_spill(1) [OF assms(2)]
  have "mf_slots (al_f (spill v a)) = slots @ replicate (Suc n) \<lparr>ms_size = 8, ms_align = 8, ms_offset = 0\<rparr>"
    by (simp add: intervals_spill n replicate_append_same)
  moreover have "length slots \<le> s \<and> s < Suc ?n \<and>
      (\<forall>w < length (al_intervals a). iv_slot (al_intervals (spill v a) ! w) = Some s \<longrightarrow> w = u)"
    if u: "u < length (al_intervals a)" "iv_slot (al_intervals (spill v a) ! u) = Some s" for u s
  proof (cases "u = v")
    case True
    then have s: "s = ?n" using u by (simp add: at)
    have "w = v" if "w < length (al_intervals a)" "iv_slot (al_intervals (spill v a) ! w) = Some ?n" for w
      using old [OF that(1), of ?n] that(2) by (cases "w = v") (simp_all add: at)
    moreover have "length slots \<le> ?n" by (simp add: n)
    ultimately show ?thesis unfolding s True by blast
  next
    case False
    then have s: "iv_slot (al_intervals a ! u) = Some s" using u(2) by (simp add: at)
    have "w = u" if "w < length (al_intervals a)" "iv_slot (al_intervals (spill v a) ! w) = Some s" for w
      using old [OF u(1) s] that by (cases "w = v") (auto simp: at)
    then show ?thesis using old [OF u(1) s] by auto
  qed
  moreover have "length (mf_slots (al_f (spill v a))) = Suc ?n" by (simp add: intervals_spill)
  ultimately show ?thesis
    unfolding slots_ok_def intervals_spill(2) by (metis (no_types, lifting))
qed

lemma scan_spill:
  assumes inv: "scan_inv abi a0 seen rest (a, active)" and v: "v < length (al_intervals a)" "v \<notin> rest"
    and active: "distinct active'" "set active' = set active - {v}"
  shows "scan_inv abi a0 (insert v seen) rest (spill v a, active')"
proof -
  let ?a = "spill v a"
  note at = intervals_spill(1) [OF v(1)]
  have same: "same_range (al_intervals a ! u) (al_intervals ?a ! u)" for u by (simp add: at same_range_def)
  have f: "frozen a0 a" and p: "places_ok abi a seen" and ac: "active_ok (al_intervals a) seen rest active"
    and s: "slots_ok (mf_slots (al_f a0)) a" using inv by (simp_all add: scan_inv_def)
  have "frozen a0 ?a"
  proof -
    have "same_range (al_intervals a0 ! u) (al_intervals ?a ! u)" if "u < length (al_intervals a0)" for u
      using f that same [of u] by (auto simp: frozen_def same_range_def)
    then show ?thesis using f by (auto simp: frozen_def intervals_spill)
  qed
  moreover have "places_ok abi ?a (insert v seen)"
    unfolding places_ok_def
  proof (intro conjI ballI allI impI)
    fix u w r assume "u \<in> insert v seen" "w \<in> insert v seen"
      and h: "u \<noteq> w \<and> iv_preg (al_intervals ?a ! u) = Some r \<and> iv_preg (al_intervals ?a ! w) = Some r"
    then have "u \<in> seen" "w \<in> seen" "u \<noteq> v" "w \<noteq> v" by (auto simp: at split: if_splits)
    then show "apart (al_intervals ?a ! u) (al_intervals ?a ! w)" using h p by (simp add: at places_ok_def)
  next
    fix u r assume "u \<in> insert v seen" "iv_preg (al_intervals ?a ! u) = Some r"
    then have "may_take abi a (al_intervals a ! u) r"
      using p by (cases "u = v") (auto simp: at places_ok_def)
    then show "may_take abi ?a (al_intervals ?a ! u) r" using may_take_same [OF intervals_spill(3) same] by blast
  qed (use p in \<open>auto simp: at intervals_spill(2) places_ok_def\<close>)
  moreover have "active_ok (al_intervals ?a) (insert v seen) rest active'"
    using ac active unfolding active_ok_def by (auto simp: at)
  moreover have "insert v seen \<union> rest \<subseteq> {..<length (al_intervals a0)}" "insert v seen \<inter> rest = {}"
    using inv v f by (auto simp: scan_inv_def frozen_def)
  ultimately show ?thesis using slots_spill [OF s v(1)] by (simp add: scan_inv_def)
qed

text \<open>The registers that end before the new one leave the active list.\<close>

lemma scan_expire:
  assumes inv: "scan_inv abi a0 seen (insert v rest) (a, active)"
    and sorted: "\<forall>w \<in> rest. iv_start (al_intervals a ! v) \<le> iv_start (al_intervals a ! w)"
  defines "active' \<equiv> expire (al_intervals a) (iv_start (al_intervals a ! v)) 0 active"
  shows "scan_inv abi a0 seen (insert v rest) (a, active')"
    and "u \<in> seen \<Longrightarrow> iv_preg (al_intervals a ! u) \<noteq> None \<Longrightarrow> u \<notin> set active' \<Longrightarrow>
      iv_end (al_intervals a ! u) < iv_start (al_intervals a ! v)"
    and "u \<in> set active' \<Longrightarrow> iv_start (al_intervals a ! v) \<le> iv_end (al_intervals a ! u) \<and>
      iv_start (al_intervals a ! u) \<le> iv_start (al_intervals a ! v) \<and> u \<in> seen \<and> iv_preg (al_intervals a ! u) \<noteq> None"
proof -
  have ac: "active_ok (al_intervals a) seen (insert v rest) active" using inv by (simp add: scan_inv_def)
  note e = expire_start [of active "al_intervals a" "iv_start (al_intervals a ! v)", folded active'_def]
  have e: "distinct active'" "set active' = {u \<in> set active. iv_start (al_intervals a ! v) \<le> iv_end (al_intervals a ! u)}"
    using e ac by (simp_all add: active_ok_def)
  have gone: "iv_end (al_intervals a ! u) < iv_start (al_intervals a ! v)"
    if "u \<in> seen" "iv_preg (al_intervals a ! u) \<noteq> None" "u \<notin> set active'" for u
    using that ac e(2) unfolding active_ok_def by (cases "u \<in> set active") auto
  then show "u \<in> seen \<Longrightarrow> iv_preg (al_intervals a ! u) \<noteq> None \<Longrightarrow> u \<notin> set active' \<Longrightarrow>
      iv_end (al_intervals a ! u) < iv_start (al_intervals a ! v)" .
  show "u \<in> set active' \<Longrightarrow> iv_start (al_intervals a ! v) \<le> iv_end (al_intervals a ! u) \<and>
      iv_start (al_intervals a ! u) \<le> iv_start (al_intervals a ! v) \<and> u \<in> seen \<and> iv_preg (al_intervals a ! u) \<noteq> None"
    using ac e(2) unfolding active_ok_def by auto
  have "active_ok (al_intervals a) seen (insert v rest) active'"
    unfolding active_ok_def
  proof (intro conjI ballI impI)
    fix u w assume u: "u \<in> seen" "iv_preg (al_intervals a ! u) \<noteq> None \<and> u \<notin> set active'" and w: "w \<in> insert v rest"
    have "iv_end (al_intervals a ! u) < iv_start (al_intervals a ! v)" using gone u by blast
    then show "iv_end (al_intervals a ! u) < iv_start (al_intervals a ! w)" using sorted w by (cases "w = v") force+
  qed (use ac e in \<open>auto simp: active_ok_def\<close>)
  then show "scan_inv abi a0 seen (insert v rest) (a, active')" using inv by (simp add: scan_inv_def)
qed

section \<open>One step\<close>

lemma choose_register_free:
  assumes "choose_register abi a active iv = Some r"
  shows "r \<in> set (class_registers abi iv)" "is_free a active r iv"
proof -
  have find: "List.find (\<lambda>r. is_free a active r iv) (class_registers abi iv) = Some r \<Longrightarrow>
      r \<in> set (class_registers abi iv) \<and> is_free a active r iv"
    by (auto simp: find_Some_iff)
  show "r \<in> set (class_registers abi iv)" "is_free a active r iv"
    using assms find by (auto simp: choose_register_def is_allocatable_def list_ex_iff Let_def
        split: option.splits if_splits)
qed

definition victim_ok :: "'op alloc \<Rightarrow> interval \<Rightarrow> nat \<Rightarrow> bool" where
  "victim_ok a cur m \<longleftrightarrow>
     iv_fp (al_intervals a ! m) = iv_fp cur \<and> \<not> overlaps_fixed a (the (iv_preg (al_intervals a ! m))) cur"

lemma pick_victim_ok:
  assumes "foldl (pick_victim a cur) start active = Some m" "\<forall>k. start = Some k \<longrightarrow> k \<in> seen \<and> victim_ok a cur k"
    "set active \<subseteq> seen"
  shows "m \<in> seen \<and> victim_ok a cur m"
  using assms
proof (induction active arbitrary: start)
  case (Cons u us)
  have "\<forall>k. pick_victim a cur start u = Some k \<longrightarrow> k \<in> seen \<and> victim_ok a cur k"
    using Cons.prems(2,3) by (auto simp: pick_victim_def victim_ok_def Let_def)
  with Cons.IH [of "pick_victim a cur start u"] Cons.prems(1,3) show ?case by simp
qed simp

lemma scan_inv_weaken: "scan_inv abi a0 seen (insert v rest) st \<Longrightarrow> scan_inv abi a0 seen rest st"
  by (auto simp: scan_inv_def active_ok_def)

lemma scan_step_inv:
  assumes inv: "scan_inv abi a0 seen (insert v rest) (a, active)" and v: "v \<notin> rest"
    and sorted: "\<forall>w \<in> rest. iv_start (al_intervals a ! v) \<le> iv_start (al_intervals a ! w)"
  shows "scan_inv abi a0 (insert v seen) rest (scan_step abi (a, active) v)"
proof -
  let ?cur = "al_intervals a ! v"
  define active' where "active' = expire (al_intervals a) (iv_start ?cur) 0 active"
  note ex = scan_expire [OF inv sorted, folded active'_def]
  have step: "scan_step abi (a, active) v =
      (case choose_register abi a active' ?cur of
         Some preg \<Rightarrow> (assign v preg a, active' @ [v])
       | None \<Rightarrow>
           (case foldl (pick_victim a ?cur) None active' of
              None \<Rightarrow> (spill v a, active')
            | Some m \<Rightarrow>
                if iv_weight (al_intervals a ! m) \<ge> iv_weight ?cur then (spill v a, active')
                else (assign v (the (iv_preg (al_intervals a ! m))) (spill m a), remove_active m active' @ [v])))"
    by (simp only: scan_step_def active'_def Let_def prod.case)
  have n: "v < length (al_intervals a)" "v \<notin> seen" "\<And>u. u \<in> seen \<Longrightarrow> u < length (al_intervals a)"
    using inv by (auto simp: scan_inv_def frozen_def)
  have d: "distinct active'" "set active' \<subseteq> seen" using ex(1) by (simp_all add: scan_inv_def active_ok_def)
  have late: "apart (al_intervals a ! u) ?cur" if "u \<in> seen" "iv_preg (al_intervals a ! u) \<noteq> None" "u \<notin> set active'" for u
    using ex(2) [OF that] by (simp add: apart_def)
  have spill: "scan_inv abi a0 (insert v seen) rest (spill v a, active')"
    by (rule scan_spill [OF scan_inv_weaken [OF ex(1)] n(1) v d(1)]) (use d n(2) in auto)
  show ?thesis
  proof (cases "choose_register abi a active' ?cur")
    case (Some r)
    note c = choose_register_free [OF Some]
    have "apart (al_intervals a ! u) ?cur" if "u \<in> seen" "iv_preg (al_intervals a ! u) = Some r" for u
      using that late [of u] c(2) by (cases "u \<in> set active'") (auto simp: is_free_def list_ex_iff)
    from scan_assign [OF ex(1) v _ this sorted, of r] c show ?thesis
      by (simp add: step Some may_take_def is_free_def)
  next
    case None
    show ?thesis
    proof (cases "foldl (pick_victim a ?cur) None active'")
      case no_victim: None
      then show ?thesis using spill by (simp add: step None)
    next
      case victim: (Some m)
      show ?thesis
      proof (cases "iv_weight (al_intervals a ! m) \<ge> iv_weight ?cur")
        case True
        then show ?thesis using spill by (simp add: step None victim)
      next
        case False
        have m: "m \<in> set active'" "victim_ok a ?cur m"
          using pick_victim_ok [OF victim, of "set active'"] by simp_all
        then obtain r where r: "iv_preg (al_intervals a ! m) = Some r" and m_seen: "m \<in> seen" "m < length (al_intervals a)"
          using ex(3) n(3) by blast
        have others: "u \<notin> set active'" if "u \<in> seen" "u \<noteq> m" "iv_preg (al_intervals a ! u) = Some r" for u
        proof
          assume "u \<in> set active'"
          from ex(3) [OF this] ex(3) [OF m(1)] have "\<not> apart (al_intervals a ! u) (al_intervals a ! m)"
            by (auto simp: apart_def)
          then show False using inv that r m_seen(1) by (auto simp: scan_inv_def places_ok_def)
        qed
        let ?b = "spill m a"
        note at = intervals_spill(1) [OF m_seen(2)]
        have inv': "scan_inv abi a0 seen (insert v rest) (?b, remove_active m active')"
        proof -
          have "m \<notin> insert v rest" using inv m_seen(1) by (auto simp only: scan_inv_def)
          from scan_spill [OF ex(1) m_seen(2) this remove_active_set [OF d(1) m(1)]] m_seen(1)
          show ?thesis by (simp only: insert_absorb)
        qed
        have "may_take abi a (al_intervals a ! m) r" using inv m_seen(1) r by (auto simp only: scan_inv_def places_ok_def fst_conv)
        then have cur: "may_take abi a ?cur r" using m(2) r by (simp add: may_take_def victim_ok_def class_registers_def)
        have "same_range ?cur (al_intervals ?b ! v)" by (simp add: at same_range_def)
        from may_take_same [OF intervals_spill(3) this] cur have take: "may_take abi ?b (al_intervals ?b ! v) r" by blast
        have free: "apart (al_intervals ?b ! u) (al_intervals ?b ! v)"
          if "u \<in> seen" "iv_preg (al_intervals ?b ! u) = Some r" for u
        proof -
          have "u \<noteq> m" "iv_preg (al_intervals a ! u) = Some r" using that(2) by (auto simp: at split: if_splits)
          from late [OF that(1)] others [OF that(1) this] this show ?thesis by (auto simp: at apart_def)
        qed
        have sorted': "\<forall>w \<in> rest. iv_start (al_intervals ?b ! v) \<le> iv_start (al_intervals ?b ! w)"
          using sorted by (auto simp: at)
        from scan_assign [OF inv' v take free sorted'] show ?thesis
          using False by (simp add: step None victim r)
      qed
    qed
  qed
qed

section \<open>The whole scan\<close>

lemma scan_steps:
  assumes "scan_inv abi a0 seen (set vs) st" "distinct vs" "sorted (map (\<lambda>v. iv_start (al_intervals a0 ! v)) vs)"
  shows "scan_inv abi a0 (seen \<union> set vs) {} (foldl (scan_step abi) st vs)"
  using assms
proof (induction vs arbitrary: seen st)
  case (Cons v vs)
  obtain a active where st: "st = (a, active)" by (cases st)
  have "iv_start (al_intervals a ! w) = iv_start (al_intervals a0 ! w)" if "w \<in> set (v # vs)" for w
    using Cons.prems(1) that by (auto simp: scan_inv_def frozen_def same_range_def st)
  with Cons.prems(3) have sorted: "\<forall>w \<in> set vs. iv_start (al_intervals a ! v) \<le> iv_start (al_intervals a ! w)" by simp
  have "scan_inv abi a0 (insert v seen) (set vs) (scan_step abi st v)"
    using scan_step_inv [OF _ _ sorted, of abi a0 seen active] Cons.prems(1,2) by (simp add: st)
  from Cons.IH [OF this] Cons.prems(2,3) show ?case by simp
qed simp

definition unplaced :: "'op alloc \<Rightarrow> bool" where
  "unplaced a \<longleftrightarrow> numbered (al_intervals a) \<and>
     (\<forall>v < length (al_intervals a). iv_preg (al_intervals a ! v) = None \<and> iv_slot (al_intervals a ! v) = None)"

lemma linear_scan_inv:
  assumes "unplaced a"
  shows "\<exists>active. scan_inv abi a {v. v < length (al_intervals a) \<and> iv_end (al_intervals a ! v) \<noteq> - 1} {} (linear_scan abi a, active)"
proof -
  note o = scan_order_facts [of "al_intervals a"]
  have "scan_inv abi a {} (set (scan_order (al_intervals a))) (a, [])"
    using assms o by (auto simp: unplaced_def scan_inv_def frozen_refl places_ok_def active_ok_def slots_ok_def)
  from scan_steps [OF this] o assms show ?thesis
    by (auto simp: linear_scan_def unplaced_def intro!: exI [of _ "snd (foldl (scan_step abi) (a, []) (scan_order (al_intervals a)))"])
qed

end
