(* ===== verification/Allocation.thy ===== *)
theory Allocation
  imports FixedRanges LinearScan
begin

text \<open>
  The allocator as a whole: liveness gives the intervals, the scan keeps the intervals that share a
  physical register apart, and so no instruction overwrites a register that a later one reads.
\<close>

section \<open>The intervals of a function\<close>

definition prepared :: "'op target_desc \<Rightarrow> 'op mach_function \<Rightarrow> 'op alloc" where
  "prepared td f = build_intervals td (the (compute_liveness td (alloc_start f)))"

lemma al_f_start [simp]: "al_f (alloc_start f) = f"
  by (simp add: alloc_start_def)

lemma liveness_start:
  assumes "mach_ok td f"
  shows "\<exists>a. compute_liveness td (alloc_start f) = Some a \<and> al_f a = f \<and>
    (\<forall>b < length (mf_blocks f). \<forall>v < vreg_count f.
       set_has (al_live_in a ! b) v = live_in td f b v \<and> set_has (al_live_out a ! b) v = live_out td f b v)"
  by (rule compute_liveness_sets [of td "alloc_start f"]) (use assms in auto)

lemma prepared_built:
  assumes "compute_liveness td (alloc_start f) = Some a" "al_f a = f"
  shows "al_intervals (prepared td f) = fst (built td a)" "al_fixed (prepared td f) = snd (built td a)"
    "al_f (prepared td f) = f"
  using assms by (simp_all add: prepared_def build_intervals_built)

lemma prepared_covered:
  assumes ok: "mach_ok td f"
  shows "b < length (mf_blocks f) \<Longrightarrow> v < vreg_count f \<Longrightarrow> live_in td f b v \<Longrightarrow>
      covers (al_intervals (prepared td f) ! v) (reads_at f b 0)"
    and "b < length (mf_blocks f) \<Longrightarrow> v < vreg_count f \<Longrightarrow> live_out td f b v \<Longrightarrow>
      covers (al_intervals (prepared td f) ! v) (block_stop f b)"
    and "b < length (mf_blocks f) \<Longrightarrow> i < length (block_insts f b) \<Longrightarrow>
      ev \<in> set (each_register td (block_insts f b ! i)) \<Longrightarrow>
      event_covered (reads_at f b i) ev (al_intervals (prepared td f))"
    and "b < length (mf_blocks f) \<Longrightarrow> i < length (block_insts f b) \<Longrightarrow>
      inst_ranges td f b i (al_fixed (prepared td f))"
    and "widens (start_intervals f) (al_intervals (prepared td f))"
proof -
  obtain a where a: "compute_liveness td (alloc_start f) = Some a" "al_f a = f"
    and live: "\<forall>b < length (mf_blocks f). \<forall>v < vreg_count f.
       set_has (al_live_in a ! b) v = live_in td f b v \<and> set_has (al_live_out a ! b) v = live_out td f b v"
    using liveness_start [OF ok] by blast
  have ok': "mach_ok td (al_f a)" using ok a(2) by simp
  note c = built_covered [OF ok', unfolded a(2)] and p = prepared_built [OF a(1,2)]
  show "b < length (mf_blocks f) \<Longrightarrow> v < vreg_count f \<Longrightarrow> live_in td f b v \<Longrightarrow>
      covers (al_intervals (prepared td f) ! v) (reads_at f b 0)"
    using c a(2) live by (auto simp: p block_covered_def)
  show "b < length (mf_blocks f) \<Longrightarrow> v < vreg_count f \<Longrightarrow> live_out td f b v \<Longrightarrow>
      covers (al_intervals (prepared td f) ! v) (block_stop f b)"
    using c a(2) live by (auto simp: p block_covered_def)
  show "b < length (mf_blocks f) \<Longrightarrow> i < length (block_insts f b) \<Longrightarrow>
      ev \<in> set (each_register td (block_insts f b ! i)) \<Longrightarrow>
      event_covered (reads_at f b i) ev (al_intervals (prepared td f))"
    using c a(2) by (auto simp: p block_covered_def)
  show "b < length (mf_blocks f) \<Longrightarrow> i < length (block_insts f b) \<Longrightarrow>
      inst_ranges td f b i (al_fixed (prepared td f))"
    using built_ranges [of b a i td] a(2) by (simp add: p)
  show "widens (start_intervals f) (al_intervals (prepared td f))" using c by (simp add: p)
qed

interpretation iv: live_intervals "\<lambda>td f. al_intervals (prepared td f)"
  by unfold_locales (use prepared_covered(1-3) in blast)+

lemma prepared_unplaced:
  assumes "mach_ok td f"
  shows "unplaced (prepared td f)" "length (al_intervals (prepared td f)) = vreg_count f"
  using prepared_covered(5) [OF assms]
  by (auto simp: unplaced_def numbered_def widens_def start_intervals_def same_interval_def no_interval_def)

lemma prepared_f: "mach_ok td f \<Longrightarrow> al_f (prepared td f) = f"
  using liveness_start prepared_built(3) by blast

section \<open>The places\<close>

text \<open>What the scan promises of the places it chooses.\<close>

locale register_scan =
  fixes scan :: "abi \<Rightarrow> 'op alloc \<Rightarrow> 'op alloc"
  assumes ranges_kept: "unplaced a \<Longrightarrow> frozen a (scan abi a)"
    and places: "unplaced a \<Longrightarrow> \<exists>seen. places_ok abi (scan abi a) seen \<and>
      (\<forall>v < length (al_intervals a). v \<in> seen \<longleftrightarrow> iv_end (al_intervals a ! v) \<noteq> - 1)"
    and slots: "unplaced a \<Longrightarrow> slots_ok (mf_slots (al_f a)) (scan abi a)"
begin

lemma range_kept:
  assumes "unplaced a" "v < length (al_intervals a)"
  shows "same_range (al_intervals a ! v) (al_intervals (scan abi a) ! v)"
  using ranges_kept [OF assms(1)] assms(2) by (simp add: frozen_def)

lemma covers_kept:
  assumes "unplaced a" "v < length (al_intervals a)"
  shows "covers (al_intervals (scan abi a) ! v) p \<longleftrightarrow> covers (al_intervals a ! v) p"
  using range_kept [OF assms] by (simp add: covers_def same_range_def)

lemma covered_seen:
  assumes "covers (al_intervals a ! v) p" "0 \<le> p"
  shows "iv_end (al_intervals a ! v) \<noteq> - 1"
  using assms by (auto simp: covers_def)

lemma meeting_differ:
  assumes a: "unplaced a" and l: "u < length (al_intervals a)" "v < length (al_intervals a)" "u \<noteq> v"
    and c: "covers (al_intervals a ! u) p" "covers (al_intervals a ! v) p" "0 \<le> p"
    and r: "iv_preg (al_intervals (scan abi a) ! u) = Some r"
  shows "iv_preg (al_intervals (scan abi a) ! v) \<noteq> Some r"
proof
  assume r': "iv_preg (al_intervals (scan abi a) ! v) = Some r"
  have nonempty: "iv_end (al_intervals a ! u) \<noteq> - 1" "iv_end (al_intervals a ! v) \<noteq> - 1"
    using covered_seen c by blast+
  obtain seen where seen: "places_ok abi (scan abi a) seen" "u \<in> seen" "v \<in> seen"
    using places [OF a, of abi] l nonempty by blast
  then have "apart (al_intervals (scan abi a) ! u) (al_intervals (scan abi a) ! v)"
    using l(3) r r' by (simp add: places_ok_def)
  with c(1,2) range_kept [OF a l(1), of abi] range_kept [OF a l(2), of abi] show False
    by (auto simp: apart_def covers_def same_range_def)
qed

lemma fixed_avoided:
  assumes a: "unplaced a" and v: "v < length (al_intervals a)" "covers (al_intervals a ! v) p" "0 \<le> p"
    and range: "has_range (al_fixed a) r lo hi" "lo \<le> p" "p \<le> hi"
  shows "iv_preg (al_intervals (scan abi a) ! v) \<noteq> Some r"
proof
  assume r: "iv_preg (al_intervals (scan abi a) ! v) = Some r"
  obtain seen where seen: "places_ok abi (scan abi a) seen" "v \<in> seen"
    using places [OF a, of abi] v(1) covered_seen [OF v(2,3)] by blast
  then have "\<not> overlaps_fixed (scan abi a) r (al_intervals (scan abi a) ! v)"
    using r by (simp add: places_ok_def may_take_def)
  moreover have "al_fixed (scan abi a) = al_fixed a" using ranges_kept [OF a] by (simp add: frozen_def)
  ultimately have "\<not> overlaps_fixed a r (al_intervals a ! v)"
    using overlaps_fixed_same [OF _ range_kept [OF a v(1)]] by blast
  moreover obtain x y where "(x, y) \<in> set (al_fixed a ! r)" "x \<le> lo" "hi \<le> y"
    using range(1) by (auto simp: has_range_def)
  ultimately show False
    using v(2) range(2,3) by (force simp: overlaps_fixed_def list_ex_iff covers_def)
qed

lemma placed_once:
  assumes "unplaced a" "v < length (al_intervals a)" "covers (al_intervals a ! v) p" "0 \<le> p"
  shows "(iv_preg (al_intervals (scan abi a) ! v) = None) \<noteq> (iv_slot (al_intervals (scan abi a) ! v) = None)"
  using places [OF assms(1), of abi] assms(2) covered_seen [OF assms(3,4)] by (auto simp: places_ok_def)

lemma placed_in_class:
  assumes "unplaced a" "v < length (al_intervals a)" "covers (al_intervals a ! v) p" "0 \<le> p"
  shows "(iv_slot (al_intervals (scan abi a) ! v) \<noteq> None \<and> iv_preg (al_intervals (scan abi a) ! v) = None) \<or>
     (\<exists>r. iv_slot (al_intervals (scan abi a) ! v) = None \<and> iv_preg (al_intervals (scan abi a) ! v) = Some r \<and>
        r \<in> set (class_registers abi (al_intervals a ! v)) \<and>
        \<not> overlaps_fixed (scan abi a) r (al_intervals (scan abi a) ! v))"
proof -
  obtain seen where seen: "places_ok abi (scan abi a) seen" "v \<in> seen"
    using places [OF assms(1), of abi] assms(2) covered_seen [OF assms(3,4)] by blast
  have "iv_fp (al_intervals (scan abi a) ! v) = iv_fp (al_intervals a ! v)"
    using range_kept [OF assms(1,2)] by (simp add: same_range_def)
  with seen show ?thesis by (fastforce simp: places_ok_def may_take_def class_registers_def)
qed

lemma slot_added:
  assumes "unplaced a" "v < length (al_intervals a)" "iv_slot (al_intervals (scan abi a) ! v) = Some s"
  shows "length (mf_slots (al_f a)) \<le> s \<and> s < length (mf_slots (al_f (scan abi a)))"
  using slots [OF assms(1), of abi] ranges_kept [OF assms(1), of abi] assms(2,3)
  by (auto simp: slots_ok_def frozen_def)

lemma register_of_class:
  assumes "unplaced a" "v < length (al_intervals a)" "iv_preg (al_intervals (scan abi a) ! v) = Some r"
  shows "r \<in> set (ab_allocatable abi @ ab_fp_allocatable abi)"
proof -
  obtain seen where p: "places_ok abi (scan abi a) seen" using places [OF assms(1), of abi] by blast
  have "length (al_intervals (scan abi a)) = length (al_intervals a)"
    using ranges_kept [OF assms(1)] by (simp add: frozen_def)
  then have "v \<in> seen" using p assms(2,3) by (force simp: places_ok_def)
  then show ?thesis using p assms(3) by (auto simp: places_ok_def may_take_def class_registers_def split: if_splits)
qed

lemma slots_differ:
  assumes "unplaced a" "u < length (al_intervals a)" "v < length (al_intervals a)" "u \<noteq> v"
    and "iv_slot (al_intervals (scan abi a) ! u) = Some s"
  shows "iv_slot (al_intervals (scan abi a) ! v) \<noteq> Some s"
  using slots [OF assms(1), of abi] ranges_kept [OF assms(1), of abi] assms(2-5)
  by (auto simp: slots_ok_def frozen_def)

end

interpretation ls: register_scan linear_scan
proof unfold_locales
  fix a :: "'a alloc" and abi assume "unplaced a"
  from linear_scan_inv [OF this, of abi] obtain active where
    inv: "scan_inv abi a {v. v < length (al_intervals a) \<and> iv_end (al_intervals a ! v) \<noteq> - 1} {} (linear_scan abi a, active)"
    by blast
  then show "frozen a (linear_scan abi a)" "slots_ok (mf_slots (al_f a)) (linear_scan abi a)"
    by (simp_all add: scan_inv_def)
  show "\<exists>seen. places_ok abi (linear_scan abi a) seen \<and>
      (\<forall>v < length (al_intervals a). v \<in> seen \<longleftrightarrow> iv_end (al_intervals a ! v) \<noteq> - 1)"
    using inv by (intro exI [of _ "{v. v < length (al_intervals a) \<and> iv_end (al_intervals a ! v) \<noteq> - 1}"])
      (simp add: scan_inv_def)
qed

end
