(* ===== verification/Remat.thy ===== *)
theory Remat
  imports Allocation
begin

text \<open>
  The pass that writes constants again keeps a function well formed, so that what the allocator
  does after it applies to every function that selection gives.
\<close>

lemma foldl_increases:
  fixes m :: "'s \<Rightarrow> nat"
  assumes "\<And>s x. m s \<le> m (g s x)"
  shows "m s \<le> m (foldl g s xs)"
proof (induction xs arbitrary: s)
  case (Cons x xs)
  show ?case using order_trans [OF assms Cons.IH] by simp
qed simp

lemma moperand_ok_mono: "moperand_ok c x \<Longrightarrow> c \<le> c' \<Longrightarrow> moperand_ok c' x"
  by (auto simp: moperand_ok_def)

lemma minst_ok_mono: "minst_ok td c n inst \<Longrightarrow> c \<le> c' \<Longrightarrow> minst_ok td c' n inst"
  by (auto simp: minst_ok_def list_all_iff intro: moperand_ok_mono)

lemma defines_kinds:
  "fst (defines_from oc i xs df v) \<Longrightarrow> x \<in> set xs \<Longrightarrow> o_kind x = MACH_VREG \<or> o_kind x = MACH_IMM"
  by (induction oc i xs df v rule: defines_from.induct) (auto split: if_splits)

lemma constant_no_targets:
  assumes "fst (defines_constant td inst v)"
  shows "branch_targets td inst = []"
  using defines_kinds [OF assms [unfolded defines_constant_def]]
  by (fastforce simp: branch_targets_def filter_empty_conv)

text \<open>The definitions that the first loop keeps.\<close>

definition constant_ok :: "'op target_desc \<Rightarrow> nat \<Rightarrow> nat \<Rightarrow> 'op mach_inst \<Rightarrow> bool" where
  "constant_ok td c blocks d \<longleftrightarrow> minst_ok td c blocks d \<and> fst (defines_constant td d 0)"

definition defs_ok :: "'op target_desc \<Rightarrow> nat \<Rightarrow> nat \<Rightarrow> 'op mach_inst option list \<Rightarrow> bool" where
  "defs_ok td c n ds \<longleftrightarrow> (\<forall>d. Some d \<in> set ds \<longrightarrow> constant_ok td c n d) \<and> length ds = c"

lemma note_definition_ok:
  assumes "defs_ok td c n (fst st)" "minst_ok td c n inst"
  shows "defs_ok td c n (fst (note_definition td k st inst))"
proof -
  obtain ds once many where st: "st = (ds, once, many)" by (cases st)
  obtain df v where dc: "defines_constant td inst 0 = (df, v)"
    by (cases "defines_constant td inst 0")
  have r: "fst (note_definition td k st inst) =
      (if df then ds[v := Some inst] else if v < k then ds[v := None] else ds)"
    by (simp add: note_definition_def st dc split: prod.split bool.split)
  have u: "defs_ok td c n (ds[v := y])" if "\<forall>d. y = Some d \<longrightarrow> constant_ok td c n d" for y
    using assms(1) that set_update_subset_insert [of ds v y] by (auto simp: defs_ok_def st)
  have "constant_ok td c n inst" if df using assms(2) dc that by (simp add: constant_ok_def)
  then show ?thesis unfolding r using u [of None] u [of "Some inst"] assms(1) st by auto
qed

lemma note_definitions_ok:
  assumes "defs_ok td c n (fst st)" "\<forall>inst \<in> set insts. minst_ok td c n inst"
  shows "defs_ok td c n (fst (foldl (note_definition td k) st insts))"
  using assms by (induction insts arbitrary: st) (simp_all add: note_definition_ok)

lemma note_blocks_ok:
  assumes "defs_ok td c n (fst st)" "\<forall>insts \<in> set bs. \<forall>inst \<in> set insts. minst_ok td c n inst"
  shows "defs_ok td c n (fst (foldl (foldl (note_definition td k)) st bs))"
  using assms by (induction bs arbitrary: st) (simp_all add: note_definitions_ok)

lemma constants_ok:
  assumes "mach_ok td f"
  shows "defs_ok td (vreg_count f) (length (mf_blocks f)) (fst (constants td f))"
  unfolding constants_def
  by (rule note_blocks_ok) (use assms in \<open>auto simp: defs_ok_def mach_ok_def list_all_iff\<close>)

text \<open>The second loop, over one instruction.\<close>

definition rebuilt_ok :: "'op target_desc \<Rightarrow> nat \<Rightarrow> nat \<Rightarrow> nat list \<Rightarrow> 'op mach_function \<times> 'op mach_block \<Rightarrow> bool" where
  "rebuilt_ok td c n ts st \<longleftrightarrow>
     c \<le> vreg_count (fst st) \<and> list_all (minst_ok td (vreg_count (fst st)) n) (mb_insts (snd st)) \<and>
     concat (map (branch_targets td) (mb_insts (snd st))) = ts"

lemma rebuilt_append:
  assumes "rebuilt_ok td c n ts (f, b)" "minst_ok td (vreg_count f) n inst"
  shows "rebuilt_ok td c n (ts @ branch_targets td inst) (f, mach_append b inst)"
  using assms by (simp add: rebuilt_ok_def mach_append_def)

lemma rebuilt_vreg:
  assumes "rebuilt_ok td c n ts (f, b)"
  shows "rebuilt_ok td c n ts (fst (mach_vreg_add f fp), b)" "vreg_count (fst (mach_vreg_add f fp)) = Suc (vreg_count f)"
  using assms by (auto simp: rebuilt_ok_def mach_vreg_add_def vreg_count_def list_all_iff intro: minst_ok_mono)

lemma redefine_ok:
  assumes "constant_ok td c n d" "c \<le> made" "made < c'"
  shows "minst_ok td c' n (redefine td made d)" "branch_targets td (redefine td made d) = []"
proof -
  have kinds: "o_kind x = MACH_VREG \<or> o_kind x = MACH_IMM" if "x \<in> set (mi_operands d)" for x
    using assms(1) defines_kinds [OF _ that] unfolding constant_ok_def defines_constant_def by blast
  have ops: "\<exists>y \<in> set (mi_operands d). x = y \<or> x = y\<lparr>o_reg := made\<rparr>" if "x \<in> set (mi_operands (redefine td made d))" for x
    using that by (auto simp: redefine_def dest!: operands_in_zip split: if_splits)
  have ok: "moperand_ok c y" if "y \<in> set (mi_operands d)" for y
    using assms(1) that by (auto simp: constant_ok_def minst_ok_def list_all_iff)
  have kinds': "o_kind x = MACH_VREG \<or> o_kind x = MACH_IMM" if "x \<in> set (mi_operands (redefine td made d))" for x
  proof -
    from ops [OF that] obtain y where "y \<in> set (mi_operands d)" "x = y \<or> x = y\<lparr>o_reg := made\<rparr>" ..
    then have "o_kind x = o_kind y" by auto
    then show ?thesis using kinds [OF \<open>y \<in> set (mi_operands d)\<close>] by simp
  qed
  show t: "branch_targets td (redefine td made d) = []"
    using kinds' by (fastforce simp: branch_targets_def filter_empty_conv)
  have "moperand_ok c' x" if "x \<in> set (mi_operands (redefine td made d))" for x
  proof -
    from ops [OF that] obtain y where y: "y \<in> set (mi_operands d)" "x = y \<or> x = y\<lparr>o_reg := made\<rparr>" ..
    have "moperand_ok c' y" using moperand_ok_mono [OF ok [OF y(1)]] assms(2,3) by simp
    with y(2) kinds [OF y(1)] assms(3) show ?thesis by (auto simp: moperand_ok_def)
  qed
  with t show "minst_ok td c' n (redefine td made d)" by (simp add: minst_ok_def list_all_iff)
qed

definition replacing_ok :: "'op target_desc \<Rightarrow> nat \<Rightarrow> nat \<Rightarrow> nat list \<Rightarrow> 'op mach_inst \<Rightarrow> nat \<Rightarrow> 'op rebuild \<Rightarrow> bool" where
  "replacing_ok td c n ts inst0 j st \<longleftrightarrow>
     (case st of (f, b, inst) \<Rightarrow>
        rebuilt_ok td c n ts (f, b) \<and> minst_ok td (vreg_count f) n inst \<and>
        branch_targets td inst = branch_targets td inst0 \<and> length (mi_operands inst) = length (mi_operands inst0) \<and>
        (\<forall>k. j \<le> k \<longrightarrow> mi_operands inst ! k = mi_operands inst0 ! k))"

lemma minst_ok_update:
  assumes "minst_ok td c n inst" "j < length (mi_operands inst)" "o_kind (mi_operands inst ! j) = MACH_VREG"
    "o_kind y = MACH_VREG" "o_reg y < c" "branch_targets td (inst\<lparr>mi_operands := (mi_operands inst)[j := y]\<rparr>) = branch_targets td inst"
  shows "minst_ok td c n (inst\<lparr>mi_operands := (mi_operands inst)[j := y]\<rparr>)"
proof -
  have "moperand_ok c x" if "x \<in> set ((mi_operands inst)[j := y])" for x
    using that set_update_subset_insert [of "mi_operands inst" j y] assms(1,4,5)
    by (cases "x = y") (auto simp: minst_ok_def list_all_iff moperand_ok_def [of c y])
  then show ?thesis using assms(1,6) by (simp add: minst_ok_def list_all_iff)
qed

lemma branch_targets_update:
  assumes "j < length (mi_operands inst)" "o_kind (mi_operands inst ! j) = MACH_VREG" "o_kind y = MACH_VREG"
  shows "branch_targets td (inst\<lparr>mi_operands := (mi_operands inst)[j := y]\<rparr>) = branch_targets td inst"
proof -
  have "filter (\<lambda>x. o_kind x = MACH_BLOCK) (xs[j := y]) = filter (\<lambda>x. o_kind x = MACH_BLOCK) xs"
    if "j < length xs" "o_kind (xs ! j) = MACH_VREG" for xs
  proof -
    have "filter (\<lambda>x. o_kind x = MACH_BLOCK) xs =
        filter (\<lambda>x. o_kind x = MACH_BLOCK) (take j xs @ xs ! j # drop (Suc j) xs)"
      using that(1) by (simp add: id_take_nth_drop [symmetric])
    then show ?thesis by (simp add: upd_conv_take_nth_drop [OF that(1)] that(2) assms(3))
  qed
  then show ?thesis using assms by (simp add: branch_targets_def opcode_def)
qed

lemma replace_use_ok:
  assumes inv: "replacing_ok td c n ts inst0 j (f, b, inst)" and j: "j < length (mi_operands inst0)"
    and ds: "defs_ok td c n ds" and ok0: "minst_ok td c n inst0"
  shows "replacing_ok td c n ts inst0 (Suc j) (replace_use td ds many (f, b, inst) j)"
proof -
  let ?x = "mi_operands inst ! j"
  have jl: "j < length (mi_operands inst)" and b: "rebuilt_ok td c n ts (f, b)" and ok: "minst_ok td (vreg_count f) n inst"
    and t: "branch_targets td inst = branch_targets td inst0" and x0: "?x = mi_operands inst0 ! j"
    using inv j by (simp_all add: replacing_ok_def)
  show ?thesis
  proof (cases "o_kind ?x \<noteq> MACH_VREG \<or> \<not> has_role (opcode td inst) j ROLE_USE \<or> many ! o_reg ?x \<or> ds ! o_reg ?x = None")
    case True
    then have "replace_use td ds many (f, b, inst) j = (f, b, inst)"
      by (auto simp: replace_use_def Let_def split: option.split)
    with inv show ?thesis by (simp add: replacing_ok_def)
  next
    case False
    then obtain d where d: "ds ! o_reg ?x = Some d" and x: "o_kind ?x = MACH_VREG" by auto
    obtain f1 made where m: "mach_vreg_add f (mf_fp f ! o_reg ?x) = (f1, made)"
      by (cases "mach_vreg_add f (mf_fp f ! o_reg ?x)")
    have made: "made = vreg_count f" "vreg_count f1 = Suc (vreg_count f)"
      using m by (auto simp: mach_vreg_add_def vreg_count_def)
    let ?new = "inst\<lparr>mi_operands := (mi_operands inst)[j := ?x\<lparr>o_reg := made\<rparr>]\<rparr>"
    have r: "replace_use td ds many (f, b, inst) j = (f1, mach_append b (redefine td made d), ?new)"
      using False d m by (simp add: replace_use_def Let_def)
    have c: "c \<le> vreg_count f" using b by (simp add: rebuilt_ok_def)
    have "o_reg ?x < c" using ok0 j x by (simp add: minst_ok_def list_all_length x0 moperand_ok_def)
    then have "Some d \<in> set ds" using d ds by (metis defs_ok_def nth_mem)
    then have "constant_ok td c n d" using ds by (simp add: defs_ok_def)
    note R = redefine_ok [OF this, of made "vreg_count f1", unfolded made]
    have "rebuilt_ok td c n ts (f1, b)" using rebuilt_vreg(1) [OF b, of "mf_fp f ! o_reg ?x"] m by simp
    from rebuilt_append [OF this, of "redefine td made d"] R c made
    have b1: "rebuilt_ok td c n ts (f1, mach_append b (redefine td made d))" by simp
    have t1: "branch_targets td ?new = branch_targets td inst"
      by (rule branch_targets_update [OF jl x]) (simp add: x)
    have "minst_ok td (vreg_count f1) n ?new"
      by (rule minst_ok_update [OF minst_ok_mono [OF ok] jl x _ _ t1]) (simp_all add: made x)
    with b1 t1 t inv show ?thesis by (simp add: r replacing_ok_def)
  qed
qed

lemma rebuild_inst_ok:
  assumes inv: "rebuilt_ok td c n ts (f, b)" and ok: "minst_ok td c n inst" and ds: "defs_ok td c n ds"
  shows "rebuilt_ok td c n (ts @ branch_targets td inst) (rebuild_inst td ds many (f, b) inst)"
proof -
  let ?g = "replace_use td ds many"
  have "replacing_ok td c n ts inst k (foldl ?g (f, b, inst) [0..<k])" if "k \<le> length (mi_operands inst)" for k
    using that
  proof (induction k)
    case 0
    then show ?case using inv minst_ok_mono [OF ok] by (simp add: replacing_ok_def rebuilt_ok_def)
  next
    case (Suc k)
    then show ?case
      using replace_use_ok [OF _ _ ds ok, of ts k] by (cases "foldl ?g (f, b, inst) [0..<k]") simp
  qed
  from this [OF order_refl] obtain f1 b1 inst1
    where r: "foldl ?g (f, b, inst) [0..<length (mi_operands inst)] = (f1, b1, inst1)"
    and R: "replacing_ok td c n ts inst (length (mi_operands inst)) (f1, b1, inst1)"
    by (cases "foldl ?g (f, b, inst) [0..<length (mi_operands inst)]") simp
  then have b1: "rebuilt_ok td c n ts (f1, b1)" "minst_ok td (vreg_count f1) n inst1"
    "branch_targets td inst1 = branch_targets td inst" by (simp_all add: replacing_ok_def)
  obtain df v where dc: "defines_constant td inst1 0 = (df, v)" by (cases "defines_constant td inst1 0")
  have res: "rebuild_inst td ds many (f, b) inst = (if df \<and> \<not> many ! v then (f1, b1) else (f1, mach_append b1 inst1))"
    by (simp add: rebuild_inst_def r dc)
  show ?thesis
  proof (cases "df \<and> \<not> many ! v")
    case True
    then have "branch_targets td inst = []" using constant_no_targets [of td inst1 0] b1(3) dc by simp
    with True b1(1) show ?thesis by (simp add: res)
  next
    case False
    then show ?thesis using rebuilt_append [OF b1(1,2)] b1(3) by (auto simp: res)
  qed
qed

lemma rebuild_insts_ok:
  assumes "rebuilt_ok td c n ts st" "\<forall>inst \<in> set insts. minst_ok td c n inst" "defs_ok td c n ds"
  shows "rebuilt_ok td c n (ts @ concat (map (branch_targets td) insts)) (foldl (rebuild_inst td ds many) st insts)"
  using assms
proof (induction insts arbitrary: ts st)
  case (Cons inst insts)
  have "rebuilt_ok td c n (ts @ branch_targets td inst) (rebuild_inst td ds many st inst)"
    using rebuild_inst_ok [of td c n ts "fst st" "snd st" inst] Cons.prems by simp
  from Cons.IH [OF this] Cons.prems(2,3) show ?case by simp
qed simp

text \<open>The blocks of the function.\<close>

definition remat_ok :: "'op target_desc \<Rightarrow> 'op mach_function \<Rightarrow> 'op mach_function \<Rightarrow> bool" where
  "remat_ok td f g \<longleftrightarrow> mach_ok td g \<and> vreg_count f \<le> vreg_count g \<and> length (mf_blocks g) = length (mf_blocks f)"

lemma replace_use_blocks: "mf_blocks (fst (replace_use td ds many st j)) = mf_blocks (fst st)"
  by (simp add: replace_use_def Let_def mach_vreg_add_def split: prod.splits option.splits)

lemma rebuild_blocks: "mf_blocks (fst (foldl (rebuild_inst td ds many) st insts)) = mf_blocks (fst st)"
proof -
  have fold: "mf_blocks (fst (foldl (replace_use td ds many) s js)) = mf_blocks (fst s)" for s js
    by (induction js arbitrary: s) (simp_all add: replace_use_blocks)
  have "mf_blocks (fst (rebuild_inst td ds many s inst)) = mf_blocks (fst s)" for s inst
    using fold [of "(fst s, snd s, inst)" "[0..<length (mi_operands inst)]"]
    by (auto simp: rebuild_inst_def split: prod.splits)
  then show ?thesis by (induction insts arbitrary: st) simp_all
qed

lemma rebuild_block_ok:
  assumes inv: "remat_ok td f g" and b: "b < length (mf_blocks f)" and same: "mf_blocks g ! b = mf_blocks f ! b"
    and ok: "mach_ok td f" and ds: "defs_ok td (vreg_count f) (length (mf_blocks f)) ds"
  shows "remat_ok td f (rebuild_block td ds many g b) \<and>
     (\<forall>c. c \<noteq> b \<longrightarrow> mf_blocks (rebuild_block td ds many g b) ! c = mf_blocks g ! c)"
proof -
  let ?n = "length (mf_blocks f)" and ?c = "vreg_count f" and ?insts = "mb_insts (mf_blocks g ! b)"
  obtain h r where hr: "foldl (rebuild_inst td ds many)
      (g, \<lparr>mb_insts = [], mb_loop_depth = mb_loop_depth (mf_blocks g ! b)\<rparr>) ?insts = (h, r)"
    by (cases "foldl (rebuild_inst td ds many)
      (g, \<lparr>mb_insts = [], mb_loop_depth = mb_loop_depth (mf_blocks g ! b)\<rparr>) ?insts")
  have old: "\<forall>inst \<in> set ?insts. minst_ok td ?c ?n inst" "length (concat (map (branch_targets td) ?insts)) \<le> 2"
    using mach_okD [OF ok b] same by (simp_all add: targets_of_def block_insts_def)
  have "rebuilt_ok td ?c ?n [] (g, \<lparr>mb_insts = [], mb_loop_depth = mb_loop_depth (mf_blocks g ! b)\<rparr>)"
    using inv by (simp add: rebuilt_ok_def remat_ok_def)
  from rebuild_insts_ok [OF this old(1) ds, of many]
  have new: "rebuilt_ok td ?c ?n (concat (map (branch_targets td) ?insts)) (h, r)" by (simp add: hr)
  have blocks: "mf_blocks h = mf_blocks g"
    using rebuild_blocks [of td ds many "(g, \<lparr>mb_insts = [], mb_loop_depth = mb_loop_depth (mf_blocks g ! b)\<rparr>)" ?insts]
    by (simp add: hr)
  have count: "vreg_count g \<le> vreg_count h"
  proof -
    have use: "vreg_count (fst s) \<le> vreg_count (fst (replace_use td ds many s j))" for s :: "'a rebuild" and j
      by (auto simp: replace_use_def Let_def mach_vreg_add_def vreg_count_def split: prod.splits option.splits)
    have uses: "vreg_count (fst s) \<le> vreg_count (fst (foldl (replace_use td ds many) s js))" for s :: "'a rebuild" and js
      by (rule foldl_increases [where m = "\<lambda>s. vreg_count (fst s)"]) (rule use)
    have one: "vreg_count (fst s) \<le> vreg_count (fst (rebuild_inst td ds many s inst))" for s inst
      using uses [of "(fst s, snd s, inst)" "[0..<length (mi_operands inst)]"]
      by (auto simp: rebuild_inst_def split: prod.splits)
    have "vreg_count (fst s) \<le> vreg_count (fst (foldl (rebuild_inst td ds many) s insts))" for s insts
      by (rule foldl_increases [where m = "\<lambda>s. vreg_count (fst s)"]) (rule one)
    from this [of "(g, \<lparr>mb_insts = [], mb_loop_depth = mb_loop_depth (mf_blocks g ! b)\<rparr>)" ?insts] hr
    show ?thesis by simp
  qed
  have res: "rebuild_block td ds many g b = h\<lparr>mf_blocks := (mf_blocks g)[b := r]\<rparr>"
    by (simp add: rebuild_block_def Let_def hr blocks)
  define P where "P block \<longleftrightarrow> list_all (minst_ok td (vreg_count h) ?n) (mb_insts block) \<and>
      length (concat (map (branch_targets td) (mb_insts block))) \<le> 2" for block :: "'a mach_block"
  have g: "mach_ok td g" "length (mf_blocks g) = ?n" using inv by (simp_all add: remat_ok_def)
  have others: "P (mf_blocks g ! c)" if "c < ?n" for c
  proof -
    note d = mach_okD [OF g(1), of c, unfolded g(2), OF that]
    from d(2) minst_ok_mono [OF _ count] d(1) show ?thesis
      by (auto simp: P_def list_all_iff block_insts_def targets_of_def)
  qed
  have "P r" using new old(2) by (simp add: P_def rebuilt_ok_def)
  with others have "P ((mf_blocks g)[b := r] ! c)" if "c < ?n" for c
    using that g(2) by (cases "c = b") auto
  then have "mach_ok td (h\<lparr>mf_blocks := (mf_blocks g)[b := r]\<rparr>)"
    by (simp add: mach_ok_def list_all_length [where xs = "(mf_blocks g)[b := r]"] P_def g(2) vreg_count_def)
  moreover have "vreg_count (h\<lparr>mf_blocks := (mf_blocks g)[b := r]\<rparr>) = vreg_count h" by (simp add: vreg_count_def)
  ultimately show ?thesis using inv count by (auto simp: res remat_ok_def)
qed

lemma remat_keeps_ok:
  assumes ok: "mach_ok td f"
  shows "remat_ok td f (rematerialise_constants td f)"
proof -
  obtain ds once many where c: "constants td f = (ds, once, many)" by (cases "constants td f")
  have ds: "defs_ok td (vreg_count f) (length (mf_blocks f)) ds" using constants_ok [OF ok] by (simp add: c)
  have "remat_ok td f (foldl (rebuild_block td ds many) f [0..<n]) \<and>
      (\<forall>b. n \<le> b \<longrightarrow> mf_blocks (foldl (rebuild_block td ds many) f [0..<n]) ! b = mf_blocks f ! b)"
    if "n \<le> length (mf_blocks f)" for n
    using that
  proof (induction n)
    case 0
    then show ?case using ok by (simp add: remat_ok_def)
  next
    case (Suc n)
    then show ?case
      using rebuild_block_ok [of td f "foldl (rebuild_block td ds many) f [0..<n]" n ds many] ok ds by simp
  qed
  from this [OF order_refl] show ?thesis by (simp add: rematerialise_constants_def c)
qed

end
