(* ===== verification/X64.thy ===== *)
theory X64
  imports Mach
begin

text \<open>
  The parts of \<open>src/x86_64.c\<close> that register allocation uses: the opcodes, the registers of the two
  conventions, the spills and the frames. Register numbers follow the instruction encoding.
\<close>

section \<open>Registers and opcodes\<close>

abbreviation RAX :: nat where "RAX \<equiv> 0"
abbreviation RCX :: nat where "RCX \<equiv> 1"
abbreviation RDX :: nat where "RDX \<equiv> 2"
abbreviation RBX :: nat where "RBX \<equiv> 3"
abbreviation RSP :: nat where "RSP \<equiv> 4"
abbreviation RBP :: nat where "RBP \<equiv> 5"
abbreviation RSI :: nat where "RSI \<equiv> 6"
abbreviation RDI :: nat where "RDI \<equiv> 7"
abbreviation R8 :: nat where "R8 \<equiv> 8"
abbreviation R9 :: nat where "R9 \<equiv> 9"
abbreviation R10 :: nat where "R10 \<equiv> 10"
abbreviation R11 :: nat where "R11 \<equiv> 11"
abbreviation R12 :: nat where "R12 \<equiv> 12"
abbreviation R13 :: nat where "R13 \<equiv> 13"
abbreviation R14 :: nat where "R14 \<equiv> 14"
abbreviation R15 :: nat where "R15 \<equiv> 15"
abbreviation XMM0 :: nat where "XMM0 \<equiv> 16"

datatype (plugins only: code size) x64_op =
    X64_MOV | X64_MOVABS | X64_ADD | X64_SUB | X64_IMUL | X64_IMUL3 | X64_AND | X64_OR
  | X64_XOR | X64_NEG | X64_NOT | X64_CMP | X64_TEST | X64_SET | X64_JMP | X64_J | X64_CALL
  | X64_CALLR | X64_RET | X64_LEA | X64_PUSH | X64_POP | X64_CQTO | X64_CLTD | X64_IDIV
  | X64_DIV | X64_SHL | X64_SAR | X64_SHR | X64_MOVSX | X64_MOVZX | X64_MOVS | X64_ADDS
  | X64_SUBS | X64_MULS | X64_DIVS | X64_UCOMIS | X64_CVTSI2S | X64_CVTTS2SI | X64_CVTS2S
  | X64_MOVQX | X64_XORP | X64_ANDP | X64_ANDNP | X64_ORP | X64_MOVUPS | X64_CMOV
  | X64_MOVL | X64_SEH_PUSHREG | X64_SEH_STACKALLOC | X64_SEH_SAVEREG | X64_SEH_SAVEXMM
  | X64_SEH_ENDPROLOGUE

fun x64_opcodes :: "x64_op \<Rightarrow> mach_opcode" where
  "x64_opcodes X64_MOV = opcode_row ''mov'' [{ROLE_DEF}, {ROLE_USE}] {FLAG_MOVE}"
| "x64_opcodes X64_MOVABS = opcode_row ''movabs'' [{ROLE_DEF}] {}"
| "x64_opcodes X64_ADD = opcode_row ''add'' [{ROLE_USE, ROLE_DEF}, {ROLE_USE}] {}"
| "x64_opcodes X64_SUB = opcode_row ''sub'' [{ROLE_USE, ROLE_DEF}, {ROLE_USE}] {}"
| "x64_opcodes X64_IMUL = opcode_row ''imul'' [{ROLE_USE, ROLE_DEF}, {ROLE_USE}] {}"
| "x64_opcodes X64_IMUL3 = opcode_row ''imul'' [{ROLE_DEF}, {ROLE_USE}] {}"
| "x64_opcodes X64_AND = opcode_row ''and'' [{ROLE_USE, ROLE_DEF}, {ROLE_USE}] {}"
| "x64_opcodes X64_OR = opcode_row ''or'' [{ROLE_USE, ROLE_DEF}, {ROLE_USE}] {}"
| "x64_opcodes X64_XOR = opcode_row ''xor'' [{ROLE_USE, ROLE_DEF}, {ROLE_USE}] {}"
| "x64_opcodes X64_NEG = opcode_row ''neg'' [{ROLE_USE, ROLE_DEF}] {}"
| "x64_opcodes X64_NOT = opcode_row ''not'' [{ROLE_USE, ROLE_DEF}] {}"
| "x64_opcodes X64_CMP = opcode_row ''cmp'' [{ROLE_USE}, {ROLE_USE}] {}"
| "x64_opcodes X64_TEST = opcode_row ''test'' [{ROLE_USE}, {ROLE_USE}] {}"
| "x64_opcodes X64_SET = opcode_row ''set'' [{ROLE_DEF}] {}"
| "x64_opcodes X64_JMP = opcode_row ''jmp'' [] {FLAG_JUMP}"
| "x64_opcodes X64_J = opcode_row ''j'' [] {FLAG_BRANCH}"
| "x64_opcodes X64_CALL = opcode_row ''call'' [] {FLAG_CALL}"
| "x64_opcodes X64_CALLR = opcode_row ''call'' [{ROLE_USE}] {FLAG_CALL}"
| "x64_opcodes X64_RET = opcode_row ''ret'' [] {FLAG_RET}"
| "x64_opcodes X64_LEA = opcode_row ''lea'' [{ROLE_DEF}] {}"
| "x64_opcodes X64_PUSH = opcode_row ''push'' [{ROLE_USE}] {}"
| "x64_opcodes X64_POP = opcode_row ''pop'' [{ROLE_DEF}] {}"
| "x64_opcodes X64_CQTO = opcode_row ''cqto'' [] {}"
| "x64_opcodes X64_CLTD = opcode_row ''cltd'' [] {}"
| "x64_opcodes X64_IDIV = opcode_row ''idiv'' [{ROLE_USE}] {}"
| "x64_opcodes X64_DIV = opcode_row ''div'' [{ROLE_USE}] {}"
| "x64_opcodes X64_SHL = opcode_row ''shl'' [{ROLE_USE, ROLE_DEF}, {ROLE_USE}] {}"
| "x64_opcodes X64_SAR = opcode_row ''sar'' [{ROLE_USE, ROLE_DEF}, {ROLE_USE}] {}"
| "x64_opcodes X64_SHR = opcode_row ''shr'' [{ROLE_USE, ROLE_DEF}, {ROLE_USE}] {}"
| "x64_opcodes X64_MOVSX = opcode_row ''movs'' [{ROLE_DEF}, {ROLE_USE}] {}"
| "x64_opcodes X64_MOVZX = opcode_row ''movz'' [{ROLE_DEF}, {ROLE_USE}] {}"
| "x64_opcodes X64_MOVS = opcode_row ''movs'' [{ROLE_DEF}, {ROLE_USE}] {FLAG_MOVE}"
| "x64_opcodes X64_ADDS = opcode_row ''adds'' [{ROLE_USE, ROLE_DEF}, {ROLE_USE}] {}"
| "x64_opcodes X64_SUBS = opcode_row ''subs'' [{ROLE_USE, ROLE_DEF}, {ROLE_USE}] {}"
| "x64_opcodes X64_MULS = opcode_row ''muls'' [{ROLE_USE, ROLE_DEF}, {ROLE_USE}] {}"
| "x64_opcodes X64_DIVS = opcode_row ''divs'' [{ROLE_USE, ROLE_DEF}, {ROLE_USE}] {}"
| "x64_opcodes X64_UCOMIS = opcode_row ''ucomis'' [{ROLE_USE}, {ROLE_USE}] {}"
| "x64_opcodes X64_CVTSI2S = opcode_row ''cvtsi2s'' [{ROLE_DEF}, {ROLE_USE}] {}"
| "x64_opcodes X64_CVTTS2SI = opcode_row ''cvtts'' [{ROLE_DEF}, {ROLE_USE}] {}"
| "x64_opcodes X64_CVTS2S = opcode_row ''cvts'' [{ROLE_DEF}, {ROLE_USE}] {}"
| "x64_opcodes X64_MOVQX = opcode_row ''mov'' [{ROLE_DEF}, {ROLE_USE}] {}"
| "x64_opcodes X64_XORP = opcode_row ''xorp'' [{ROLE_USE, ROLE_DEF}, {ROLE_USE}] {}"
| "x64_opcodes X64_ANDP = opcode_row ''andp'' [{ROLE_USE, ROLE_DEF}, {ROLE_USE}] {}"
| "x64_opcodes X64_ANDNP = opcode_row ''andnp'' [{ROLE_USE, ROLE_DEF}, {ROLE_USE}] {}"
| "x64_opcodes X64_ORP = opcode_row ''orp'' [{ROLE_USE, ROLE_DEF}, {ROLE_USE}] {}"
| "x64_opcodes X64_MOVUPS = opcode_row ''movups'' [{ROLE_DEF}, {ROLE_USE}] {}"
| "x64_opcodes X64_CMOV = opcode_row ''cmov'' [{ROLE_USE, ROLE_DEF}, {ROLE_USE}] {}"
| "x64_opcodes X64_MOVL = opcode_row ''mov'' [{ROLE_DEF}, {ROLE_USE}] {}"
| "x64_opcodes X64_SEH_PUSHREG = opcode_row ''.seh_pushreg'' [] {}"
| "x64_opcodes X64_SEH_STACKALLOC = opcode_row ''.seh_stackalloc'' [] {}"
| "x64_opcodes X64_SEH_SAVEREG = opcode_row ''.seh_savereg'' [] {}"
| "x64_opcodes X64_SEH_SAVEXMM = opcode_row ''.seh_savexmm'' [] {}"
| "x64_opcodes X64_SEH_ENDPROLOGUE = opcode_row ''.seh_endprologue'' [] {}"

section \<open>Conventions\<close>

definition sysv_allocatable :: "nat list" where
  "sysv_allocatable = [RAX, RCX, RDX, RSI, RDI, R8, R9, RBX, R12, R13, R14, R15]"

definition windows_allocatable :: "nat list" where
  "windows_allocatable = [RAX, RCX, RDX, R8, R9, RBX, RSI, RDI, R12, R13, R14, R15]"

definition sysv_fp_allocatable :: "nat list" where
  "sysv_fp_allocatable = map (\<lambda>n. XMM0 + n) [0, 1, 2, 3, 4, 5, 6, 7, 8, 9, 10, 11, 12, 13]"

definition windows_fp_allocatable :: "nat list" where
  "windows_fp_allocatable = map (\<lambda>n. XMM0 + n) [0, 1, 2, 3, 6, 7, 8, 9, 10, 11, 12, 13, 14, 15]"

definition sysv :: abi where
  "sysv = \<lparr>ab_callee_saved = reg_set [RBX, R12, R13, R14, R15], ab_allocatable = sysv_allocatable,
     ab_scratch = [R10, R11], ab_shadow_space = 0, ab_probe_stack = False,
     ab_fp_allocatable = sysv_fp_allocatable, ab_fp_scratch = [XMM0 + 14, XMM0 + 15], ab_fp_save_size = 8\<rparr>"

definition windows_x64 :: abi where
  "windows_x64 =
     \<lparr>ab_callee_saved = reg_set [RBX, RSI, RDI, R12, R13, R14, R15] OR push_bit (XMM0 + 6) 0x3ff,
      ab_allocatable = windows_allocatable, ab_scratch = [R10, R11], ab_shadow_space = 32,
      ab_probe_stack = True, ab_fp_allocatable = windows_fp_allocatable,
      ab_fp_scratch = [XMM0 + 4, XMM0 + 5], ab_fp_save_size = 16\<rparr>"

definition x64_abi :: "convention \<Rightarrow> abi" where
  "x64_abi conv = (if conv = CONVENTION_WINDOWS_X64 then windows_x64 else sysv)"

section \<open>Spills\<close>

definition x64_stack :: "int \<Rightarrow> mach_operand" where
  "x64_stack offset = (mach_preg RSP 64)\<lparr>o_kind := MACH_MEM, o_value := offset\<rparr>"

definition x64_load_spill :: "x64_op mach_block \<Rightarrow> nat \<Rightarrow> int \<Rightarrow> x64_op mach_block" where
  "x64_load_spill b reg offset =
     append_op (if reg \<ge> XMM0 then X64_MOVS else X64_MOV) [mach_preg reg 64, x64_stack offset] b"

definition x64_store_spill :: "x64_op mach_block \<Rightarrow> nat \<Rightarrow> int \<Rightarrow> x64_op mach_block" where
  "x64_store_spill b reg offset =
     append_op (if reg \<ge> XMM0 then X64_MOVS else X64_MOV) [x64_stack offset, mach_preg reg 64] b"

definition x64_save_register :: "x64_op mach_block \<Rightarrow> nat \<Rightarrow> int \<Rightarrow> bool \<Rightarrow> x64_op mach_block" where
  "x64_save_register b reg offset restore =
     (if reg < XMM0 then if restore then x64_load_spill b reg offset else x64_store_spill b reg offset
      else append_op X64_MOVUPS
             (if restore then [mach_preg reg 64, x64_stack offset] else [x64_stack offset, mach_preg reg 64]) b)"

definition x64_resolve_slot :: "mach_operand \<Rightarrow> int \<Rightarrow> mach_operand" where
  "x64_resolve_slot x offset = x64_stack offset"

section \<open>Frames\<close>

text \<open>The call of the probe reads \<open>RAX\<close>.\<close>

definition x64_allocate_frame :: "x64_op mach_block \<Rightarrow> frame \<Rightarrow> x64_op mach_block" where
  "x64_allocate_frame b fr =
     (if \<not> fr_probe fr then append_op X64_SUB [mach_preg RSP 64, mach_imm (sint (fr_size fr))] b
      else
        let b = append_op X64_MOV [mach_preg RAX 32, mach_imm (sint (fr_size fr))] b;
            b = mach_append b \<lparr>mi_op = X64_CALL,
                  mi_operands = [no_operand\<lparr>o_kind := MACH_NAME, o_name := ''__chkstk''\<rparr>],
                  mi_uses = reg_set [RAX], mi_defs = 0\<rparr>
        in append_op X64_SUB [mach_preg RSP 64, mach_preg RAX 64] b)"

definition x64_unwind :: "frame \<Rightarrow> x64_op \<Rightarrow> mach_operand list \<Rightarrow> x64_op mach_block \<Rightarrow> x64_op mach_block" where
  "x64_unwind fr op operands b = (if fr_unwind fr then append_op op operands b else b)"

definition x64_save :: "frame \<Rightarrow> x64_op mach_block \<Rightarrow> nat \<times> int \<Rightarrow> x64_op mach_block" where
  "x64_save fr b p =
     (case p of (reg, offset) \<Rightarrow>
        x64_unwind fr (if reg \<ge> XMM0 then X64_SEH_SAVEXMM else X64_SEH_SAVEREG)
          [mach_preg reg 64, mach_imm offset] (x64_save_register b reg offset False))"

definition x64_prologue :: "x64_op mach_block \<Rightarrow> frame \<Rightarrow> x64_op mach_block" where
  "x64_prologue b fr =
     (if \<not> fr_needed fr then b
      else
        let rbp = mach_preg RBP 64;
            b = x64_unwind fr X64_SEH_PUSHREG [rbp] (append_op X64_PUSH [rbp] b);
            b = append_op X64_MOV [rbp, mach_preg RSP 64] b;
            b = (if fr_size fr > 0
                 then x64_unwind fr X64_SEH_STACKALLOC [mach_imm (sint (fr_size fr))] (x64_allocate_frame b fr)
                 else b);
            b = foldl (x64_save fr) b (zip (fr_saved fr) (fr_saved_offset fr))
        in x64_unwind fr X64_SEH_ENDPROLOGUE [] b)"

definition x64_epilogue :: "x64_op mach_block \<Rightarrow> frame \<Rightarrow> x64_op mach_block" where
  "x64_epilogue b fr =
     (if \<not> fr_needed fr then b
      else
        let b = foldl (\<lambda>b (reg, offset). x64_save_register b reg offset True) b
                  (zip (fr_saved fr) (fr_saved_offset fr));
            b = (if fr_size fr > 0
                 then if fr_unwind fr then append_op X64_ADD [mach_preg RSP 64, mach_imm (sint (fr_size fr))] b
                      else append_op X64_MOV [mach_preg RSP 64, mach_preg RBP 64] b
                 else b)
        in append_op X64_POP [mach_preg RBP 64] b)"

definition target_desc_x86_64 :: "x64_op target_desc" where
  "target_desc_x86_64 =
     \<lparr>td_name = ''x86_64'', td_opcodes = x64_opcodes, td_abi = x64_abi, td_frame_limit = 0x7fffffff,
      td_load_spill = x64_load_spill, td_store_spill = x64_store_spill, td_resolve_slot = x64_resolve_slot,
      td_expand = None, td_prologue = x64_prologue, td_epilogue = x64_epilogue\<rparr>"

end
