(* ===== verification/A64.thy ===== *)
theory A64
  imports Mach
begin

text \<open>
  The parts of \<open>src/arm64.c\<close> that register allocation uses: the opcodes, the registers of the three
  conventions, the spills and the frames. Register \<open>n\<close> is \<open>Xn\<close>, 31 is the stack pointer, and the
  float registers have the numbers \<open>32 + n\<close>.
\<close>

section \<open>Registers and opcodes\<close>

abbreviation X0 :: nat where "X0 \<equiv> 0"
abbreviation X15 :: nat where "X15 \<equiv> 15"
abbreviation X16 :: nat where "X16 \<equiv> 16"
abbreviation X17 :: nat where "X17 \<equiv> 17"
abbreviation X29 :: nat where "X29 \<equiv> 29"
abbreviation X30 :: nat where "X30 \<equiv> 30"
abbreviation SP :: nat where "SP \<equiv> 31"
abbreviation V0 :: nat where "V0 \<equiv> 32"

datatype (plugins only: code size) a64_op =
    A64_MOV | A64_MOVZ | A64_MOVK | A64_ADD | A64_SUB | A64_MUL | A64_AND | A64_ORR | A64_EOR
  | A64_NEG | A64_MVN | A64_CMP | A64_CSET | A64_B | A64_BCOND | A64_CBZ | A64_CBNZ
  | A64_BL | A64_BLR | A64_LDRGOT | A64_RET | A64_LDR | A64_STR | A64_STP | A64_LDP
  | A64_CMN | A64_SXTB | A64_SXTH | A64_SXTW | A64_UXTB | A64_UXTH | A64_SDIV | A64_UDIV
  | A64_MSUB | A64_LSL | A64_ASR | A64_LSR | A64_ADRP | A64_FADD | A64_FSUB | A64_FMUL
  | A64_FDIV | A64_FNEG | A64_FMOV | A64_FCMP | A64_SCVTF | A64_UCVTF | A64_FCVTZS
  | A64_FCVTZU | A64_FCVT | A64_MOVW | A64_SEH_SAVE_FPLR_X | A64_SEH_STACKALLOC
  | A64_SEH_SAVE_REG | A64_SEH_SAVE_FREG | A64_SEH_SET_FP | A64_SEH_ADD_FP | A64_SEH_NOP
  | A64_SEH_ENDPROLOGUE | A64_SEH_STARTEPILOGUE | A64_SEH_ENDEPILOGUE

fun a64_opcodes :: "a64_op \<Rightarrow> mach_opcode" where
  "a64_opcodes A64_MOV = opcode_row ''mov'' [{ROLE_DEF}, {ROLE_USE}] {FLAG_MOVE}"
| "a64_opcodes A64_MOVZ = opcode_row ''movz'' [{ROLE_DEF}] {}"
| "a64_opcodes A64_MOVK = opcode_row ''movk'' [{ROLE_USE, ROLE_DEF}] {}"
| "a64_opcodes A64_ADD = opcode_row ''add'' [{ROLE_DEF}, {ROLE_USE}, {ROLE_USE}] {}"
| "a64_opcodes A64_SUB = opcode_row ''sub'' [{ROLE_DEF}, {ROLE_USE}, {ROLE_USE}] {}"
| "a64_opcodes A64_MUL = opcode_row ''mul'' [{ROLE_DEF}, {ROLE_USE}, {ROLE_USE}] {}"
| "a64_opcodes A64_AND = opcode_row ''and'' [{ROLE_DEF}, {ROLE_USE}, {ROLE_USE}] {}"
| "a64_opcodes A64_ORR = opcode_row ''orr'' [{ROLE_DEF}, {ROLE_USE}, {ROLE_USE}] {}"
| "a64_opcodes A64_EOR = opcode_row ''eor'' [{ROLE_DEF}, {ROLE_USE}, {ROLE_USE}] {}"
| "a64_opcodes A64_NEG = opcode_row ''neg'' [{ROLE_DEF}, {ROLE_USE}] {}"
| "a64_opcodes A64_MVN = opcode_row ''mvn'' [{ROLE_DEF}, {ROLE_USE}] {}"
| "a64_opcodes A64_CMP = opcode_row ''cmp'' [{ROLE_USE}, {ROLE_USE}] {}"
| "a64_opcodes A64_CSET = opcode_row ''cset'' [{ROLE_DEF}] {}"
| "a64_opcodes A64_B = opcode_row ''b'' [] {FLAG_JUMP}"
| "a64_opcodes A64_BCOND = opcode_row ''b.'' [] {FLAG_BRANCH}"
| "a64_opcodes A64_CBZ = opcode_row ''cbz'' [{ROLE_USE}] {FLAG_BRANCH}"
| "a64_opcodes A64_CBNZ = opcode_row ''cbnz'' [{ROLE_USE}] {FLAG_BRANCH}"
| "a64_opcodes A64_BL = opcode_row ''bl'' [] {FLAG_CALL}"
| "a64_opcodes A64_BLR = opcode_row ''blr'' [{ROLE_USE}] {FLAG_CALL}"
| "a64_opcodes A64_LDRGOT = opcode_row ''ldr'' [{ROLE_DEF}, {ROLE_USE}] {}"
| "a64_opcodes A64_RET = opcode_row ''ret'' [] {FLAG_RET}"
| "a64_opcodes A64_LDR = opcode_row ''ldr'' [{ROLE_DEF}] {}"
| "a64_opcodes A64_STR = opcode_row ''str'' [{ROLE_USE}] {}"
| "a64_opcodes A64_STP = opcode_row ''stp'' [{ROLE_USE}, {ROLE_USE}] {}"
| "a64_opcodes A64_LDP = opcode_row ''ldp'' [{ROLE_DEF}, {ROLE_DEF}] {}"
| "a64_opcodes A64_CMN = opcode_row ''cmn'' [{ROLE_USE}, {ROLE_USE}] {}"
| "a64_opcodes A64_SXTB = opcode_row ''sxtb'' [{ROLE_DEF}, {ROLE_USE}] {}"
| "a64_opcodes A64_SXTH = opcode_row ''sxth'' [{ROLE_DEF}, {ROLE_USE}] {}"
| "a64_opcodes A64_SXTW = opcode_row ''sxtw'' [{ROLE_DEF}, {ROLE_USE}] {}"
| "a64_opcodes A64_UXTB = opcode_row ''uxtb'' [{ROLE_DEF}, {ROLE_USE}] {}"
| "a64_opcodes A64_UXTH = opcode_row ''uxth'' [{ROLE_DEF}, {ROLE_USE}] {}"
| "a64_opcodes A64_SDIV = opcode_row ''sdiv'' [{ROLE_DEF}, {ROLE_USE}, {ROLE_USE}] {}"
| "a64_opcodes A64_UDIV = opcode_row ''udiv'' [{ROLE_DEF}, {ROLE_USE}, {ROLE_USE}] {}"
| "a64_opcodes A64_MSUB = opcode_row ''msub'' [{ROLE_DEF}, {ROLE_USE}, {ROLE_USE}, {ROLE_USE}] {}"
| "a64_opcodes A64_LSL = opcode_row ''lsl'' [{ROLE_DEF}, {ROLE_USE}, {ROLE_USE}] {}"
| "a64_opcodes A64_ASR = opcode_row ''asr'' [{ROLE_DEF}, {ROLE_USE}, {ROLE_USE}] {}"
| "a64_opcodes A64_LSR = opcode_row ''lsr'' [{ROLE_DEF}, {ROLE_USE}, {ROLE_USE}] {}"
| "a64_opcodes A64_ADRP = opcode_row ''adrp'' [{ROLE_DEF}] {}"
| "a64_opcodes A64_FADD = opcode_row ''fadd'' [{ROLE_DEF}, {ROLE_USE}, {ROLE_USE}] {}"
| "a64_opcodes A64_FSUB = opcode_row ''fsub'' [{ROLE_DEF}, {ROLE_USE}, {ROLE_USE}] {}"
| "a64_opcodes A64_FMUL = opcode_row ''fmul'' [{ROLE_DEF}, {ROLE_USE}, {ROLE_USE}] {}"
| "a64_opcodes A64_FDIV = opcode_row ''fdiv'' [{ROLE_DEF}, {ROLE_USE}, {ROLE_USE}] {}"
| "a64_opcodes A64_FNEG = opcode_row ''fneg'' [{ROLE_DEF}, {ROLE_USE}] {}"
| "a64_opcodes A64_FMOV = opcode_row ''fmov'' [{ROLE_DEF}, {ROLE_USE}] {FLAG_MOVE}"
| "a64_opcodes A64_FCMP = opcode_row ''fcmp'' [{ROLE_USE}, {ROLE_USE}] {}"
| "a64_opcodes A64_SCVTF = opcode_row ''scvtf'' [{ROLE_DEF}, {ROLE_USE}] {}"
| "a64_opcodes A64_UCVTF = opcode_row ''ucvtf'' [{ROLE_DEF}, {ROLE_USE}] {}"
| "a64_opcodes A64_FCVTZS = opcode_row ''fcvtzs'' [{ROLE_DEF}, {ROLE_USE}] {}"
| "a64_opcodes A64_FCVTZU = opcode_row ''fcvtzu'' [{ROLE_DEF}, {ROLE_USE}] {}"
| "a64_opcodes A64_FCVT = opcode_row ''fcvt'' [{ROLE_DEF}, {ROLE_USE}] {}"
| "a64_opcodes A64_MOVW = opcode_row ''mov'' [{ROLE_DEF}, {ROLE_USE}] {}"
| "a64_opcodes A64_SEH_SAVE_FPLR_X = opcode_row ''.seh_save_fplr_x'' [] {}"
| "a64_opcodes A64_SEH_STACKALLOC = opcode_row ''.seh_stackalloc'' [] {}"
| "a64_opcodes A64_SEH_SAVE_REG = opcode_row ''.seh_save_reg'' [] {}"
| "a64_opcodes A64_SEH_SAVE_FREG = opcode_row ''.seh_save_freg'' [] {}"
| "a64_opcodes A64_SEH_SET_FP = opcode_row ''.seh_set_fp'' [] {}"
| "a64_opcodes A64_SEH_ADD_FP = opcode_row ''.seh_add_fp'' [] {}"
| "a64_opcodes A64_SEH_NOP = opcode_row ''.seh_nop'' [] {}"
| "a64_opcodes A64_SEH_ENDPROLOGUE = opcode_row ''.seh_endprologue'' [] {}"
| "a64_opcodes A64_SEH_STARTEPILOGUE = opcode_row ''.seh_startepilogue'' [] {}"
| "a64_opcodes A64_SEH_ENDEPILOGUE = opcode_row ''.seh_endepilogue'' [] {}"

section \<open>Conventions\<close>

text \<open>The registers \<open>lo\<close> to \<open>hi\<close> as a set.\<close>

definition REGS :: "nat \<Rightarrow> nat \<Rightarrow> u64" where
  "REGS lo hi = (push_bit hi 2 - 1) AND NOT (push_bit lo 1 - 1)"

definition a64_allocatable :: "nat list" where
  "a64_allocatable = [9, 10, 11, 12, 13, 14, 15, 0, 1, 2, 3, 4, 5, 6, 7, 8,
     19, 20, 21, 22, 23, 24, 25, 26, 27, 28]"

definition a64_fp_allocatable :: "nat list" where
  "a64_fp_allocatable = map (\<lambda>n. V0 + n)
     [18, 19, 20, 21, 22, 23, 24, 25, 26, 27, 28, 29, 30, 31, 0, 1, 2, 3, 4, 5, 6, 7,
      8, 9, 10, 11, 12, 13, 14, 15]"

text \<open>The three conventions differ in the caller-saved \<open>X18\<close>, which no allocation reads, and in the
  probe.\<close>

definition a64_convention :: "bool \<Rightarrow> abi" where
  "a64_convention probe =
     \<lparr>ab_callee_saved = REGS 19 28 OR REGS (V0 + 8) (V0 + 15), ab_allocatable = a64_allocatable,
      ab_scratch = [X16, X17], ab_shadow_space = 0, ab_probe_stack = probe,
      ab_fp_allocatable = a64_fp_allocatable, ab_fp_scratch = [V0 + 16, V0 + 17], ab_fp_save_size = 8\<rparr>"

definition a64_abi :: "convention \<Rightarrow> abi" where
  "a64_abi conv =
     (case conv of
        CONVENTION_AAPCS64 \<Rightarrow> a64_convention False
      | CONVENTION_WINDOWS_ARM64 \<Rightarrow> a64_convention True
      | _ \<Rightarrow> a64_convention False)"

section \<open>Immediates\<close>

definition fits_imm12 :: "int \<Rightarrow> bool" where
  "fits_imm12 v \<longleftrightarrow> v \<ge> 0 \<and> (v \<le> 4095 \<or> (v AND 0xfff = 0 \<and> drop_bit 12 v \<le> 4095))"

definition append_imm12 :: "a64_op \<Rightarrow> mach_operand list \<Rightarrow> int \<Rightarrow> a64_op mach_block \<Rightarrow> a64_op mach_block" where
  "append_imm12 op ops v b =
     (if v > 4095 then append_op op (ops @ [mach_imm (drop_bit 12 v), mach_imm 12]) b
      else append_op op (ops @ [mach_imm v]) b)"

text \<open>The pieces of 16 bits that are not zero; the first one is moved, the others are kept in.\<close>

fun load_pieces :: "mach_operand \<Rightarrow> u64 \<Rightarrow> nat list \<Rightarrow> bool \<Rightarrow> a64_op mach_block \<Rightarrow> a64_op mach_block" where
  "load_pieces dst v [] first b = b"
| "load_pieces dst v (shift # shifts) first b =
     (let piece = drop_bit shift v AND 0xffff
      in if piece = 0 then load_pieces dst v shifts first b
         else load_pieces dst v shifts False
                (append_op (if first then A64_MOVZ else A64_MOVK)
                   (dst # mach_imm (sint piece) # (if shift = 0 then [] else [mach_imm (int shift)])) b))"

definition load_into :: "a64_op mach_block \<Rightarrow> mach_operand \<Rightarrow> u64 \<Rightarrow> a64_op mach_block" where
  "load_into b dst val =
     (let m = (if o_width dst = 64 then - 1 else 0xffffffff); v = val AND m;
          signed_v = (if o_width dst = 64 then sint v else sint (ucast v :: u32))
      in if v \<le> 0xffff \<or> NOT v AND m \<le> 0xffff
         then append_op A64_MOV [dst, mach_imm (if v \<le> 0xffff then sint v else signed_v)] b
         else load_pieces dst v (filter (\<lambda>s. s < o_width dst) [0, 16, 32, 48]) True b)"

section \<open>Spills\<close>

definition a64_stack :: "int \<Rightarrow> mach_index \<Rightarrow> mach_operand" where
  "a64_stack offset index = (mach_preg SP 64)\<lparr>o_kind := MACH_MEM, o_value := offset, o_index := index\<rparr>"

definition stack_indexed :: "nat \<Rightarrow> mach_operand" where
  "stack_indexed index = (a64_stack 0 INDEX_NONE)\<lparr>o_index_reg := index, o_scale := 1\<rparr>"

definition fits_scaled :: "int \<Rightarrow> bool" where
  "fits_scaled offset \<longleftrightarrow> offset \<ge> 0 \<and> offset mod 8 = 0 \<and> offset div 8 \<le> 4095"

text \<open>The memory of a spill, through the register \<open>index\<close> when its offset is large.\<close>

definition spill_memory :: "a64_op mach_block \<Rightarrow> nat \<Rightarrow> int \<Rightarrow> a64_op mach_block \<times> mach_operand" where
  "spill_memory b index offset =
     (if fits_scaled offset then (b, a64_stack offset INDEX_NONE)
      else (load_into b (mach_preg index 64) (word_of_int offset), stack_indexed index))"

definition a64_load_spill :: "a64_op mach_block \<Rightarrow> nat \<Rightarrow> int \<Rightarrow> a64_op mach_block" where
  "a64_load_spill b reg offset =
     (case spill_memory b (if reg \<ge> V0 then X16 else reg) offset of
        (b, m) \<Rightarrow> append_op A64_LDR [mach_preg reg 64, m] b)"

definition a64_store_spill :: "a64_op mach_block \<Rightarrow> nat \<Rightarrow> int \<Rightarrow> a64_op mach_block" where
  "a64_store_spill b reg offset =
     (case spill_memory b (if reg = X16 then X17 else X16) offset of
        (b, m) \<Rightarrow> append_op A64_STR [mach_preg reg 64, m] b)"

text \<open>An operand that the array does not hold reads as the empty operand here.\<close>

definition operand_at :: "a64_op mach_inst \<Rightarrow> nat \<Rightarrow> mach_operand" where
  "operand_at inst i = (if i < length (mi_operands inst) then mi_operands inst ! i else no_operand)"

definition a64_expand :: "a64_op mach_block \<Rightarrow> a64_op mach_inst \<Rightarrow> a64_op mach_block" where
  "a64_expand b inst =
     (let offset = o_value (operand_at inst 2)
      in if mi_op inst \<noteq> A64_ADD \<or> length (mi_operands inst) \<noteq> 3 \<or> o_kind (operand_at inst 1) \<noteq> MACH_PREG \<or>
            o_reg (operand_at inst 1) \<noteq> SP \<or> o_kind (operand_at inst 2) \<noteq> MACH_IMM \<or> offset \<le> 4095
         then mach_append b inst
         else
           let dst = operand_at inst 0; src = operand_at inst 1
           in if fits_imm12 offset then append_imm12 A64_ADD [dst, src] offset b
              else append_op A64_ADD [dst, src, dst] (load_into b dst (word_of_int offset)))"

definition a64_resolve_slot :: "mach_operand \<Rightarrow> int \<Rightarrow> mach_operand" where
  "a64_resolve_slot x offset = x\<lparr>o_kind := MACH_IMM, o_value := offset\<rparr>"

section \<open>Frames\<close>

definition a64_allocate_frame :: "a64_op mach_block \<Rightarrow> frame \<Rightarrow> u64 \<Rightarrow> a64_op mach_block" where
  "a64_allocate_frame b fr bytes =
     (let b = (if fr_probe fr
               then append_op A64_BL [no_operand\<lparr>o_kind := MACH_NAME, o_name := ''__chkstk''\<rparr>]
                      (load_into b (mach_preg X15 64) (bytes div 16))
               else b);
          sp = mach_preg SP 64
      in if fits_imm12 (sint bytes) then append_imm12 A64_SUB [sp, sp] (sint bytes) b
         else append_op A64_SUB [sp, sp, mach_preg X16 64] (load_into b (mach_preg X16 64) bytes))"

definition a64_unwind :: "frame \<Rightarrow> a64_op \<Rightarrow> mach_operand list \<Rightarrow> a64_op mach_block \<Rightarrow> a64_op mach_block" where
  "a64_unwind fr op operands b = (if fr_unwind fr then append_op op operands b else b)"

definition save_area :: "frame \<Rightarrow> u64" where
  "save_area fr =
     (let lowest = foldl (\<lambda>low offset. if word_of_int offset < low then word_of_int offset else low)
                     (fr_size fr) (fr_saved_offset fr)
      in (fr_size fr - lowest + 15) div 16 * 16)"

definition unwind_save :: "frame \<Rightarrow> nat \<Rightarrow> int \<Rightarrow> a64_op mach_block \<Rightarrow> a64_op mach_block" where
  "unwind_save fr reg offset b =
     a64_unwind fr (if reg \<ge> V0 then A64_SEH_SAVE_FREG else A64_SEH_SAVE_REG)
       [mach_preg reg 64, mach_imm offset] b"

text \<open>The frame record is stored below the stack pointer, which moves.\<close>

definition push_record :: "frame \<Rightarrow> a64_op mach_block \<Rightarrow> a64_op mach_block" where
  "push_record fr b =
     a64_unwind fr A64_SEH_SAVE_FPLR_X [mach_imm 16]
       (append_op A64_STP [mach_preg X29 64, mach_preg X30 64, a64_stack (- 16) INDEX_PRE] b)"

text \<open>The offset of a save within the save area.\<close>

definition area_offset :: "frame \<Rightarrow> u64 \<Rightarrow> int \<Rightarrow> int" where
  "area_offset fr area offset = offset - sint (fr_size fr - area)"

definition save_in_area :: "frame \<Rightarrow> u64 \<Rightarrow> a64_op mach_block \<Rightarrow> nat \<times> int \<Rightarrow> a64_op mach_block" where
  "save_in_area fr area b p =
     (case p of (reg, offset) \<Rightarrow>
        unwind_save fr reg (area_offset fr area offset) (a64_store_spill b reg (area_offset fr area offset)))"

definition restore_from_area :: "frame \<Rightarrow> u64 \<Rightarrow> a64_op mach_block \<Rightarrow> nat \<times> int \<Rightarrow> a64_op mach_block" where
  "restore_from_area fr area b p =
     (case p of (reg, offset) \<Rightarrow>
        unwind_save fr reg (area_offset fr area offset) (a64_load_spill b reg (area_offset fr area offset)))"

definition unwind_prologue :: "frame \<Rightarrow> a64_op mach_block \<Rightarrow> a64_op mach_block" where
  "unwind_prologue fr b =
     (let area = save_area fr; sp = mach_preg SP 64; x29 = mach_preg X29 64;
          b = (if area = 0 then a64_unwind fr A64_SEH_SET_FP [] (append_op A64_MOV [x29, sp] b)
               else
                 let b = append_imm12 A64_SUB [sp, sp] (sint area) b;
                     b = a64_unwind fr A64_SEH_STACKALLOC [mach_imm (sint area)] b;
                     b = foldl (save_in_area fr area) b (zip (fr_saved fr) (fr_saved_offset fr));
                     b = append_imm12 A64_ADD [x29, sp] (sint area) b
                 in a64_unwind fr A64_SEH_ADD_FP [mach_imm (sint area)] b);
          b = a64_unwind fr A64_SEH_ENDPROLOGUE [] b
      in if fr_size fr > area then a64_allocate_frame b fr (fr_size fr - area) else b)"

definition a64_prologue :: "a64_op mach_block \<Rightarrow> frame \<Rightarrow> a64_op mach_block" where
  "a64_prologue b fr =
     (if \<not> fr_needed fr then b
      else
        let b = push_record fr b
        in if fr_unwind fr then unwind_prologue fr b
           else
             let b = append_op A64_MOV [mach_preg X29 64, mach_preg SP 64] b;
                 b = (if fr_size fr > 0 then a64_allocate_frame b fr (fr_size fr) else b)
             in foldl (\<lambda>b (reg, offset). a64_store_spill b reg offset) b
                  (zip (fr_saved fr) (fr_saved_offset fr)))"

definition free_stack :: "frame \<Rightarrow> u64 \<Rightarrow> a64_op mach_block \<Rightarrow> a64_op mach_block" where
  "free_stack fr bytes b =
     (let sp = mach_preg SP 64;
          b = (if fits_imm12 (sint bytes) then append_imm12 A64_ADD [sp, sp] (sint bytes) b
               else
                 let loads = load_into \<lparr>mb_insts = [], mb_loop_depth = 0\<rparr> (mach_preg X16 64) bytes;
                     b = foldl (\<lambda>b inst. a64_unwind fr A64_SEH_NOP [] (mach_append b inst)) b (mb_insts loads)
                 in append_op A64_ADD [sp, sp, mach_preg X16 64] b)
      in a64_unwind fr A64_SEH_STACKALLOC [mach_imm (sint bytes)] b)"

definition pop_record :: "a64_op mach_block \<Rightarrow> a64_op mach_block" where
  "pop_record b = append_op A64_LDP [mach_preg X29 64, mach_preg X30 64, a64_stack 16 INDEX_POST] b"

definition unwind_epilogue :: "frame \<Rightarrow> a64_op mach_block \<Rightarrow> a64_op mach_block" where
  "unwind_epilogue fr b =
     (let area = save_area fr;
          b = a64_unwind fr A64_SEH_STARTEPILOGUE [] b;
          b = (if fr_size fr > area then free_stack fr (fr_size fr - area) b else b);
          b = foldl (restore_from_area fr area) b (zip (fr_saved fr) (fr_saved_offset fr));
          b = (if area > 0 then free_stack fr area b else b);
          b = a64_unwind fr A64_SEH_SAVE_FPLR_X [mach_imm 16] (pop_record b)
      in a64_unwind fr A64_SEH_ENDEPILOGUE [] b)"

definition a64_epilogue :: "a64_op mach_block \<Rightarrow> frame \<Rightarrow> a64_op mach_block" where
  "a64_epilogue b fr =
     (if \<not> fr_needed fr then b
      else if fr_unwind fr then unwind_epilogue fr b
      else
        let b = foldl (\<lambda>b (reg, offset). a64_load_spill b reg offset) b (zip (fr_saved fr) (fr_saved_offset fr));
            b = (if fr_size fr > 0 then append_op A64_MOV [mach_preg SP 64, mach_preg X29 64] b else b)
        in pop_record b)"

definition target_desc_arm64 :: "a64_op target_desc" where
  "target_desc_arm64 =
     \<lparr>td_name = ''arm64'', td_opcodes = a64_opcodes, td_abi = a64_abi, td_frame_limit = 0,
      td_load_spill = a64_load_spill, td_store_spill = a64_store_spill, td_resolve_slot = a64_resolve_slot,
      td_expand = Some a64_expand, td_prologue = a64_prologue, td_epilogue = a64_epilogue\<rparr>"

end
