(* ===== verification/AllocSim.thy ===== *)
theory AllocSim
  imports Remat X64 A64
begin

text \<open>
  What the places mean: a function whose registers are replaced by their places computes what it
  computes over virtual registers. An instruction is any function of the values that it reads.
\<close>

section \<open>Places\<close>

datatype mach_loc = Vreg nat | Preg nat | Spill nat

definition event_loc :: "mach_operand \<Rightarrow> mach_loc" where
  "event_loc x = (if o_kind x = MACH_VREG then Vreg (o_reg x) else Preg (o_reg x))"

text \<open>The place that the allocator gives.\<close>

fun loc_in :: "'op alloc \<Rightarrow> mach_loc \<Rightarrow> mach_loc" where
  "loc_in a (Vreg v) =
     (case iv_slot (al_intervals a ! v) of
        Some s \<Rightarrow> Spill s
      | None \<Rightarrow> (case iv_preg (al_intervals a ! v) of Some r \<Rightarrow> Preg r | None \<Rightarrow> Vreg v))"
| "loc_in a (Preg r) = Preg r"
| "loc_in a (Spill s) = Spill s"

section \<open>Execution\<close>

definition locs_read :: "'op target_desc \<Rightarrow> 'op mach_inst \<Rightarrow> mach_loc list" where
  "locs_read td inst = map (event_loc \<circ> fst) (filter (\<lambda>ev. \<not> snd ev) (each_register td inst))"

definition locs_written :: "'op target_desc \<Rightarrow> 'op mach_inst \<Rightarrow> mach_loc list" where
  "locs_written td inst = map (event_loc \<circ> fst) (filter snd (each_register td inst))"

text \<open>\<open>sem inst vs k\<close> is what \<open>inst\<close> writes to its \<open>k\<close>-th result when it reads \<open>vs\<close>; \<open>loc\<close> says where
  a register is.\<close>

type_synonym ('op, 'v) semantics = "'op mach_inst \<Rightarrow> 'v list \<Rightarrow> nat \<Rightarrow> 'v"

definition reads_in :: "'op target_desc \<Rightarrow> (mach_loc \<Rightarrow> mach_loc) \<Rightarrow> (mach_loc \<Rightarrow> 'v) \<Rightarrow> 'op mach_inst \<Rightarrow> 'v list" where
  "reads_in td loc m inst = map (m \<circ> loc) (locs_read td inst)"

definition write_all :: "(mach_loc \<Rightarrow> mach_loc) \<Rightarrow> (nat \<Rightarrow> 'v) \<Rightarrow> (mach_loc \<Rightarrow> 'v) \<Rightarrow> (nat \<times> mach_loc) list \<Rightarrow> (mach_loc \<Rightarrow> 'v)" where
  "write_all loc res m ws = foldl (\<lambda>m (k, w). m(loc w := res k)) m ws"

definition execute ::
    "'op target_desc \<Rightarrow> ('op, 'v) semantics \<Rightarrow> (mach_loc \<Rightarrow> mach_loc) \<Rightarrow> (mach_loc \<Rightarrow> 'v) \<Rightarrow> 'op mach_inst \<Rightarrow> (mach_loc \<Rightarrow> 'v)" where
  "execute td sem loc m inst =
     write_all loc (sem inst (reads_in td loc m inst)) m
       (zip [0..<length (locs_written td inst)] (locs_written td inst))"

text \<open>The whole blocks of a path, then the first \<open>i\<close> instructions of the last block.\<close>

definition run_block :: "'op target_desc \<Rightarrow> ('op, 'v) semantics \<Rightarrow> (mach_loc \<Rightarrow> mach_loc) \<Rightarrow> 'op mach_function \<Rightarrow>
    (mach_loc \<Rightarrow> 'v) \<Rightarrow> nat \<Rightarrow> (mach_loc \<Rightarrow> 'v)" where
  "run_block td sem loc f m b = foldl (execute td sem loc) m (block_insts f b)"

definition run_path :: "'op target_desc \<Rightarrow> ('op, 'v) semantics \<Rightarrow> (mach_loc \<Rightarrow> mach_loc) \<Rightarrow> 'op mach_function \<Rightarrow>
    (mach_loc \<Rightarrow> 'v) \<Rightarrow> nat list \<Rightarrow> nat \<Rightarrow> (mach_loc \<Rightarrow> 'v)" where
  "run_path td sem loc f m bs i =
     foldl (execute td sem loc) (foldl (run_block td sem loc f) m (butlast bs)) (take i (block_insts f (last bs)))"

fun flow_path :: "'op target_desc \<Rightarrow> 'op mach_function \<Rightarrow> nat list \<Rightarrow> bool" where
  "flow_path td f (b # c # bs) \<longleftrightarrow> mach_edge td f b c \<and> flow_path td f (c # bs)"
| "flow_path td f bs = True"

section \<open>What a later instruction needs\<close>

text \<open>The first access to \<open>p\<close> is a read.\<close>

fun awaits :: "events \<Rightarrow> mach_loc \<Rightarrow> bool" where
  "awaits [] p = False"
| "awaits ((x, write) # es) p = (if event_loc x = p then \<not> write else awaits es p)"

definition preg_live :: "'op target_desc \<Rightarrow> 'op mach_function \<Rightarrow> nat \<Rightarrow> nat \<Rightarrow> nat \<Rightarrow> bool" where
  "preg_live td f b i r \<longleftrightarrow> awaits (events td (drop i (block_insts f b))) (Preg r)"

fun needed :: "'op target_desc \<Rightarrow> 'op mach_function \<Rightarrow> nat \<Rightarrow> nat \<Rightarrow> mach_loc \<Rightarrow> bool" where
  "needed td f b i (Vreg v) \<longleftrightarrow> v < vreg_count f \<and> live_at td f b i v"
| "needed td f b i (Preg r) \<longleftrightarrow> preg_live td f b i r"
| "needed td f b i (Spill s) \<longleftrightarrow> False"

definition agree :: "'op target_desc \<Rightarrow> 'op mach_function \<Rightarrow> (mach_loc \<Rightarrow> mach_loc) \<Rightarrow> nat \<Rightarrow> nat \<Rightarrow>
    (mach_loc \<Rightarrow> 'v) \<Rightarrow> (mach_loc \<Rightarrow> 'v) \<Rightarrow> bool" where
  "agree td f loc b i m n \<longleftrightarrow> (\<forall>p. needed td f b i p \<longrightarrow> n (loc p) = m p)"

lemma awaits_Vreg: "awaits es (Vreg v) = reads_first es v"
  by (induction es v rule: reads_first.induct) (auto simp: event_loc_def)

definition loc_writes :: "events \<Rightarrow> mach_loc \<Rightarrow> bool" where
  "loc_writes es p \<longleftrightarrow> (\<exists>x. (x, True) \<in> set es \<and> event_loc x = p)"

lemma loc_writes_Vreg: "loc_writes es (Vreg v) = writes es v"
  by (auto simp: loc_writes_def writes_def event_loc_def)

lemma awaits_append: "awaits (es @ fs) p \<longleftrightarrow> awaits es p \<or> (\<not> loc_writes es p \<and> awaits fs p)"
  by (induction es p rule: awaits.induct) (auto simp: loc_writes_def)

lemma awaits_event: "awaits es p \<Longrightarrow> \<exists>x. (x, False) \<in> set es \<and> event_loc x = p"
  by (induction es p rule: awaits.induct) (auto split: if_splits)

text \<open>The reads of an instruction come before its writes.\<close>

lemma awaits_read:
  assumes "(x, False) \<in> set (each_register td inst)"
  shows "awaits (each_register td inst) (event_loc x)"
proof -
  obtain rs ws where e: "each_register td inst = map (\<lambda>x. (x, False)) rs @ map (\<lambda>x. (x, True)) ws"
    by (rule each_register_split)
  have "x \<in> set rs" using assms by (auto simp: e)
  then have "awaits (map (\<lambda>x. (x, False)) rs) (event_loc x)" by (induction rs) auto
  then show ?thesis by (simp add: e awaits_append)
qed

lemma needed_read:
  assumes ok: "mach_ok td f" "b < length (mf_blocks f)" and i: "i < length (block_insts f b)"
    and p: "p \<in> set (locs_read td (block_insts f b ! i))"
  shows "needed td f b i p"
proof -
  obtain x where x: "(x, False) \<in> set (each_register td (block_insts f b ! i))" "p = event_loc x"
    using p by (auto simp: locs_read_def)
  have w: "awaits (events td (drop i (block_insts f b))) p"
    using awaits_read [OF x(1)] x(2) by (simp add: events_drop [OF i] awaits_append)
  show ?thesis
  proof (cases p)
    case (Vreg v)
    have "minst_ok td (vreg_count f) (length (mf_blocks f)) (block_insts f b ! i)"
      using ok i by (simp add: mach_ok_def list_all_length block_insts_def)
    then have "o_reg x < vreg_count f" if "o_kind x = MACH_VREG"
      using each_register_less [of td _ _ "block_insts f b ! i" x False] x(1) that by (auto simp: minst_ok_def)
    with w Vreg x(2) show ?thesis by (auto simp: awaits_Vreg live_at_def event_loc_def split: if_splits)
  qed (use w x(2) in \<open>auto simp: preg_live_def event_loc_def split: if_splits\<close>)
qed

lemma needed_back:
  assumes i: "i < length (block_insts f b)" and n: "needed td f b (Suc i) p"
    and w: "p \<notin> set (locs_written td (block_insts f b ! i))"
  shows "needed td f b i p"
proof -
  have nw: "\<not> loc_writes (each_register td (block_insts f b ! i)) p"
    using w by (force simp: loc_writes_def locs_written_def)
  show ?thesis
  proof (cases p)
    case (Vreg v)
    with nw n live_at_back [OF i] show ?thesis by (auto simp: loc_writes_Vreg)
  qed (use n nw in \<open>auto simp: preg_live_def events_drop [OF i] awaits_append\<close>)
qed

section \<open>Places that are apart\<close>

definition abi_ok :: "abi \<Rightarrow> bool" where
  "abi_ok abi \<longleftrightarrow> list_all (\<lambda>r. r < PREG_LIMIT) (ab_allocatable abi @ ab_fp_allocatable abi)"

lemma reads_at_ge: "0 \<le> reads_at f b i"
  by (simp add: reads_at_def block_start_def)

text \<open>A register that a later instruction of the block reads is taken since the end of instruction \<open>i\<close>.\<close>

lemma preg_live_read:
  assumes "preg_live td f b (Suc i) r"
  shows "\<exists>j. i < j \<and> j < length (block_insts f b) \<and> preg_reads td (block_insts f b ! j) r \<and>
     since td f b r j \<le> reads_at f b i + 1"
proof -
  have "\<exists>j. i < j \<and> j < length (block_insts f b) \<and> preg_reads td (block_insts f b ! j) r \<and>
     since td f b r j \<le> max (reads_at f b i + 1) (since td f b r k)"
    if "k \<le> length (block_insts f b)" "i < k" "awaits (events td (drop k (block_insts f b))) (Preg r)" for k
    using that
  proof (induction "length (block_insts f b) - k" arbitrary: k)
    case (Suc n)
    then have k: "k < length (block_insts f b)" by simp
    let ?inst = "block_insts f b ! k"
    show ?case
    proof (cases "awaits (each_register td ?inst) (Preg r)")
      case True
      then obtain x where "(x, False) \<in> set (each_register td ?inst)" "event_loc x = Preg r"
        using awaits_event by blast
      then have "preg_reads td ?inst r"
        by (auto simp: preg_reads_def names_preg_def event_loc_def split: if_splits intro!: bexI [of _ "(x, False)"])
      then show ?thesis using k Suc.prems(2) by (intro exI [of _ k]) auto
    next
      case False
      then have next_aw: "\<not> loc_writes (each_register td ?inst) (Preg r)"
          "awaits (events td (drop (Suc k) (block_insts f b))) (Preg r)"
        using Suc.prems(3) by (auto simp: events_drop [OF k] awaits_append)
      have "\<not> preg_writes td ?inst r"
        using next_aw(1) by (auto simp: preg_writes_def names_preg_def loc_writes_def event_loc_def)
      then have "since td f b r (Suc k) = since td f b r k" by simp
      then show ?thesis using Suc.hyps(1) [of "Suc k"] Suc.hyps(2) Suc.prems(2) k next_aw(2) by auto
    qed
  qed simp
  moreover have "Suc i \<le> length (block_insts f b)"
    using assms by (cases "Suc i \<le> length (block_insts f b)") (simp_all add: preg_live_def)
  moreover have "since td f b r (Suc i) \<le> reads_at f b i + 1"
    using since_le(1) [of td f b r i] by simp
  ultimately show ?thesis using assms unfolding preg_live_def by (metis lessI max.absorb1)
qed

lemma places_apart:
  assumes ok: "mach_ok td f" "abi_ok abi" and b: "b < length (mf_blocks f)" and i: "i < length (block_insts f b)"
    and q: "q \<in> set (locs_written td (block_insts f b ! i))" and p: "needed td f b (Suc i) p" "p \<noteq> q"
  defines "a \<equiv> linear_scan abi (prepared td f)"
  shows "loc_in a p \<noteq> loc_in a q"
proof -
  let ?t = "reads_at f b i + 1" and ?ivs = "al_intervals (prepared td f)"
  note un = prepared_unplaced [OF ok(1)]
  have t: "0 \<le> ?t" using reads_at_ge [of f b i] by simp
  obtain x where x: "(x, True) \<in> set (each_register td (block_insts f b ! i))" "q = event_loc x"
    using q by (auto simp: locs_written_def)
  have written: "v < vreg_count f \<and> covers (?ivs ! v) ?t" if "q = Vreg v" for v
  proof -
    have k: "o_kind x = MACH_VREG" "o_reg x = v" using that x(2) by (auto simp: event_loc_def split: if_splits)
    have "minst_ok td (vreg_count f) (length (mf_blocks f)) (block_insts f b ! i)"
      using ok(1) b i by (simp add: mach_ok_def list_all_length block_insts_def)
    from each_register_less [OF this x(1) k(1)] iv.write_covered [OF ok(1) b i, of v] x(1) k show ?thesis
      by (auto simp: writes_def)
  qed
  have live: "v < vreg_count f \<and> covers (?ivs ! v) ?t" if "p = Vreg v" for v
    using iv.live_after_covered [OF ok(1) b i] p(1) that by simp
  have placed: "(iv_preg (al_intervals a ! v) = None) \<noteq> (iv_slot (al_intervals a ! v) = None)"
    if "v < vreg_count f" "covers (?ivs ! v) ?t" for v
    unfolding a_def by (rule ls.placed_once [OF un(1) _ that(2) t]) (use un(2) that(1) in simp)
  have small: "r < PREG_LIMIT" if "v < vreg_count f" "iv_preg (al_intervals a ! v) = Some r" for v r
    using ls.register_of_class [OF un(1), of v abi r] un(2) that ok(2) by (auto simp: a_def abi_ok_def list_all_iff)
  have other: "iv_preg (al_intervals a ! v) \<noteq> Some r"
    if "v < vreg_count f" "covers (?ivs ! v) ?t" "r < PREG_LIMIT \<Longrightarrow> has_range (al_fixed (prepared td f)) r lo hi"
      "lo \<le> ?t" "?t \<le> hi" for v r lo hi
  proof
    assume pr: "iv_preg (al_intervals a ! v) = Some r"
    then show False
      using ls.fixed_avoided [OF un(1) _ that(2) t that(3) that(4,5), of abi] small [OF that(1) pr] un(2) that(1)
      by (simp add: a_def)
  qed
  have ranges: "inst_ranges td f b j (al_fixed (prepared td f))" if "j < length (block_insts f b)" for j
    by (rule prepared_covered(4) [OF ok(1) b that])
  show ?thesis
  proof (cases p)
    case u: (Vreg u)
    note lu = live [OF u]
    show ?thesis
    proof (cases q)
      case v: (Vreg v)
      note wv = written [OF v]
      have "u \<noteq> v" using p(2) u v by simp
      with ls.meeting_differ [OF un(1) _ _ _ conjunct2 [OF lu] conjunct2 [OF wv] t, of abi]
        ls.slots_differ [OF un(1), of u v abi] placed [of u] placed [of v] lu wv un(2) u v
      show ?thesis by (auto simp: a_def split: option.splits)
    next
      case r: (Preg r)
      have "preg_writes td (block_insts f b ! i) r"
        using x r by (auto simp: preg_writes_def names_preg_def event_loc_def split: if_splits intro!: bexI [of _ "(x, True)"])
      then have "r < PREG_LIMIT \<Longrightarrow> has_range (al_fixed (prepared td f)) r ?t ?t"
        using ranges [OF i] by (simp add: inst_ranges_def)
      from other [OF _ _ this] lu r u placed [of u] show ?thesis by (auto split: option.splits)
    qed (use x in \<open>auto simp: event_loc_def split: if_splits\<close>)
  next
    case r: (Preg r)
    show ?thesis
    proof (cases q)
      case v: (Vreg v)
      obtain j where j: "i < j" "j < length (block_insts f b)" "preg_reads td (block_insts f b ! j) r"
          "since td f b r j \<le> ?t"
        using preg_live_read p(1) r by fastforce
      have "r < PREG_LIMIT \<Longrightarrow> has_range (al_fixed (prepared td f)) r (since td f b r j) (reads_at f b j)"
        using ranges [OF j(2)] j(3) by (simp add: inst_ranges_def)
      from other [OF _ _ this j(4)] written [OF v] j(1) r v placed [of v] show ?thesis
        by (auto simp: reads_at_def split: option.splits)
    qed (use p(2) r x in \<open>auto simp: event_loc_def split: if_splits\<close>)
  qed (use p(1) in simp)
qed

section \<open>The simulation\<close>

definition itself :: "mach_loc \<Rightarrow> mach_loc" where
  "itself p = p"

lemma write_all_agrees:
  assumes "\<And>k q. (k, q) \<in> set ws \<Longrightarrow> q \<noteq> p \<Longrightarrow> loc q \<noteq> loc p"
    and "n (loc p) = m p \<or> p \<in> snd ` set ws"
  shows "write_all loc res n ws (loc p) = write_all itself res m ws p"
  using assms
proof (induction ws arbitrary: m n)
  case (Cons w ws)
  obtain k q where w: "w = (k, q)" by (cases w)
  have far: "\<And>k q. (k, q) \<in> set ws \<Longrightarrow> q \<noteq> p \<Longrightarrow> loc q \<noteq> loc p"
    using Cons.prems(1) by (meson list.set_intros(2))
  have "(n(loc q := res k)) (loc p) = (m(itself q := res k)) p \<or> p \<in> snd ` set ws"
    using Cons.prems(1) [of k q] Cons.prems(2) w by (cases "q = p") (auto simp: itself_def)
  from Cons.IH [where m = "m(itself q := res k)" and n = "n(loc q := res k)", OF far this] show ?case by (simp add: write_all_def w del: fun_upd_apply)
qed (simp add: write_all_def)

lemma reads_agree:
  assumes "mach_ok td f" "b < length (mf_blocks f)" "i < length (block_insts f b)" "agree td f loc b i m n"
  shows "reads_in td loc n (block_insts f b ! i) = reads_in td itself m (block_insts f b ! i)"
  using assms needed_read [OF assms(1-3)] by (auto simp: reads_in_def agree_def itself_def)

lemma execute_agrees:
  assumes ok: "mach_ok td f" "abi_ok abi" and b: "b < length (mf_blocks f)" and i: "i < length (block_insts f b)"
    and ag: "agree td f (loc_in (linear_scan abi (prepared td f))) b i m n"
  shows "agree td f (loc_in (linear_scan abi (prepared td f))) b (Suc i)
     (execute td sem itself m (block_insts f b ! i))
     (execute td sem (loc_in (linear_scan abi (prepared td f))) n (block_insts f b ! i))"
  unfolding agree_def
proof (intro allI impI)
  let ?loc = "loc_in (linear_scan abi (prepared td f))" and ?inst = "block_insts f b ! i"
  fix p assume p: "needed td f b (Suc i) p"
  let ?ws = "zip [0..<length (locs_written td ?inst)] (locs_written td ?inst)"
  have ws: "snd ` set ?ws = set (locs_written td ?inst)" by (simp flip: set_map)
  have far: "?loc q \<noteq> ?loc p" if "(k, q) \<in> set ?ws" "q \<noteq> p" for k q
    using places_apart [OF ok b i _ p, of q] that by (metis set_zip_rightD)
  have "n (?loc p) = m p \<or> p \<in> snd ` set ?ws"
    using ag needed_back [OF i p] by (auto simp: agree_def ws)
  from write_all_agrees [where loc = ?loc and p = p and n = n and m = m, OF far this] show
    "execute td sem ?loc n ?inst (?loc p) = execute td sem itself m ?inst p"
    by (simp add: execute_def reads_agree [OF ok(1) b i ag])
qed

lemma run_agrees:
  assumes ok: "mach_ok td f" "abi_ok abi" and b: "b < length (mf_blocks f)" and i: "i \<le> length (block_insts f b)"
    and ag: "agree td f (loc_in (linear_scan abi (prepared td f))) b 0 m n"
  shows "agree td f (loc_in (linear_scan abi (prepared td f))) b i
     (foldl (execute td sem itself) m (take i (block_insts f b)))
     (foldl (execute td sem (loc_in (linear_scan abi (prepared td f)))) n (take i (block_insts f b)))"
  using i
proof (induction i)
  case (Suc i)
  then show ?case using execute_agrees [OF ok b, of i] by (simp add: take_Suc_conv_app_nth)
qed (simp add: ag)

text \<open>No physical register is read before the block writes it.\<close>

definition pregs_written_first :: "'op target_desc \<Rightarrow> 'op mach_function \<Rightarrow> nat \<Rightarrow> bool" where
  "pregs_written_first td f b \<longleftrightarrow> (\<forall>r. \<not> preg_live td f b 0 r)"

lemma agree_edge:
  assumes "mach_edge td f b c" "pregs_written_first td f c" "agree td f loc b (length (block_insts f b)) m n"
  shows "agree td f loc c 0 m n"
  unfolding agree_def
proof (intro allI impI)
  fix p assume p: "needed td f c 0 p"
  show "n (loc p) = m p"
  proof (cases p)
    case (Vreg v)
    have "needed td f b (length (block_insts f b)) p"
      using p assms(1) by (auto simp: Vreg live_at_start live_at_end live_out_def)
    then show ?thesis using assms(3) by (simp add: agree_def)
  qed (use p assms(2) in \<open>auto simp: pregs_written_first_def\<close>)
qed

lemma path_agrees:
  assumes ok: "mach_ok td f" "abi_ok abi"
  defines "loc \<equiv> loc_in (linear_scan abi (prepared td f))"
  shows "flow_path td f (b # bs) \<Longrightarrow> b < length (mf_blocks f) \<Longrightarrow> \<forall>c \<in> set bs. pregs_written_first td f c \<Longrightarrow>
     i \<le> length (block_insts f (last (b # bs))) \<Longrightarrow> agree td f loc b 0 m n \<Longrightarrow>
     last (b # bs) < length (mf_blocks f) \<and>
     agree td f loc (last (b # bs)) i (run_path td sem itself f m (b # bs) i) (run_path td sem loc f n (b # bs) i)"
proof (induction bs arbitrary: b m n)
  case Nil
  then show ?case using run_agrees [OF ok, of b i m n sem] by (simp add: run_path_def loc_def)
next
  case (Cons c bs)
  have e: "mach_edge td f b c" using Cons.prems(1) by simp
  have c: "c < length (mf_blocks f)" using mach_edge_less [OF ok(1) Cons.prems(2) e] .
  have "agree td f loc b (length (block_insts f b)) (run_block td sem itself f m b) (run_block td sem loc f n b)"
    using run_agrees [OF ok Cons.prems(2) order_refl, of m n sem] Cons.prems(5) by (simp add: run_block_def loc_def)
  from agree_edge [OF e _ this] have "agree td f loc c 0 (run_block td sem itself f m b) (run_block td sem loc f n b)"
    using Cons.prems(3) by simp
  from Cons.IH [OF _ c _ _ this] Cons.prems(1,3,4) show ?case by (simp add: run_path_def)
qed

end
