(* ===== verification/RewriteProps.thy ===== *)
theory RewriteProps
  imports Remat X64 A64
begin

text \<open>
  After register allocation an instruction names physical registers only: no virtual register and
  no slot is left, in the instructions of the function or in those that spills and frames add.
\<close>

definition physical :: "mach_operand \<Rightarrow> bool" where
  "physical x \<longleftrightarrow>
     o_kind x \<noteq> MACH_VREG \<and> o_kind x \<noteq> MACH_SLOT \<and>
     (o_kind x = MACH_MEM \<longrightarrow> \<not> o_base_vreg x \<and> (o_scale x \<noteq> 0 \<longrightarrow> \<not> o_index_vreg x))"

definition physical_insts :: "'op mach_block \<Rightarrow> bool" where
  "physical_insts b \<longleftrightarrow> list_all (\<lambda>inst. list_all physical (mi_operands inst)) (mb_insts b)"

lemma physical_append:
  "physical_insts (mach_append b inst) \<longleftrightarrow> physical_insts b \<and> list_all physical (mi_operands inst)"
  by (simp add: physical_insts_def mach_append_def)

lemma physical_append_op:
  "physical_insts (append_op op operands b) \<longleftrightarrow> physical_insts b \<and> list_all physical operands"
  by (simp add: append_op_def physical_append)

lemma physical_operands [simp]: "physical (mach_preg r w)" "physical (mach_imm v)"
  by (simp_all add: physical_def mach_preg_def mach_vreg_def mach_imm_def no_operand_def)

lemma physical_foldl:
  assumes "physical_insts b" "\<And>b x. physical_insts b \<Longrightarrow> physical_insts (g b x)"
  shows "physical_insts (foldl g b xs)"
  using assms(1) by (induction xs arbitrary: b) (auto intro: assms(2))

section \<open>What a target promises\<close>

locale physical_target =
  fixes td :: "'op target_desc"
  assumes load_physical: "physical_insts b \<Longrightarrow> physical_insts (td_load_spill td b r off)"
    and store_physical: "physical_insts b \<Longrightarrow> physical_insts (td_store_spill td b r off)"
    and prologue_physical: "physical_insts b \<Longrightarrow> physical_insts (td_prologue td b fr)"
    and epilogue_physical: "physical_insts b \<Longrightarrow> physical_insts (td_epilogue td b fr)"
    and resolve_physical: "physical (td_resolve_slot td x off)"
    and expand_physical: "td_expand td = Some expand \<Longrightarrow> physical_insts b \<Longrightarrow>
      list_all physical (mi_operands inst) \<Longrightarrow> physical_insts (expand b inst)"
begin

lemma place_physical:
  assumes "mach_place td abi a rw v reads = Some (rw', r)" "physical_insts (fst rw)"
  shows "physical_insts (fst rw')"
  using assms by (auto simp: mach_place_def Let_def load_physical split: prod.splits option.splits if_splits)

text \<open>After the loop over the reads, no memory operand names a virtual register.\<close>

definition addressed :: "mach_operand \<Rightarrow> bool" where
  "addressed x \<longleftrightarrow> o_kind x \<noteq> MACH_SLOT \<and>
     (o_kind x = MACH_MEM \<longrightarrow> \<not> o_base_vreg x \<and> (o_scale x \<noteq> 0 \<longrightarrow> \<not> o_index_vreg x))"

lemma place_base_physical:
  assumes "place_base td abi a rw x = Some (rw', y)" "physical_insts (fst rw)"
  shows "physical_insts (fst rw') \<and> o_kind y = o_kind x \<and> (o_kind y = MACH_MEM \<longrightarrow> \<not> o_base_vreg y)"
  using assms by (auto simp: place_base_def dest!: place_physical split: if_splits)

lemma place_index_physical:
  assumes "place_index td abi a rw x = Some (rw', y)" "physical_insts (fst rw)"
  shows "physical_insts (fst rw') \<and> o_kind y = o_kind x \<and> o_base_vreg y = o_base_vreg x \<and>
    (o_kind y = MACH_MEM \<and> o_scale y \<noteq> 0 \<longrightarrow> \<not> o_index_vreg y)"
  using assms by (auto simp: place_index_def dest!: place_physical split: if_splits)

lemma place_vreg_physical:
  assumes "place_vreg td abi a reads rw x = Some (rw', y)" "physical_insts (fst rw)"
  shows "physical_insts (fst rw') \<and> o_kind y = MACH_PREG"
  using assms by (auto simp: place_vreg_def dest!: place_physical)

lemma place_read_physical:
  assumes "place_read td abi a oc rw (i, x) = Some (rw', y)" "physical_insts (fst rw)" "o_kind x \<noteq> MACH_SLOT"
  shows "physical_insts (fst rw') \<and> addressed y"
proof -
  obtain rw1 x1 where b: "place_base td abi a rw x = Some (rw1, x1)"
    using assms(1) by (auto simp: place_read_def split: option.splits)
  obtain rw2 x2 where c: "place_index td abi a rw1 x1 = Some (rw2, x2)"
    using assms(1) b by (auto simp: place_read_def split: option.splits)
  note B = place_base_physical [OF b assms(2)]
  note C = place_index_physical [OF c B [THEN conjunct1]]
  have r: "(if o_kind x2 = MACH_VREG \<and> has_role oc i ROLE_USE then place_vreg td abi a True rw2 x2 else Some (rw2, x2)) = Some (rw', y)"
    using assms(1) b c by (simp add: place_read_def)
  then show ?thesis
  proof (cases "o_kind x2 = MACH_VREG \<and> has_role oc i ROLE_USE")
    case True
    then have "place_vreg td abi a True rw2 x2 = Some (rw', y)" using r by simp
    from place_vreg_physical [OF this] show ?thesis using B C assms(3) by (simp add: addressed_def)
  next
    case False
    then have "rw' = rw2 \<and> y = x2" using r by auto
    then show ?thesis using B C assms(3) by (simp add: addressed_def)
  qed
qed

lemma place_rest_physical:
  assumes "place_rest td abi a rw x = Some (rw', y)" "physical_insts (fst rw)" "addressed x"
  shows "physical_insts (fst rw') \<and> physical y"
  using assms place_vreg_physical by (fastforce simp: place_rest_def addressed_def physical_def split: if_splits)

lemma map_state_physical:
  assumes "map_state g s xs = Some (s', ys)" "physical_insts (fst s)" "\<forall>x \<in> set xs. P x"
    and "\<And>s x s' y. g s x = Some (s', y) \<Longrightarrow> physical_insts (fst s) \<Longrightarrow> P x \<Longrightarrow> physical_insts (fst s') \<and> Q y"
  shows "physical_insts (fst s') \<and> (\<forall>y \<in> set ys. Q y)"
  using assms(1-3)
proof (induction xs arbitrary: s ys)
  case (Cons x xs)
  obtain s1 y where one: "g s x = Some (s1, y)" using Cons.prems(1) by (auto split: option.splits)
  obtain s2 zs where rest: "map_state g s1 xs = Some (s2, zs)" "s2 = s'" "ys = y # zs"
    using Cons.prems(1) one by auto
  from assms(4) [OF one] Cons.IH [of s1 zs] rest Cons.prems(2,3) show ?case by auto
qed simp

lemma rewrite_inst_physical:
  assumes "rewrite_inst td abi a frame out inst = Some out'" "physical_insts out"
    and slots: "\<forall>x \<in> set (mi_operands inst). o_kind x \<noteq> MACH_SLOT"
  shows "physical_insts out'"
proof -
  let ?oc = "opcode td inst" and ?ops = "zip [0..<length (mi_operands inst)] (mi_operands inst)"
  obtain rw xs where r1: "map_state (place_read td abi a ?oc) (out, no_spills) ?ops = Some (rw, xs)"
    using assms(1) by (auto simp: rewrite_inst_def Let_def split: option.splits)
  obtain out2 sm ys where r2: "map_state (place_rest td abi a) rw xs = Some ((out2, sm), ys)"
    using assms(1) r1 by (auto simp: rewrite_inst_def Let_def split: option.splits prod.splits)
  have no_slot: "\<forall>p \<in> set ?ops. o_kind (snd p) \<noteq> MACH_SLOT"
    using slots by (auto dest: operands_in_zip)
  have 1: "physical_insts (fst rw) \<and> (\<forall>x \<in> set xs. addressed x)"
    by (rule map_state_physical [OF r1 _ no_slot]) (use assms(2) place_read_physical in auto)
  have 2: "physical_insts (fst (out2, sm)) \<and> (\<forall>y \<in> set ys. physical y)"
    by (rule map_state_physical [OF r2 _ 1 [THEN conjunct2]]) (use 1 place_rest_physical in auto)
  have res: "out' = foldl (store_result td a ?oc sm)
      (if moves_itself ?oc ys then out2
       else let out = (if FLAG_RET \<in> oc_flags ?oc then td_epilogue td out2 frame else out2)
            in (case td_expand td of Some expand \<Rightarrow> expand out (inst\<lparr>mi_operands := ys\<rparr>)
                | None \<Rightarrow> mach_append out (inst\<lparr>mi_operands := ys\<rparr>))) ?ops"
    using assms(1) by (simp add: rewrite_inst_def Let_def r1 r2)
  have ys: "list_all physical (mi_operands (inst\<lparr>mi_operands := ys\<rparr>))" using 2 by (simp add: list_all_iff)
  have "physical_insts (store_result td a ?oc sm b p)" if "physical_insts b" for b p
    using that store_physical by (auto simp: store_result_def split: prod.split option.split)
  then show ?thesis
    unfolding res using 2 ys epilogue_physical expand_physical
    by (intro physical_foldl) (auto simp: Let_def physical_append split: option.split)
qed

lemma resolve_slots_none: "x \<in> set (mi_operands (resolve_slots td a inst)) \<Longrightarrow> o_kind x \<noteq> MACH_SLOT"
  using resolve_physical by (auto simp: resolve_slots_def resolve_slot_def physical_def)

lemma rewrite_insts_physical:
  "rewrite_insts td abi a frame out insts = Some out' \<Longrightarrow> physical_insts out \<Longrightarrow> physical_insts out'"
proof (induction insts arbitrary: out)
  case (Cons inst insts)
  then show ?case
    using rewrite_inst_physical [OF _ Cons.prems(2)] resolve_slots_none by (auto split: option.splits)
qed simp

lemma rewrite_blocks_physical:
  "rewrite_blocks td abi a frame b blocks = Some outs \<Longrightarrow> out \<in> set outs \<Longrightarrow> physical_insts out"
proof (induction blocks arbitrary: b outs)
  case (Cons block blocks)
  have empty: "physical_insts \<lparr>mb_insts = [], mb_loop_depth = 0\<rparr>" by (simp add: physical_insts_def)
  have "physical_insts o1" if "rewrite_block td abi a frame b block = Some o1" for o1
    using that rewrite_insts_physical empty prologue_physical [OF empty]
    by (auto simp: rewrite_block_def Let_def split: if_splits)
  with Cons show ?case by (auto split: option.splits)
qed simp

lemma regalloc_physical:
  assumes "regalloc_function td t f n = Some (g, None)" "b \<in> set (mf_blocks g)"
  shows "physical_insts b"
  using assms rewrite_blocks_physical
  by (auto simp: regalloc_function_def Let_def split: option.splits prod.splits if_splits)

end

section \<open>x86_64\<close>

lemma x64_stack_physical [simp]: "physical (x64_stack off)"
  by (simp add: physical_def x64_stack_def mach_preg_def mach_vreg_def no_operand_def)

lemma x64_spill_physical [simp]:
  "physical_insts (x64_load_spill b r off) \<longleftrightarrow> physical_insts b"
  "physical_insts (x64_store_spill b r off) \<longleftrightarrow> physical_insts b"
  "physical_insts (x64_save_register b r off restore) \<longleftrightarrow> physical_insts b"
  by (simp_all add: x64_load_spill_def x64_store_spill_def x64_save_register_def physical_append_op)

lemma x64_unwind_physical [simp]:
  "list_all physical operands \<Longrightarrow> physical_insts (x64_unwind fr op operands b) \<longleftrightarrow> physical_insts b"
  by (simp add: x64_unwind_def physical_append_op)

lemma name_physical [simp]: "physical (no_operand\<lparr>o_kind := MACH_NAME, o_name := name\<rparr>)"
  by (simp add: physical_def)

lemma x64_frame_physical:
  assumes "physical_insts b"
  shows "physical_insts (x64_prologue b fr)" "physical_insts (x64_epilogue b fr)"
proof -
  have alloc: "physical_insts (x64_allocate_frame b fr)" if "physical_insts b" for b
    using that by (simp add: x64_allocate_frame_def physical_append_op physical_append Let_def)
  have saves: "physical_insts (foldl (x64_save fr) b ps)" if "physical_insts b" for b ps
    using that by (rule physical_foldl) (auto simp: x64_save_def split: prod.split)
  have restores: "physical_insts (foldl (\<lambda>b (reg, offset). x64_save_register b reg offset True) b ps)"
    if "physical_insts b" for b ps
    using that by (rule physical_foldl) (auto split: prod.split)
  show "physical_insts (x64_prologue b fr)"
    using assms by (simp add: x64_prologue_def Let_def saves alloc physical_append_op)
  show "physical_insts (x64_epilogue b fr)"
    using assms by (simp add: x64_epilogue_def Let_def restores physical_append_op)
qed

interpretation x64: physical_target target_desc_x86_64
  by unfold_locales (simp_all add: target_desc_x86_64_def x64_frame_physical x64_resolve_slot_def)

section \<open>ARM64\<close>

lemma load_into_physical:
  assumes "physical_insts b" "physical dst"
  shows "physical_insts (load_into b dst v)"
proof -
  have "physical_insts (load_pieces dst w shifts first b)" if "physical_insts b" for w shifts first b
    using that assms(2) by (induction dst w shifts first b rule: load_pieces.induct)
      (auto simp: Let_def physical_append_op)
  then show ?thesis using assms by (simp add: load_into_def Let_def physical_append_op)
qed

lemma append_imm12_physical [simp]:
  "list_all physical operands \<Longrightarrow> physical_insts (append_imm12 op operands v b) \<longleftrightarrow> physical_insts b"
  by (simp add: append_imm12_def physical_append_op)

lemma a64_stack_physical [simp]: "physical (a64_stack off index)" "physical (stack_indexed r)"
  by (simp_all add: physical_def a64_stack_def stack_indexed_def mach_preg_def mach_vreg_def no_operand_def)

lemma a64_spill_physical:
  assumes "physical_insts b"
  shows "physical_insts (a64_load_spill b r off)" "physical_insts (a64_store_spill b r off)"
  using assms by (simp_all add: a64_load_spill_def a64_store_spill_def spill_memory_def physical_append_op
      load_into_physical)

lemma a64_unwind_physical [simp]:
  "list_all physical operands \<Longrightarrow> physical_insts (a64_unwind fr op operands b) \<longleftrightarrow> physical_insts b"
  "physical_insts (unwind_save fr r off b) \<longleftrightarrow> physical_insts b"
  by (simp_all add: a64_unwind_def unwind_save_def physical_append_op)

lemma a64_allocate_physical:
  "physical_insts b \<Longrightarrow> physical_insts (a64_allocate_frame b fr bytes)"
  by (simp add: a64_allocate_frame_def Let_def physical_append_op load_into_physical)

lemma a64_prologue_physical:
  assumes "physical_insts b"
  shows "physical_insts (a64_prologue b fr)"
proof -
  have stores: "physical_insts (foldl (\<lambda>b (reg, offset). a64_store_spill b reg offset) b ps)"
    if "physical_insts b" for b ps
    using that by (rule physical_foldl) (auto simp: a64_spill_physical split: prod.split)
  have saves: "physical_insts (foldl (save_in_area fr area) b ps)" if "physical_insts b" for b ps area
    using that by (rule physical_foldl) (auto simp: save_in_area_def a64_spill_physical split: prod.split)
  have pushed: "physical_insts (push_record fr b)" using assms by (simp add: push_record_def physical_append_op)
  have "physical_insts (unwind_prologue fr b)" if "physical_insts b" for b
    using that by (simp add: unwind_prologue_def Let_def saves a64_allocate_physical physical_append_op)
  with pushed assms show ?thesis
    by (simp add: a64_prologue_def Let_def stores a64_allocate_physical physical_append_op)
qed

lemma a64_epilogue_physical:
  assumes "physical_insts b"
  shows "physical_insts (a64_epilogue b fr)"
proof -
  have loads: "physical_insts (foldl (\<lambda>b (reg, offset). a64_load_spill b reg offset) b ps)"
    if "physical_insts b" for b ps
    using that by (rule physical_foldl) (auto simp: a64_spill_physical split: prod.split)
  have restores: "physical_insts (foldl (restore_from_area fr area) b ps)" if "physical_insts b" for b ps area
    using that by (rule physical_foldl) (auto simp: restore_from_area_def a64_spill_physical split: prod.split)
  have nops: "physical_insts (foldl (\<lambda>b inst. a64_unwind fr A64_SEH_NOP [] (mach_append b inst)) b insts)"
    if "physical_insts b" "\<forall>inst \<in> set insts. list_all physical (mi_operands inst)" for b insts
    using that by (induction insts arbitrary: b) (simp_all add: physical_append)
  have "physical_insts (load_into \<lparr>mb_insts = [], mb_loop_depth = 0\<rparr> (mach_preg X16 64) v)" for v
    by (rule load_into_physical) (simp_all add: physical_insts_def)
  then have "\<forall>inst \<in> set (mb_insts (load_into \<lparr>mb_insts = [], mb_loop_depth = 0\<rparr> (mach_preg X16 64) v)).
      list_all physical (mi_operands inst)" for v
    by (simp add: physical_insts_def list_all_iff)
  then have free: "physical_insts (free_stack fr bytes b)" if "physical_insts b" for bytes b
    using that nops [OF that] by (simp add: free_stack_def Let_def physical_append_op)
  have pop: "physical_insts (pop_record b) \<longleftrightarrow> physical_insts b" for b
    by (simp add: pop_record_def physical_append_op)
  have "physical_insts (unwind_epilogue fr b)" if "physical_insts b" for b
    using that by (simp add: unwind_epilogue_def Let_def restores free pop)
  with assms show ?thesis
    by (simp add: a64_epilogue_def Let_def loads pop physical_append_op)
qed

lemma a64_expand_physical:
  assumes "physical_insts b" "list_all physical (mi_operands inst)"
  shows "physical_insts (a64_expand b inst)"
proof -
  have "physical (operand_at inst i)" for i
    using assms(2) by (auto simp: operand_at_def list_all_length physical_def no_operand_def)
  with assms show ?thesis
    by (simp add: a64_expand_def Let_def physical_append physical_append_op load_into_physical)
qed

interpretation a64: physical_target target_desc_arm64
  by unfold_locales (auto simp: target_desc_arm64_def a64_spill_physical a64_prologue_physical
      a64_epilogue_physical a64_expand_physical a64_resolve_slot_def physical_def)

end
