(* ===== verification/FrameProps.thy ===== *)
theory FrameProps
  imports RewriteProps Rounding
begin

text \<open>
  The frame: the slots lie apart, aligned and above the arguments of calls, the saved registers lie
  apart at the top, and the size keeps the stack pointer aligned.
\<close>

lemma sint_small:
  assumes "unat (w :: u64) < 2 ^ 63"
  shows "sint w = int (unat w)"
proof -
  have "int (unat w) < int (2 ^ 63)" using assms by (simp only: of_nat_less_iff)
  then have "uint w < 2 ^ 63" by (simp add: of_nat_unat)
  then have "signed_take_bit 63 (uint w) = uint w"
    by (intro signed_take_bit_int_eq_self) (rule order_trans [OF _ uint_ge_0], simp, simp)
  moreover have "sint w = signed_take_bit 63 (uint w)" by (simp add: sint_uint)
  ultimately show ?thesis by (simp add: of_nat_unat)
qed

section \<open>The slots\<close>

definition slot_start :: "mach_slot \<Rightarrow> nat" where
  "slot_start s = nat (ms_offset s)"

definition slot_end :: "mach_slot \<Rightarrow> nat" where
  "slot_end s = slot_start s + unat (ms_size s)"

text \<open>Where the slots end, on natural numbers.\<close>

fun slots_room :: "nat \<Rightarrow> mach_slot list \<Rightarrow> nat" where
  "slots_room e [] = e"
| "slots_room e (s # ss) = slots_room (round_nat e (unat (ms_align s)) + unat (ms_size s)) ss"

definition aligns_ok :: "mach_slot list \<Rightarrow> bool" where
  "aligns_ok ss \<longleftrightarrow> list_all (\<lambda>s. 0 < unat (ms_align s) \<and> unat (ms_align s) \<le> 2 ^ 62) ss"

text \<open>Slots in the order of their offsets, from \<open>lo\<close> up.\<close>

fun stacked :: "nat \<Rightarrow> mach_slot list \<Rightarrow> bool" where
  "stacked lo [] = True"
| "stacked lo (s # ss) \<longleftrightarrow> 0 \<le> ms_offset s \<and> lo \<le> slot_start s \<and> unat (ms_align s) dvd slot_start s \<and>
     stacked (slot_end s) ss"

lemma slots_room_ge: "aligns_ok ss \<Longrightarrow> e \<le> slots_room e ss"
proof (induction ss arbitrary: e)
  case (Cons s ss)
  have "e \<le> round_nat e (unat (ms_align s)) + unat (ms_size s)"
    using round_nat(1) [of "unat (ms_align s)" e] Cons.prems by (simp add: aligns_ok_def)
  also have "\<dots> \<le> slots_room (round_nat e (unat (ms_align s)) + unat (ms_size s)) ss"
    using Cons by (simp add: aligns_ok_def)
  finally show ?case by simp
qed simp

lemma stacked_append:
  "stacked lo (ss @ [s]) \<longleftrightarrow> stacked lo ss \<and> stacked (if ss = [] then lo else slot_end (last ss)) [s]"
  by (induction ss arbitrary: lo) auto

lemma place_slots_stacked:
  assumes "aligns_ok ss" "slots_room (unat e) ss \<le> 2 ^ 62" "stacked lo done" "unat e = (if done = [] then lo else slot_end (last done))"
  shows "case foldl place_slot (done, e) ss of (done', e') \<Rightarrow>
     unat e' = slots_room (unat e) ss \<and> stacked lo done' \<and> unat e' = (if done' = [] then lo else slot_end (last done')) \<and>
     map ms_size done' = map ms_size (done @ ss) \<and> map ms_align done' = map ms_align (done @ ss)"
  using assms
proof (induction ss arbitrary: "done" e)
  case (Cons s ss)
  let ?a = "unat (ms_align s)"
  define off where "off = align_up e (ms_align s)"
  have a: "0 < ?a" "?a \<le> 2 ^ 62" and ss: "aligns_ok ss" using Cons.prems(1) by (simp_all add: aligns_ok_def)
  have room: "round_nat (unat e) ?a + unat (ms_size s) \<le> 2 ^ 62"
    using slots_room_ge [OF ss, of "round_nat (unat e) ?a + unat (ms_size s)"] Cons.prems(2) by simp
  then have e: "unat e \<le> 2 ^ 62" using round_nat(1) [OF a(1), of "unat e"] by linarith
  have off: "unat off = round_nat (unat e) ?a"
    unfolding off_def align_up_def by (rule unat_round [OF a(1)]) (use e a(2) in simp)
  have off_le: "unat off \<le> 2 ^ 62" using off room by linarith
  have e1: "unat (off + ms_size s) = round_nat (unat e) ?a + unat (ms_size s)"
    by (subst unat_plus_lt) (use off room in simp_all)
  have int: "sint off = int (unat off)"
    by (rule sint_small) (use off_le in simp)
  let ?s = "s\<lparr>ms_offset := sint off\<rparr>"
  have start: "slot_start ?s = unat off" "slot_end ?s = unat off + unat (ms_size s)"
    by (simp_all add: slot_start_def slot_end_def int)
  have step: "place_slot (done, e) s = (done @ [?s], off + ms_size s)"
    by (simp add: place_slot_def off_def Let_def)
  have st: "stacked lo (done @ [?s])"
    using Cons.prems(3,4) round_nat(1) [OF a(1), of "unat e"] round_nat(3) [of ?a "unat e"]
    by (auto simp: stacked_append slot_start_def int off)
  show ?case
    using Cons.IH [OF ss _ st, of "off + ms_size s"] Cons.prems(2) off
    by (simp add: step e1 start split: prod.splits)
qed simp

section \<open>The saved registers\<close>

definition save_width :: "abi \<Rightarrow> nat \<Rightarrow> nat" where
  "save_width abi r = (if is_fp_register abi r then unat (ab_fp_save_size abi) else 8)"

text \<open>Where each save ends, counted down from the top of the frame, on natural numbers.\<close>

fun save_depths :: "abi \<Rightarrow> nat \<Rightarrow> nat list \<Rightarrow> nat list" where
  "save_depths abi d [] = []"
| "save_depths abi d (r # rs) =
     (let e = round_nat d (save_width abi r) + save_width abi r in e # save_depths abi e rs)"

text \<open>Saves one below the other, aligned, the first below \<open>hi\<close>.\<close>

fun saves_down :: "abi \<Rightarrow> int \<Rightarrow> nat list \<Rightarrow> int list \<Rightarrow> bool" where
  "saves_down abi hi [] [] = True"
| "saves_down abi hi (r # rs) (off # offs) \<longleftrightarrow>
     0 \<le> off \<and> off + int (save_width abi r) \<le> hi \<and> int (save_width abi r) dvd off \<and> saves_down abi off rs offs"
| "saves_down abi hi _ _ = False"

definition fp_save_ok :: "abi \<Rightarrow> bool" where
  "fp_save_ok abi \<longleftrightarrow> ab_fp_save_size abi \<in> {8, 16}"

lemma save_width: "fp_save_ok abi \<Longrightarrow> save_width abi r = 8 \<or> save_width abi r = 16"
  by (auto simp: fp_save_ok_def save_width_def)

lemma save_end_nat:
  assumes "fp_save_ok abi" "unat used + 32 < 2 ^ 63"
  shows "unat (save_end abi r used) = round_nat (unat used) (save_width abi r) + save_width abi r"
proof -
  define w where "w = (if is_fp_register abi r then ab_fp_save_size abi else 8)"
  have w: "unat w = save_width abi r" by (simp add: w_def save_width_def)
  have w16: "0 < unat w" "unat w \<le> 16" using save_width [OF assms(1), of r] by (auto simp: w)
  have r: "unat (align_up used w) = round_nat (unat used) (unat w)"
    unfolding align_up_def by (rule unat_round) (use assms(2) w16 in simp_all)
  have "round_nat (unat used) (unat w) + unat w < 2 ^ 64"
    using round_nat(2) [OF w16(1), of "unat used"] assms(2) w16 by simp
  then have "unat (align_up used w + w) = unat (align_up used w) + unat w"
    by (intro unat_plus_lt) (simp only: r)
  then show ?thesis by (simp add: save_end_def Let_def flip: w_def) (simp add: r w)
qed

lemma save_depths_bound:
  assumes "fp_save_ok abi"
  shows "e \<in> set (save_depths abi d rs) \<Longrightarrow> d \<le> e \<and> e \<le> last (save_depths abi d rs)"
    and "rs \<noteq> [] \<Longrightarrow> last (save_depths abi d rs) \<le> d + 32 * length rs"
proof (induction rs arbitrary: d e)
  case (Cons r rs)
  let ?w = "save_width abi r"
  let ?e = "\<lambda>d. round_nat d ?w + ?w"
  have w: "0 < ?w" "?w \<le> 16" using save_width [OF assms, of r] by auto
  have b: "d \<le> ?e d" "?e d \<le> d + 32" for d
    using round_nat(1) [OF w(1), of d] round_nat(2) [OF w(1), of d] w(2) by simp_all
  have l: "last (save_depths abi d (r # rs)) = (if rs = [] then ?e d else last (save_depths abi (?e d) rs))" for d
    by (cases rs) (simp_all add: Let_def)
  { case (1 d e)
    have "?e d \<le> last (save_depths abi d (r # rs))"
    proof (cases "rs = []")
      case False
      then have "last (save_depths abi (?e d) rs) \<in> set (save_depths abi (?e d) rs)"
        by (cases rs) (simp_all add: Let_def)
      from Cons.IH(1) [OF this] False show ?thesis by (simp add: l del: save_depths.simps)
    qed (simp add: Let_def)
    moreover have "e = ?e d \<or> e \<in> set (save_depths abi (?e d) rs)" using 1 by (simp add: Let_def)
    ultimately show ?case using b(1) [of d] Cons.IH(1) [of e "?e d"] l [of d] by (cases "rs = []") auto }
  { case (2 d)
    show ?case using b(2) [of d] Cons.IH(2) [of "?e d"] l [of d] by (cases "rs = []") auto }
qed simp_all

lemma save_ends_nat:
  assumes "fp_save_ok abi"
  shows "unat used + 32 * length rs < 2 ^ 63 \<Longrightarrow>
     map unat (save_ends abi used rs) = save_depths abi (unat used) rs"
proof (induction rs arbitrary: used)
  case (Cons r rs)
  have e: "unat (save_end abi r used) = round_nat (unat used) (save_width abi r) + save_width abi r"
    by (rule save_end_nat [OF assms]) (use Cons.prems in simp)
  have "unat (save_end abi r used) \<le> unat used + 32"
    using e round_nat(2) [of "save_width abi r" "unat used"] save_width [OF assms, of r] by auto
  then show ?case using Cons.IH [of "save_end abi r used"] Cons.prems by (simp add: e Let_def)
qed simp

lemma saves_down_depths:
  assumes ok: "fp_save_ok abi" and sz: "16 dvd sz"
  shows "d \<le> sz \<Longrightarrow> \<forall>e\<in>set (save_depths abi d rs). e \<le> sz \<Longrightarrow>
     saves_down abi (int sz - int d) rs (map (\<lambda>e. int sz - int e) (save_depths abi d rs))"
proof (induction rs arbitrary: d)
  case (Cons r rs)
  let ?w = "save_width abi r"
  let ?e = "round_nat d ?w + ?w"
  have w: "0 < ?w" "?w dvd 16" using save_width [OF ok, of r] by auto
  have e: "?e \<le> sz" "\<forall>e\<in>set (save_depths abi ?e rs). e \<le> sz" using Cons.prems(2) by (simp_all add: Let_def)
  have "?w dvd ?e" using round_nat(3) [of ?w d] by simp
  moreover have "?w dvd sz" using w(2) sz by (rule dvd_trans)
  ultimately have "int ?w dvd int sz - int ?e" by (simp only: dvd_diff int_dvd_int_iff)
  moreover have "int sz - int ?e + int ?w \<le> int sz - int d" using round_nat(1) [OF w(1), of d] by simp
  ultimately show ?case using Cons.IH [OF e] e(1) by (simp add: Let_def)
qed simp

section \<open>The frame\<close>

lemma saved_registers_length: "length (saved_registers abi used) \<le> 64"
proof -
  have "length (saved_registers abi used) \<le> length [0..<PREG_LIMIT]"
    unfolding saved_registers_def by (rule length_filter_le)
  then show ?thesis by (simp add: PREG_LIMIT_def)
qed

text \<open>The slots from the arguments of calls up, the saves from the top down, and the slots end
  below every save.\<close>

definition frame_sound :: "abi \<Rightarrow> nat \<Rightarrow> mach_slot list \<Rightarrow> frame \<Rightarrow> bool" where
  "frame_sound abi outgoing slots fr \<longleftrightarrow>
     16 dvd unat (fr_size fr) \<and> outgoing \<le> unat (fr_size fr) \<and>
     stacked outgoing slots \<and> saves_down abi (int (unat (fr_size fr))) (fr_saved fr) (fr_saved_offset fr) \<and>
     list_all (\<lambda>s. slot_end s \<le> unat (fr_size fr) \<and> list_all (\<lambda>off. int (slot_end s) \<le> off) (fr_saved_offset fr)) slots"

lemma stacked_below:
  "stacked lo ss \<Longrightarrow> s \<in> set ss \<Longrightarrow> slot_end s \<le> slot_end (last ss)"
proof (induction ss arbitrary: lo s)
  case (Cons t ss)
  have st: "stacked (slot_end t) ss" using Cons.prems(1) by simp
  have "ss \<noteq> [] \<Longrightarrow> slot_end t \<le> slot_end (hd ss)" using st by (cases ss) (simp_all add: slot_end_def)
  moreover have "ss \<noteq> [] \<Longrightarrow> slot_end (hd ss) \<le> slot_end (last ss)" using Cons.IH [OF st, of "hd ss"] by simp
  ultimately have "ss \<noteq> [] \<Longrightarrow> slot_end t \<le> slot_end (last ss)" by (blast intro: order_trans)
  then show ?case using Cons.IH [OF st] Cons.prems(2) by auto
qed simp

lemma layout_frame_sound:
  fixes outgoing slots
  assumes abi: "fp_save_ok abi" and al: "aligns_ok (mf_slots (al_f a))"
    and room: "slots_room (unat (mf_outgoing (al_f a))) (mf_slots (al_f a)) \<le> 2 ^ 62"
    and l: "layout_frame td abi conv fmt a = (a', fr)"
  shows "frame_sound abi (unat (mf_outgoing (al_f a))) (mf_slots (al_f a')) fr \<and>
     map ms_size (mf_slots (al_f a')) = map ms_size (mf_slots (al_f a)) \<and>
     map ms_align (mf_slots (al_f a')) = map ms_align (mf_slots (al_f a))"
proof -
  let ?out = "mf_outgoing (al_f a)" and ?ss = "mf_slots (al_f a)"
  define saved where "saved = saved_registers abi (used_registers (al_intervals a))"
  define ends where "ends = save_ends abi 0 saved"
  obtain slots off where p: "place_slots ?out ?ss = (slots, off)" by (cases "place_slots ?out ?ss")
  define top_end where "top_end = (if ends = [] then 0 else last ends)"
  define sz where "sz = align_up (off + top_end) 16"
  have fr: "mf_slots (al_f a') = slots" "fr_size fr = sz" "fr_saved fr = saved"
      "fr_saved_offset fr = map (\<lambda>e. sint (sz - e)) ends"
    using l by (auto simp: layout_frame_def Let_def p saved_def ends_def top_end_def sz_def)
  have s: "unat off = slots_room (unat ?out) ?ss" "stacked (unat ?out) slots"
      "unat off = (if slots = [] then unat ?out else slot_end (last slots))"
      "map ms_size slots = map ms_size ?ss" "map ms_align slots = map ms_align ?ss"
    using place_slots_stacked [OF al room, of "unat ?out" "[]"] p by (simp_all add: place_slots_def)
  have len: "length saved \<le> 64" unfolding saved_def by (rule saved_registers_length)
  have depths: "map unat ends = save_depths abi 0 saved"
    using save_ends_nat [OF abi, of 0 saved] len by (simp add: ends_def)
  have ends_ne: "ends = [] \<longleftrightarrow> saved = []" unfolding ends_def by (cases saved) simp_all
  have lastd: "ends \<noteq> [] \<Longrightarrow> unat (last ends) = last (save_depths abi 0 saved)"
    using depths by (metis last_map)
  have le_top: "e \<le> unat top_end" if "e \<in> set (save_depths abi 0 saved)" for e
  proof -
    have "ends \<noteq> []" using that ends_ne by auto
    then show ?thesis using save_depths_bound(1) [OF abi that] lastd by (simp add: top_end_def)
  qed
  have top_le: "unat top_end \<le> 2048"
    using save_depths_bound(2) [OF abi, of saved 0] lastd len ends_ne by (cases "ends = []") (simp_all add: top_end_def)
  have sum: "unat (off + top_end) = unat off + unat top_end"
    by (rule unat_plus_lt) (use s(1) room top_le in simp)
  have sz_nat: "unat sz = round_nat (unat off + unat top_end) 16"
    unfolding sz_def align_up_def by (subst unat_round) (use sum s(1) room top_le in simp_all)
  have sz: "unat off + unat top_end \<le> unat sz" "unat sz < unat off + unat top_end + 16" "16 dvd unat sz"
    using round_nat [of 16 "unat off + unat top_end"] by (simp_all add: sz_nat)
  have sz_lt: "unat sz < 2 ^ 63" using sz(2) s(1) room top_le by simp
  have off_at: "sint (sz - e) = int (unat sz) - int (unat e)" if "e \<in> set ends" for e
  proof -
    have "unat e \<in> set (save_depths abi 0 saved)" using that by (simp flip: depths)
    then have "unat e \<le> unat sz" using le_top sz(1) by force
    then have "unat (sz - e) = unat sz - unat e" by (simp add: unat_sub word_le_nat_alt)
    then show ?thesis using \<open>unat e \<le> unat sz\<close> sz_lt by (simp add: sint_small)
  qed
  have offs: "fr_saved_offset fr = map (\<lambda>e. int (unat sz) - int e) (save_depths abi 0 saved)"
    unfolding fr(4) using off_at by (simp flip: depths)
  have down: "saves_down abi (int (unat sz)) saved (fr_saved_offset fr)"
    using saves_down_depths [OF abi sz(3), of 0 saved] le_top sz(1) by (force simp: offs)
  have ends_off: "slot_end sl \<le> unat off" if "sl \<in> set slots" for sl
    using stacked_below [OF s(2) that] s(3) that by (auto split: if_splits)
  have "unat ?out \<le> unat off" using slots_room_ge [OF al] s(1) by simp
  moreover have "int (slot_end sl) \<le> int (unat sz) - int e"
    if "sl \<in> set slots" "e \<in> set (save_depths abi 0 saved)" for sl e
    using ends_off [OF that(1)] le_top [OF that(2)] sz(1) by linarith
  ultimately show ?thesis using s(2,4,5) sz ends_off down
    by (auto simp: frame_sound_def fr(1-3) list_all_iff offs) (use order_trans in fastforce)+
qed

end
