(* ===== verification/AllocProps.thy ===== *)
theory AllocProps
  imports AllocSim RewriteProps FrameProps
begin

text \<open>
  What the register allocator promises: liveness is exact, the places keep what a function computes,
  the code that it leaves is physical, and the frame holds every slot and save.
\<close>

section \<open>Helpers\<close>

lemma allocate_returns:
  assumes "mach_ok td f"
  shows "allocate_registers td abi f = Some (linear_scan abi (prepared td (rematerialise_constants td f)))"
proof -
  have "mach_ok td (rematerialise_constants td f)" using remat_keeps_ok [OF assms] by (simp add: remat_ok_def)
  from liveness_start [OF this] show ?thesis by (auto simp: allocate_registers_def prepared_def)
qed

lemma target_abi_ok:
  "abi_ok (x64_abi conv)" "fp_save_ok (x64_abi conv)" "abi_ok (a64_abi conv)" "fp_save_ok (a64_abi conv)"
  by (auto simp: abi_ok_def fp_save_ok_def PREG_LIMIT_def x64_abi_def sysv_def windows_x64_def sysv_allocatable_def
      windows_allocatable_def sysv_fp_allocatable_def windows_fp_allocatable_def
      a64_abi_def a64_convention_def a64_allocatable_def a64_fp_allocatable_def split: convention.splits)

text \<open>A function of two blocks that adds its arguments.\<close>

definition sample_ir :: ir_function where
  "sample_ir = \<lparr>f_index = 0, f_module = Some ''m'', f_name = ''sum'', f_params = [], f_result = IR_I64,
     f_result_agg = 0, f_is_extern = False, f_variadic = False, f_exported = False, f_blocks = [], f_temps = []\<rparr>"

definition x64_inst :: "x64_op \<Rightarrow> mach_operand list \<Rightarrow> x64_op mach_inst" where
  "x64_inst op operands = \<lparr>mi_op = op, mi_operands = operands, mi_uses = 0, mi_defs = 0\<rparr>"

definition code_of :: "bool list \<Rightarrow> x64_op mach_inst list list \<Rightarrow> x64_op mach_function" where
  "code_of fp blocks =
     \<lparr>mf_ir = sample_ir, mf_blocks = map (\<lambda>insts. \<lparr>mb_insts = insts, mb_loop_depth = 0\<rparr>) blocks, mf_slots = [],
      mf_outgoing = 0, mf_stack_params = False, mf_unwind = False, mf_fp = fp\<rparr>"

definition ret_rax :: "x64_op mach_inst" where
  "ret_rax = (x64_inst X64_RET [])\<lparr>mi_uses := reg_set [RAX]\<rparr>"

lemma writes_code [code]: "writes es v = list_ex (\<lambda>(x, w). w \<and> o_kind x = MACH_VREG \<and> o_reg x = v) es"
  by (force simp: writes_def list_ex_iff)

definition sum_code :: "x64_op mach_function" where
  "sum_code = code_of [False, False]
     [[x64_inst X64_MOV [mach_vreg 0 64, mach_preg RDI 64],
       x64_inst X64_MOV [mach_vreg 1 64, mach_preg RSI 64],
       x64_inst X64_JMP [no_operand\<lparr>o_kind := MACH_BLOCK, o_value := 1\<rparr>]],
      [x64_inst X64_ADD [mach_vreg 0 64, mach_vreg 1 64],
       x64_inst X64_MOV [mach_preg RAX 64, mach_vreg 0 64],
       ret_rax]]"

definition sum_sem :: "(x64_op, int) semantics" where
  "sum_sem inst vs k = (if mi_op inst = X64_ADD then vs ! 0 + vs ! 1 else vs ! 0)"

definition sum_args :: "mach_loc \<Rightarrow> int" where
  "sum_args p = (if p = Preg RDI then 3 else if p = Preg RSI then 4 else 0)"

lemma sum_code_ok: "mach_ok target_desc_x86_64 sum_code"
  by code_simp

lemma sum_code_remat: "rematerialise_constants target_desc_x86_64 sum_code = sum_code"
  by code_simp

lemma sum_code_regs: "vreg_count sum_code = 2" "length (mf_blocks sum_code) = 2"
  "length (block_insts sum_code 1) = 3" "block_insts sum_code 1 ! 2 = ret_rax"
  by code_simp+

section \<open>The places\<close>


lemma sum_code_events:
  "events target_desc_x86_64 (block_insts sum_code 0) =
     [(mach_preg RDI 64, False), (mach_vreg 0 64, True), (mach_preg RSI 64, False), (mach_vreg 1 64, True)]"
  "events target_desc_x86_64 (block_insts sum_code 1) =
     [(mach_vreg 0 64, False), (mach_vreg 1 64, False), (mach_vreg 0 64, True), (mach_vreg 0 64, False),
      (mach_preg RAX 64, True), (mach_preg RAX 64, False)]"
  by code_simp+

lemma writes_Cons: "writes ((x, w) # es) v \<longleftrightarrow> (w \<and> o_kind x = MACH_VREG \<and> o_reg x = v) \<or> writes es v"
  by (auto simp: writes_def)

lemma sum_code_entry: "v < 2 \<Longrightarrow> \<not> live_in target_desc_x86_64 sum_code 0 v"
proof
  assume v: "v < 2" and "live_in target_desc_x86_64 sum_code 0 v"
  from this(2) show False
    by (cases rule: live_in.cases) (use v in \<open>auto simp: sum_code_events writes_Cons mach_vreg_def mach_preg_def
        no_operand_def less_2_cases_iff split: if_splits\<close>)
qed

lemma sum_code_pregs: "pregs_written_first target_desc_x86_64 sum_code 1"
  by (simp add: pregs_written_first_def preg_live_def sum_code_events event_loc_def mach_vreg_def mach_preg_def
      no_operand_def del: One_nat_def)

lemma sum_code_edge: "mach_edge target_desc_x86_64 sum_code 0 1"
  by code_simp


text \<open>
  C13. Every virtual register that an instruction accesses gets one place: a register that its class may
  take and that no write or pending read of that physical register meets, or a slot of its own that the
  allocator adds to the function.
\<close>

theorem registers_placed:
  assumes "mach_ok td f" and "g = rematerialise_constants td f" and "allocate_registers td abi f = Some a"
    and "b < length (mf_blocks g)" and "i < length (block_insts g b)"
    and "(x, w) \<in> set (each_register td (block_insts g b ! i))" and "o_kind x = MACH_VREG"
  shows "(\<exists>r. loc_in a (Vreg (o_reg x)) = Preg r \<and>
       r \<in> set (if mf_fp g ! o_reg x then ab_fp_allocatable abi else ab_allocatable abi) \<and>
       \<not> overlaps_fixed a r (al_intervals a ! o_reg x)) \<or>
     (\<exists>s. loc_in a (Vreg (o_reg x)) = Spill s \<and> length (mf_slots g) \<le> s \<and> s < length (mf_slots (al_f a)) \<and>
       (\<forall>u < vreg_count g. u \<noteq> o_reg x \<longrightarrow> loc_in a (Vreg u) \<noteq> Spill s))"
proof -
  have ok: "mach_ok td g" using remat_keeps_ok [OF assms(1)] assms(2) by (simp add: remat_ok_def)
  have a: "a = linear_scan abi (prepared td g)" using allocate_returns [OF assms(1)] assms(2,3) by simp
  note un = prepared_unplaced [OF ok]
  have "minst_ok td (vreg_count g) (length (mf_blocks g)) (block_insts g b ! i)"
    using ok assms(4,5) by (simp add: mach_ok_def list_all_length block_insts_def)
  from each_register_less [OF this assms(6,7)] have v: "o_reg x < length (al_intervals (prepared td g))" by (simp add: un(2))
  from prepared_covered(3) [OF ok assms(4-6)] obtain p where
    p: "covers (al_intervals (prepared td g) ! o_reg x) p" "0 \<le> p"
    using assms(7) reads_at_ge [of g b i] by (force simp: event_covered_def)
  have fp: "iv_fp (al_intervals (prepared td g) ! o_reg x) = mf_fp g ! o_reg x"
    using prepared_covered(5) [OF ok] v un(2)
    by (auto simp: widens_def start_intervals_def same_interval_def no_interval_def)
  from ls.placed_in_class [OF un(1) v p, of abi] ls.slot_added [OF un(1) v, of abi] ls.slots_differ [OF un(1) v, of _ abi]
  show ?thesis
    by (auto simp: a class_registers_def fp un(2) prepared_f [OF ok] split: option.splits)
qed

lemma mach_vreg_simps [simp]: "o_kind (mach_vreg v w) = MACH_VREG" "o_reg (mach_vreg v w) = v"
  by (simp_all add: mach_vreg_def)

theorem registers_placed_witness:
  "\<exists>a. allocate_registers target_desc_x86_64 sysv sum_code = Some a \<and>
     ((\<exists>r \<in> set sysv_allocatable. loc_in a (Vreg 0) = Preg r) \<or> (\<exists>s. loc_in a (Vreg 0) = Spill s))"
proof -
  obtain a where a: "allocate_registers target_desc_x86_64 sysv sum_code = Some a"
    using allocate_returns [OF sum_code_ok] by blast
  have "(mach_vreg 0 64, False) \<in> set (each_register target_desc_x86_64 (block_insts sum_code 1 ! 0))"
    "mf_fp sum_code ! 0 = False"
    by code_simp+
  with registers_placed [OF sum_code_ok sum_code_remat [symmetric] a, of 1 0 "mach_vreg 0 64" False] a show ?thesis
    by (auto simp: sum_code_regs sysv_def simp del: One_nat_def loc_in.simps)
qed

section \<open>Liveness\<close>

text \<open>
  C4. The liveness analysis always returns, and its sets hold exactly the registers that some path
  through the blocks reads before it writes them.
\<close>

theorem liveness_exact:
  assumes "mach_ok td f"
  shows "\<exists>a. compute_liveness td (alloc_start f) = Some a \<and>
     (\<forall>b < length (mf_blocks f). \<forall>v < vreg_count f.
        set_has (al_live_in a ! b) v = live_in td f b v \<and> set_has (al_live_out a ! b) v = live_out td f b v)"
  using liveness_start [OF assms] by blast

theorem liveness_exact_witness:
  "\<exists>a. compute_liveness target_desc_x86_64 (alloc_start sum_code) = Some a \<and>
     set_has (al_live_out a ! 0) 1 \<and> \<not> set_has (al_live_in a ! 0) 0"
proof -
  have "live_in target_desc_x86_64 sum_code 1 1"
    by (rule live_in.used) (simp add: sum_code_events mach_vreg_def mach_preg_def no_operand_def del: One_nat_def)
  then have out: "live_out target_desc_x86_64 sum_code 0 1" using sum_code_edge unfolding live_out_def by blast
  obtain a where "compute_liveness target_desc_x86_64 (alloc_start sum_code) = Some a"
    "\<forall>b < length (mf_blocks sum_code). \<forall>v < vreg_count sum_code.
        set_has (al_live_in a ! b) v = live_in target_desc_x86_64 sum_code b v \<and>
        set_has (al_live_out a ! b) v = live_out target_desc_x86_64 sum_code b v"
    using liveness_exact [OF sum_code_ok] by blast
  with out sum_code_entry [of 0] show ?thesis by (simp add: sum_code_regs)
qed

section \<open>The code that is left\<close>


text \<open>A function that only returns.\<close>

definition ret_code :: "x64_op mach_function" where
  "ret_code = code_of [] [[x64_inst X64_RET []]]"

definition a64_ret_code :: "a64_op mach_function" where
  "a64_ret_code =
     \<lparr>mf_ir = sample_ir, mf_blocks = [\<lparr>mb_insts = [\<lparr>mi_op = A64_RET, mi_operands = [], mi_uses = 0, mi_defs = 0\<rparr>],
      mb_loop_depth = 0\<rparr>], mf_slots = [], mf_outgoing = 0, mf_stack_params = False, mf_unwind = False, mf_fp = []\<rparr>"


section \<open>The frame\<close>

text \<open>
  C15. The frame is a multiple of 16 bytes; from the arguments of calls up the slots lie one after the
  other, each aligned and with its size; the saved registers lie below the top one under the other, each
  aligned to its width; and every slot ends below every save.
\<close>

theorem frame_holds_slots:
  assumes "fp_save_ok abi" and "aligns_ok (mf_slots (al_f a))"
    and "slots_room (unat (mf_outgoing (al_f a))) (mf_slots (al_f a)) \<le> 2 ^ 62"
    and "layout_frame td abi conv fmt a = (a', fr)"
  shows "frame_sound abi (unat (mf_outgoing (al_f a))) (mf_slots (al_f a')) fr \<and>
     map ms_size (mf_slots (al_f a')) = map ms_size (mf_slots (al_f a)) \<and>
     map ms_align (mf_slots (al_f a')) = map ms_align (mf_slots (al_f a))"
  using assms by (rule layout_frame_sound)

definition sample_frame :: "x64_op alloc" where
  "sample_frame =
     (alloc_start sum_code)\<lparr>al_f := sum_code\<lparr>mf_slots := [\<lparr>ms_size = 1, ms_align = 1, ms_offset = 0\<rparr>,
       \<lparr>ms_size = 8, ms_align = 8, ms_offset = 0\<rparr>]\<rparr>, al_intervals := [(no_interval False 0)\<lparr>iv_preg := Some RBX\<rparr>,
       (no_interval True 1)\<lparr>iv_preg := Some (XMM0 + 6)\<rparr>]\<rparr>"

lemma sample_saves:
  "used_registers (al_intervals sample_frame) = 0x400008"
  "saved_registers windows_x64 0x400008 = [RBX, XMM0 + 6]"
  "save_ends windows_x64 0 [RBX, XMM0 + 6] = [8, 32]"
  "map_prod (map ms_offset) id (place_slots 0 (mf_slots (al_f sample_frame))) = ([0, 8], 16)"
  "mf_outgoing (al_f sample_frame) = 0"
  by code_simp+

lemma sample_slots: "aligns_ok (mf_slots (al_f sample_frame))" "slots_room 0 (mf_slots (al_f sample_frame)) \<le> 2 ^ 62"
  by (simp_all add: sample_frame_def aligns_ok_def round_nat_def)

theorem frame_holds_slots_witness:
  "case layout_frame target_desc_x86_64 windows_x64 CONVENTION_WINDOWS_X64 FORMAT_COFF sample_frame of
     (a', fr) \<Rightarrow> frame_sound windows_x64 0 (mf_slots (al_f a')) fr \<and> fr_size fr = 48 \<and> fr_saved_offset fr = [40, 16] \<and>
       map ms_offset (mf_slots (al_f a')) = [0, 8]"
proof -
  obtain a' fr where l: "layout_frame target_desc_x86_64 windows_x64 CONVENTION_WINDOWS_X64 FORMAT_COFF sample_frame = (a', fr)"
    by (cases "layout_frame target_desc_x86_64 windows_x64 CONVENTION_WINDOWS_X64 FORMAT_COFF sample_frame")
  obtain slots off where p: "place_slots 0 (mf_slots (al_f sample_frame)) = (slots, off)"
    by (cases "place_slots 0 (mf_slots (al_f sample_frame))")
  with sample_saves(4) have "map ms_offset slots = [0, 8]" "off = 16" by simp_all
  moreover have "align_up (16 + 32) 16 = 48" "sint (48 - 8 :: u64) = 40" "sint (48 - 32 :: u64) = 16" by code_simp+
  ultimately have "fr_size fr = 48 \<and> fr_saved_offset fr = [40, 16] \<and> map ms_offset (mf_slots (al_f a')) = [0, 8]"
    using l p sample_saves(1-3,5) by (auto simp: layout_frame_def Let_def)
  moreover have "fp_save_ok windows_x64" using target_abi_ok(2) [of CONVENTION_WINDOWS_X64] by (simp add: x64_abi_def)
  ultimately show ?thesis
    using frame_holds_slots [OF _ _ _ l] l sample_saves(5) sample_slots by simp
qed

section \<open>Constants\<close>

definition stored_code :: "x64_op mach_function" where
  "stored_code = code_of [False]
     [[x64_inst X64_MOVABS [mach_vreg 0 64, mach_imm 1311768467463790320],
       x64_inst X64_MOV [(mach_preg RSP 64)\<lparr>o_kind := MACH_MEM\<rparr>, mach_vreg 0 64],
       x64_inst X64_RET []]]"

definition loaded_code :: "x64_op mach_function" where
  "loaded_code = code_of [False, False]
     [[x64_inst X64_MOV [mach_vreg 1 64, mach_imm 4096],
       x64_inst X64_MOV [mach_vreg 0 64, (mach_vreg 1 64)\<lparr>o_kind := MACH_MEM, o_base_vreg := True\<rparr>],
       x64_inst X64_MOV [mach_preg RAX 64, mach_vreg 0 64],
       ret_rax]]"

text \<open>
  C34. Writing constants again at each use loses them in two cases. An instruction that defines no
  register makes the pass forget the constant of virtual register 0, and a use as the base of a memory
  operand is not replaced; in both the definition is dropped, and the register is read but never written.
\<close>

theorem rematerialise_loses_constant:
  "\<not> live_in target_desc_x86_64 stored_code 0 0 \<and>
   live_in target_desc_x86_64 (rematerialise_constants target_desc_x86_64 stored_code) 0 0 \<and>
   \<not> live_in target_desc_x86_64 loaded_code 0 1 \<and>
   live_in target_desc_x86_64 (rematerialise_constants target_desc_x86_64 loaded_code) 0 1"
proof -
  have written: "\<not> live_in td f 0 v" if "writes (events td (block_insts f 0)) v" "\<not> reads_first (events td (block_insts f 0)) v"
    for td :: "x64_op target_desc" and f v
    using that by (auto elim: live_in.cases)
  have "writes (events target_desc_x86_64 (block_insts stored_code 0)) 0"
    "\<not> reads_first (events target_desc_x86_64 (block_insts stored_code 0)) 0"
    "writes (events target_desc_x86_64 (block_insts loaded_code 0)) 1"
    "\<not> reads_first (events target_desc_x86_64 (block_insts loaded_code 0)) 1"
    by code_simp+
  moreover have
    "reads_first (events target_desc_x86_64 (block_insts (rematerialise_constants target_desc_x86_64 stored_code) 0)) 0"
    "reads_first (events target_desc_x86_64 (block_insts (rematerialise_constants target_desc_x86_64 loaded_code) 0)) 1"
    by code_simp+
  ultimately show ?thesis using written live_in.used by blast
qed

end
