(* ===== verification/Spec2Isabelle.thy ===== *)
theory Spec2Isabelle
  imports Utf8 LexerValues LexerProps Ir FoldingProps Program IrVerifyMain IrPrintProps TargetProps LayoutProps
    Bitfields LayoutTerm PlaceProps AllocProps
begin

text \<open>
  Skeleton header.
\<close>

end
